(* ===== verification/Snow_Prelude.thy ===== *)
theory Snow_Prelude
  imports Main "HOL-Library.Word" "HOL-Library.Monad_Syntax"
begin

text \<open>
  Shared vocabulary of the development: the C integer types of
  \<^verbatim>\<open>include/sys/defs.h\<close> as machine words, byte-addressed physical memory with
  little-endian 64-bit access, page-aligned addresses, and the generic lemmas on words and
  options that the component theories use.

  Convention. An operation of the kernel is a function on the state that returns an
  \<^typ>\<open>'a option\<close>. \<^const>\<open>None\<close> means that the C code has no defined continuation
  there: it dereferences a null pointer, reads or writes outside an array, or does not
  return. An error code that the C function returns is an ordinary value.
\<close>

unbundle bit_operations_syntax

named_theorems word_page \<open>addresses split into page and offset\<close>
named_theorems mem_simps \<open>reads of updated memory\<close>

subsection \<open>C integer types\<close>

type_synonym u8 = "8 word"
type_synonym u16 = "16 word"
type_synonym u32 = "32 word"
type_synonym u64 = "64 word"
type_synonym byte_mem = "u64 \<Rightarrow> u8"

subsection \<open>The option monad\<close>

lemma bind_SomeE:
  assumes "Option.bind x f = Some y"
  obtains z where "x = Some z" and "f z = Some y"
  using assms by (cases x) auto

lemma bind_Some_iff: "Option.bind x f = Some y \<longleftrightarrow> (\<exists>z. x = Some z \<and> f z = Some y)"
  by (cases x) auto

text \<open>A counting loop whose body may fault: \<open>foldM body [0..<n]\<close> is
  \<^verbatim>\<open>for (i = 0; i < n; i++) body\<close>.\<close>

primrec foldM :: "('i \<Rightarrow> 's \<Rightarrow> 's option) \<Rightarrow> 'i list \<Rightarrow> 's \<Rightarrow> 's option" where
  "foldM f [] s = Some s"
| "foldM f (i # is) s = Option.bind (f i s) (foldM f is)"

lemma foldM_append [simp]: "foldM f (xs @ ys) s = Option.bind (foldM f xs s) (foldM f ys)"
  by (induction xs arbitrary: s) (auto split: Option.bind_split)

text \<open>Total correctness of a counting loop: an invariant indexed by the iterations done.\<close>

lemma foldM_upt:
  assumes "P m s" and "m \<le> n"
    and step: "\<And>i t. m \<le> i \<Longrightarrow> i < n \<Longrightarrow> P i t \<Longrightarrow> \<exists>t'. f i t = Some t' \<and> P (Suc i) t'"
  shows "\<exists>s'. foldM f [m..<n] s = Some s' \<and> P n s'"
  using assms
proof (induction "n - m" arbitrary: m s)
  case 0
  then show ?case by simp
next
  case (Suc d)
  then have m: "m < n" by simp
  from Suc.prems(3) [OF order_refl m Suc.prems(1)] obtain t where
    t: "f m s = Some t" "P (Suc m) t" by blast
  have "\<exists>s'. foldM f [Suc m..<n] t = Some s' \<and> P n s'"
    using Suc.hyps t m Suc.prems(3) by (intro Suc.hyps(1)) auto
  with t show ?case by (simp add: upt_conv_Cons [OF m])
qed

subsection \<open>Page arithmetic\<close>

definition PAGE_SIZE :: u64 where
  "PAGE_SIZE = 4096"

definition MASK :: u64 where
  "MASK = 0xFFFFFFFFFFFFF000"

definition GET_FLAGS :: u64 where
  "GET_FLAGS = 0xFFF"

abbreviation page_of :: "u64 \<Rightarrow> u64" where
  "page_of a \<equiv> a AND MASK"

definition page_aligned :: "u64 \<Rightarrow> bool" where
  "page_aligned a \<longleftrightarrow> a AND GET_FLAGS = 0"

lemma bit_MASK: "bit MASK n \<longleftrightarrow> 12 \<le> n \<and> n < 64"
proof -
  have *: "MASK = push_bit 12 (mask 52)"
    by (simp add: MASK_def mask_eq_exp_minus_1 push_bit_eq_mult)
  show ?thesis unfolding * by (auto simp: bit_simps)
qed

lemma GET_FLAGS_mask: "GET_FLAGS = mask 12"
  by (simp add: GET_FLAGS_def mask_eq_exp_minus_1)

lemma bit_GET_FLAGS: "bit GET_FLAGS n \<longleftrightarrow> n < 12"
  by (auto simp: GET_FLAGS_mask bit_simps)

lemma flags_below: "(x::u64) AND GET_FLAGS = x \<longleftrightarrow> x < 4096"
  using mask_eq_iff_w2p [of 12 x] by (simp add: GET_FLAGS_mask word_size)

lemma page_aligned_bit: "page_aligned a \<Longrightarrow> n < 12 \<Longrightarrow> \<not> bit a n"
proof -
  assume a: "page_aligned a" and n: "n < 12"
  from a have "bit (a AND GET_FLAGS) n = bit (0::u64) n"
    by (simp add: page_aligned_def)
  with n show ?thesis by (simp add: bit_and_iff bit_GET_FLAGS)
qed

lemma small_bit: "(x::u64) < 4096 \<Longrightarrow> bit x n \<Longrightarrow> n < 12"
proof -
  assume x: "x < 4096" and b: "bit x n"
  have "bit (x AND GET_FLAGS) n" using x b by (simp only: flags_below [THEN iffD2])
  then show ?thesis by (simp add: bit_and_iff bit_GET_FLAGS)
qed

lemma page_of_aligned [simp, word_page]: "page_aligned (page_of a)"
proof -
  have "page_of a AND GET_FLAGS = 0"
    by (rule bit_word_eqI) (simp add: bit_and_iff bit_MASK bit_GET_FLAGS)
  then show ?thesis by (simp add: page_aligned_def)
qed

lemma page_of_id [simp, word_page]:
  assumes "page_aligned a"
  shows "page_of a = a"
proof (rule bit_word_eqI)
  fix n assume "n < LENGTH(64)"
  then show "bit (page_of a) n = bit a n"
    using page_aligned_bit [OF assms, of n] by (cases "n < 12") (simp_all add: bit_and_iff bit_MASK)
qed

lemma or_page [word_page]:
  assumes "page_aligned p" and "x < 4096"
  shows "page_of (p OR x) = p"
proof (rule bit_word_eqI)
  fix n assume "n < LENGTH(64)"
  then show "bit (page_of (p OR x)) n = bit p n"
    using page_aligned_bit [OF assms(1), of n] small_bit [OF assms(2), of n]
    by (cases "n < 12") (simp_all add: bit_and_iff bit_or_iff bit_MASK, blast)
qed

lemma or_flags [word_page]:
  assumes "page_aligned p" and "x < 4096"
  shows "(p OR x) AND GET_FLAGS = x"
proof (rule bit_word_eqI)
  fix n assume "n < LENGTH(64)"
  show "bit ((p OR x) AND GET_FLAGS) n = bit x n"
    using page_aligned_bit [OF assms(1), of n] small_bit [OF assms(2), of n]
    by (cases "n < 12") (simp_all add: bit_and_iff bit_or_iff bit_GET_FLAGS, blast)
qed

lemma page_plus_or [word_page]:
  assumes "page_aligned p" and "x < 4096"
  shows "p + x = p OR x"
proof -
  have "p AND x = 0"
  proof (rule bit_word_eqI)
    fix n
    show "bit (p AND x) n = bit (0::u64) n"
      using page_aligned_bit [OF assms(1), of n] small_bit [OF assms(2), of n]
      by (simp add: bit_and_iff) blast
  qed
  then show ?thesis
    using word_plus_and_or [of p x] by simp
qed

lemma page_of_plus [simp, word_page]: "page_aligned p \<Longrightarrow> x < 4096 \<Longrightarrow> page_of (p + x) = p"
  by (simp add: page_plus_or or_page)

lemma page_plus_inj [word_page]:
  assumes "page_aligned p" "page_aligned q" "x < 4096" "y < 4096" "p + x = q + y"
  shows "p = q \<and> x = y"
  using assms by (metis page_of_plus add_left_cancel)

lemma page_aligned_iff_dvd: "page_aligned a \<longleftrightarrow> 4096 dvd unat a"
  using and_mask_dvd_nat [of 12 a] by (simp add: page_aligned_def GET_FLAGS_mask)

subsection \<open>Little-endian 64-bit access to byte memory\<close>

definition load64 :: "byte_mem \<Rightarrow> u64 \<Rightarrow> u64" where
  "load64 m a =
     ucast (m a) OR push_bit 8 (ucast (m (a + 1))) OR
     push_bit 16 (ucast (m (a + 2))) OR push_bit 24 (ucast (m (a + 3))) OR
     push_bit 32 (ucast (m (a + 4))) OR push_bit 40 (ucast (m (a + 5))) OR
     push_bit 48 (ucast (m (a + 6))) OR push_bit 56 (ucast (m (a + 7)))"

definition store64 :: "byte_mem \<Rightarrow> u64 \<Rightarrow> u64 \<Rightarrow> byte_mem" where
  "store64 m a v = (\<lambda>x. if x - a < 8 then ucast (drop_bit (8 * unat (x - a)) v) else m x)"

lemma bytes_reassemble:
  fixes v :: u64
  shows "ucast (ucast v :: u8) OR push_bit 8 (ucast (ucast (drop_bit 8 v) :: u8)) OR
     push_bit 16 (ucast (ucast (drop_bit 16 v) :: u8)) OR
     push_bit 24 (ucast (ucast (drop_bit 24 v) :: u8)) OR
     push_bit 32 (ucast (ucast (drop_bit 32 v) :: u8)) OR
     push_bit 40 (ucast (ucast (drop_bit 40 v) :: u8)) OR
     push_bit 48 (ucast (ucast (drop_bit 48 v) :: u8)) OR
     push_bit 56 (ucast (ucast (drop_bit 56 v) :: u8)) = v"
    (is "?l = v")
proof (rule bit_word_eqI)
  fix n assume "n < LENGTH(64)"
  then have "n < 64" by simp
  then consider "n < 8" | "8 \<le> n \<and> n < 16" | "16 \<le> n \<and> n < 24" | "24 \<le> n \<and> n < 32"
    | "32 \<le> n \<and> n < 40" | "40 \<le> n \<and> n < 48" | "48 \<le> n \<and> n < 56" | "56 \<le> n \<and> n < 64"
    by linarith
  then show "bit ?l n = bit v n"
    by cases (simp_all add: bit_simps less_diff_conv2)
qed

lemma load64_store64_same [simp, mem_simps]: "load64 (store64 m a v) a = v"
  unfolding load64_def store64_def by (simp add: bytes_reassemble)

lemma load64_store64_disjoint:
  assumes "8 \<le> b - a" and "8 \<le> a - b"
  shows "load64 (store64 m a v) b = load64 m b"
proof -
  have "\<not> (b + i) - a < 8" if "i < 8" for i
    using assms that by unat_arith
  from this [of 0] this [of 1] this [of 2] this [of 3]
    this [of 4] this [of 5] this [of 6] this [of 7]
  show ?thesis by (simp add: load64_def store64_def)
qed

lemma load64_zero: "(\<And>i. i < 8 \<Longrightarrow> m (a + i) = 0) \<Longrightarrow> load64 m a = 0"
proof -
  assume z: "\<And>i. i < 8 \<Longrightarrow> m (a + i) = 0"
  from z [of 0] z [of 1] z [of 2] z [of 3] z [of 4] z [of 5] z [of 6] z [of 7]
  show ?thesis by (simp add: load64_def)
qed

lemma load64_cong: "(\<And>i. i < 8 \<Longrightarrow> m (a + i) = m' (b + i)) \<Longrightarrow> load64 m a = load64 m' b"
proof -
  assume z: "\<And>i. i < 8 \<Longrightarrow> m (a + i) = m' (b + i)"
  from z [of 0] z [of 1] z [of 2] z [of 3] z [of 4] z [of 5] z [of 6] z [of 7]
  show ?thesis by (simp add: load64_def)
qed

lemma dvd8_apart:
  fixes a b :: u64
  assumes "8 dvd unat a" "8 dvd unat b" "a \<noteq> b"
  shows "8 \<le> a - b"
proof -
  from assms obtain x y where x: "unat a = 8 * x" and y: "unat b = 8 * y"
    by (auto simp: dvd_def)
  have lt: "8 * x < 2 ^ 64" "8 * y < 2 ^ 64"
    using unsigned_less [of a, where 'a = nat] unsigned_less [of b, where 'a = nat] x y by simp_all
  have ne: "x \<noteq> y"
    using assms(3) x y by (metis word_unat_eq_iff)
  have "8 \<le> unat (a - b)"
  proof (cases "b \<le> a")
    case True
    then have "unat (a - b) = 8 * x - 8 * y" by (simp add: unat_sub x y)
    with True ne x y show ?thesis by (simp add: word_le_nat_alt)
  next
    case False
    then have "unat (a - b) = 2 ^ 64 + 8 * x - 8 * y"
      by (simp add: unat_sub_if' x y word_le_nat_alt)
    with False ne x y lt show ?thesis by (simp add: word_le_nat_alt)
  qed
  then show ?thesis by (simp add: word_le_nat_alt)
qed

end
