(* ===== verification/Phys_Mem.thy ===== *)
theory Phys_Mem
  imports Snow_Prelude
begin

text \<open>
  The physical page allocator of \<^verbatim>\<open>sys/physical_memory.c\<close> (with
  \<^verbatim>\<open>memset\<close> of \<^verbatim>\<open>sys/defs.c\<close>): the page descriptors, the free list
  threaded through them, and the counters. The record \<open>phys\<close> holds the file's global
  variables and the physical memory itself; the theories above extend it.

  A pointer into \<open>page_descriptor\<close> is an index (\<^const>\<open>None\<close> is the null pointer).
  The locale \<open>frame_allocator\<close> states what the rest of the kernel relies on, and is
  interpreted on \<open>get_free_page\<close>.
\<close>

subsection \<open>State\<close>

definition MIN_PAGES :: u64 where
  "MIN_PAGES = 10"

definition MAX_PAGES :: nat where
  "MAX_PAGES = 100000"

record physical_page =
  page_number :: u64
  pp_next :: "nat option"
  ref_count :: u32

record phys =
  mem :: byte_mem
  free_list :: "nat option"
  page_descriptor :: "nat \<Rightarrow> physical_page"
  max_pages_available :: u64
  max_free_pages_available :: u64
  pages_used :: u64
  physical_mem_size :: u64
  free_page :: u64

subsection \<open>Operations\<close>

text \<open>\<open>memset\<close> counts with a signed \<open>int\<close>, so a length of \<open>2 ^ 31\<close> or more
  overflows the counter.\<close>

primrec memset_loop :: "u64 \<Rightarrow> u8 \<Rightarrow> nat \<Rightarrow> byte_mem \<Rightarrow> byte_mem" where
  "memset_loop a v 0 m = m"
| "memset_loop a v (Suc i) m = (memset_loop a v i m)(a + of_nat i := v)"

definition memset :: "u64 \<Rightarrow> u8 \<Rightarrow> u64 \<Rightarrow> byte_mem \<Rightarrow> byte_mem option" where
  "memset a v b m = (if unat b < 2 ^ 31 then Some (memset_loop a v (unat b) m) else None)"

definition update_max_pages :: "u32 \<Rightarrow> 'a phys_scheme \<Rightarrow> 'a phys_scheme" where
  "update_max_pages add_pages s =
     s\<lparr>max_free_pages_available := max_free_pages_available s + ucast add_pages,
       max_pages_available := max_pages_available s + ucast add_pages\<rparr>"

definition get_page_ref_count :: "u64 \<Rightarrow> 'a phys_scheme \<Rightarrow> u32 option" where
  "get_page_ref_count page_addr s =
     (let n = unat (page_addr div PAGE_SIZE)
      in if n < MAX_PAGES then Some (ref_count (page_descriptor s n)) else None)"

definition set_page_ref_count :: "u64 \<Rightarrow> u32 \<Rightarrow> 'a phys_scheme \<Rightarrow> 'a phys_scheme option" where
  "set_page_ref_count page_addr new_ref_count s =
     (let n = unat (page_addr div PAGE_SIZE)
      in if n < MAX_PAGES
         then Some (s\<lparr>page_descriptor := (page_descriptor s)
                        (n := (page_descriptor s n)\<lparr>ref_count := new_ref_count\<rparr>)\<rparr>)
         else None)"

definition init_page :: "nat \<Rightarrow> u64 \<Rightarrow> 'a phys_scheme \<Rightarrow> 'a phys_scheme option" where
  "init_page pg physfree s =
     (if pg < MAX_PAGES then
        (let d = (page_descriptor s pg)\<lparr>page_number := of_nat pg, ref_count := 0\<rparr>;
             d' = (if of_nat pg < max_pages_available s - 1
                   then d\<lparr>pp_next := Some (pg + 1)\<rparr> else d);
             s' = s\<lparr>page_descriptor := (page_descriptor s)(pg := d')\<rparr>
         in Some (if of_nat pg * PAGE_SIZE = physfree then s'\<lparr>free_list := Some pg\<rparr> else s'))
      else None)"

primrec init_pages :: "nat \<Rightarrow> u64 \<Rightarrow> 'a phys_scheme \<Rightarrow> 'a phys_scheme option" where
  "init_pages 0 physfree s = Some s"
| "init_pages (Suc pg) physfree s =
     Option.bind (init_pages pg physfree s) (init_page pg physfree)"

definition init_physical_memory ::
    "u64 \<Rightarrow> u64 \<Rightarrow> u64 \<Rightarrow> 'a phys_scheme \<Rightarrow> 'a phys_scheme option" where
  "init_physical_memory physfree base len s = do {
     let size = base + len;
     let max_free = (size - physfree) div PAGE_SIZE;
     let max_pages = size div PAGE_SIZE;
     m \<leftarrow> memset physfree 0 (max_free * PAGE_SIZE div 8) (mem s);
     init_pages (unat max_pages) physfree
       (s\<lparr>mem := m, physical_mem_size := size, max_free_pages_available := max_free,
          max_pages_available := max_pages\<rparr>)
   }"

definition get_free_pages_count :: "'a phys_scheme \<Rightarrow> u64" where
  "get_free_pages_count s = max_free_pages_available s - pages_used s"

text \<open>Following a pointer to a page descriptor: a null or out-of-range pointer faults.\<close>

definition page_ptr :: "nat option \<Rightarrow> nat option" where
  "page_ptr p = (case p of None \<Rightarrow> None | Some i \<Rightarrow> if i < MAX_PAGES then Some i else None)"

definition get_free_page :: "'a phys_scheme \<Rightarrow> (u64 \<times> 'a phys_scheme) option" where
  "get_free_page s =
     (if get_free_pages_count s < MIN_PAGES then Some (0, s)
      else do {
        f \<leftarrow> page_ptr (free_list s);
        let p = page_number (page_descriptor s f) * PAGE_SIZE;
        s1 \<leftarrow> set_page_ref_count p 1 (s\<lparr>free_page := p\<rparr>);
        Some (p, s1\<lparr>free_list := pp_next (page_descriptor s1 f),
                    pages_used := pages_used s1 + 1\<rparr>)
      })"

definition get_free_pages :: "u64 \<Rightarrow> 'a phys_scheme \<Rightarrow> (u64 \<times> 'a phys_scheme) option" where
  "get_free_pages num_of_pages s =
     (if get_free_pages_count s - num_of_pages < MIN_PAGES then Some (0, s)
      else do {
        f \<leftarrow> page_ptr (free_list s);
        let n = page_number (page_descriptor s f);
        Some (n * PAGE_SIZE,
              s\<lparr>free_page := n * PAGE_SIZE, free_list := Some (unat (n + num_of_pages)),
                pages_used := pages_used s + num_of_pages\<rparr>)
      })"

primrec clear_refs :: "nat \<Rightarrow> nat \<Rightarrow> 'a phys_scheme \<Rightarrow> 'a phys_scheme option" where
  "clear_refs n 0 s = Some s"
| "clear_refs n (Suc i) s = do {
     s \<leftarrow> clear_refs n i s;
     if n + i < MAX_PAGES
     then Some (s\<lparr>page_descriptor := (page_descriptor s)
                    (n + i := (page_descriptor s (n + i))\<lparr>ref_count := 0\<rparr>)\<rparr>)
     else None
   }"

definition add_back_free_pages :: "u64 \<Rightarrow> u64 \<Rightarrow> 'a phys_scheme \<Rightarrow> 'a phys_scheme option" where
  "add_back_free_pages page_addr num_of_pages s = do {
     let n = unat (page_addr div PAGE_SIZE);
     let prev_free_list = free_list s;
     s \<leftarrow> clear_refs n (unat num_of_pages) (s\<lparr>free_list := Some n\<rparr>);
     let l = unat (page_addr div PAGE_SIZE + num_of_pages - 1);
     if l < MAX_PAGES
     then Some (s\<lparr>page_descriptor := (page_descriptor s)
                    (l := (page_descriptor s l)\<lparr>pp_next := prev_free_list\<rparr>),
                  pages_used := pages_used s - num_of_pages\<rparr>)
     else None
   }"

subsection \<open>The free list and its invariant\<close>

fun list_from :: "(nat \<Rightarrow> nat option) \<Rightarrow> nat \<Rightarrow> nat option \<Rightarrow> nat list" where
  "list_from nx 0 p = []"
| "list_from nx (Suc k) None = []"
| "list_from nx (Suc k) (Some i) = i # list_from nx k (nx i)"

fun is_list :: "(nat \<Rightarrow> nat option) \<Rightarrow> nat option \<Rightarrow> nat list \<Rightarrow> bool" where
  "is_list nx p [] \<longleftrightarrow> p = None"
| "is_list nx p (i # is) \<longleftrightarrow> p = Some i \<and> is_list nx (nx i) is"

definition next_page :: "'a phys_scheme \<Rightarrow> nat \<Rightarrow> nat option" where
  "next_page s i = pp_next (page_descriptor s i)"

definition free_pages :: "'a phys_scheme \<Rightarrow> nat list" where
  "free_pages s = list_from (next_page s) (unat (get_free_pages_count s)) (free_list s)"

definition frame_of :: "nat \<Rightarrow> u64" where
  "frame_of n = of_nat n * PAGE_SIZE"

definition free_frames :: "'a phys_scheme \<Rightarrow> u64 list" where
  "free_frames s = map frame_of (free_pages s)"

definition phys_inv :: "'a phys_scheme \<Rightarrow> bool" where
  "phys_inv s \<longleftrightarrow>
     is_list (next_page s) (free_list s) (free_pages s) \<and>
     length (free_pages s) = unat (get_free_pages_count s) \<and>
     distinct (free_pages s) \<and> 0 \<notin> set (free_pages s) \<and>
     (\<forall>n \<in> set (free_pages s). n < unat (max_pages_available s) \<and>
        ref_count (page_descriptor s n) = 0) \<and>
     (\<forall>n < unat (max_pages_available s). page_number (page_descriptor s n) = of_nat n) \<and>
     unat (max_pages_available s) \<le> MAX_PAGES \<and>
     unat (pages_used s) + length (free_pages s) \<le> MAX_PAGES"

subsection \<open>Lemmas\<close>

lemma list_from_is_list: "is_list nx p is \<Longrightarrow> list_from nx (length is) p = is"
  by (induction "is" arbitrary: p) auto

lemma is_list_cong:
  "is_list nx p is \<Longrightarrow> (\<And>i. i \<in> set is \<Longrightarrow> nx' i = nx i) \<Longrightarrow> is_list nx' p is"
  by (induction "is" arbitrary: p) auto

lemma unat_of_nat_small [simp]: "n < 2 ^ 64 \<Longrightarrow> unat (of_nat n :: u64) = n"
  by (simp add: unat_of_nat)

lemma unat_frame_of: "n < 2 ^ 52 \<Longrightarrow> unat (frame_of n) = n * 4096"
  by (simp add: frame_of_def PAGE_SIZE_def unat_mult_lem [THEN iffD1])

lemma frame_of_aligned [simp]: "n < 2 ^ 52 \<Longrightarrow> page_aligned (frame_of n)"
  by (simp add: page_aligned_iff_dvd unat_frame_of)

lemma unat_page_div: "unat (a div PAGE_SIZE) = unat a div 4096"
  by (simp add: PAGE_SIZE_def unat_div)

lemma frame_of_div [simp]: "n < 2 ^ 52 \<Longrightarrow> unat (frame_of n div PAGE_SIZE) = n"
  by (simp add: unat_page_div unat_frame_of)

lemma frame_of_inj: "m < 2 ^ 52 \<Longrightarrow> n < 2 ^ 52 \<Longrightarrow> frame_of m = frame_of n \<longleftrightarrow> m = n"
  by (metis frame_of_div)

lemma frame_of_0 [simp]: "n < 2 ^ 52 \<Longrightarrow> frame_of n = 0 \<longleftrightarrow> n = 0"
  using frame_of_inj [of n 0] by (simp add: frame_of_def)

lemma page_div_frame: "page_aligned a \<Longrightarrow> frame_of (unat (a div PAGE_SIZE)) = a"
  by (rule word_unat_eq_iff [THEN iffD2])
    (use unsigned_less [of a, where 'a = nat] in
      \<open>auto simp: unat_page_div page_aligned_iff_dvd unat_frame_of less_mult_imp_div_less\<close>)

lemma memset_loop_apply:
  "n \<le> 2 ^ 64 \<Longrightarrow> memset_loop a v n m x = (if unat (x - a) < n then v else m x)"
proof (induction n)
  case 0 then show ?case by simp
next
  case (Suc n)
  then have n: "n < 2 ^ 64" by simp
  have "x = a + of_nat n \<longleftrightarrow> x - a = of_nat n"
    by (auto simp: diff_eq_eq add.commute)
  also have "\<dots> \<longleftrightarrow> unat (x - a) = n"
    using n by (simp add: word_unat_eq_iff)
  finally have "x = a + of_nat n \<longleftrightarrow> unat (x - a) = n" .
  with Suc show ?case by auto
qed

lemma phys_inv_ref_count_update:
  assumes "phys_inv s" "n \<notin> set (free_pages s)"
  shows "phys_inv (s\<lparr>page_descriptor := (page_descriptor s)(n := (page_descriptor s n)\<lparr>ref_count := r\<rparr>)\<rparr>)"
    (is "phys_inv ?s")
    and "free_pages (s\<lparr>page_descriptor := (page_descriptor s)(n := (page_descriptor s n)\<lparr>ref_count := r\<rparr>)\<rparr>) = free_pages s"
proof -
  have nx: "next_page ?s = next_page s" by (auto simp: next_page_def fun_eq_iff)
  then show fp: "free_pages ?s = free_pages s"
    by (simp add: free_pages_def get_free_pages_count_def)
  show "phys_inv ?s"
    using assms nx fp by (auto simp: phys_inv_def get_free_pages_count_def)
qed

lemma free_pages_bound: "phys_inv s \<Longrightarrow> n \<in> set (free_pages s) \<Longrightarrow> n < MAX_PAGES"
  by (force simp: phys_inv_def)

lemma count_unat: "phys_inv s \<Longrightarrow> get_free_pages_count s < MIN_PAGES \<longleftrightarrow> length (free_pages s) < 10"
  by (simp add: phys_inv_def word_less_nat_alt MIN_PAGES_def)

lemma get_free_page_exhausted:
  "phys_inv s \<Longrightarrow> length (free_pages s) < 10 \<Longrightarrow> get_free_page s = Some (0, s)"
  by (simp add: get_free_page_def count_unat)

definition take_page :: "nat \<Rightarrow> 'a phys_scheme \<Rightarrow> 'a phys_scheme" where
  "take_page n s = s\<lparr>free_page := frame_of n,
     page_descriptor := (page_descriptor s)(n := (page_descriptor s n)\<lparr>ref_count := 1\<rparr>),
     free_list := next_page s n, pages_used := pages_used s + 1\<rparr>"

lemma get_free_page_take:
  assumes inv: "phys_inv s" and len: "10 \<le> length (free_pages s)"
    and ps: "free_pages s = n # ns"
  shows "get_free_page s = Some (frame_of n, take_page n s)"
    and "free_pages (take_page n s) = ns"
    and "phys_inv (take_page n s)"
proof -
  have n: "n < MAX_PAGES" "n < unat (max_pages_available s)" "free_list s = Some n"
    using inv ps free_pages_bound [OF inv, of n] by (auto simp: phys_inv_def)
  have n52: "n < 2 ^ 52" using n by (simp add: MAX_PAGES_def)
  have pn: "page_number (page_descriptor s n) * PAGE_SIZE = frame_of n"
    using inv n by (simp add: phys_inv_def frame_of_def)
  show "get_free_page s = Some (frame_of n, take_page n s)"
    using count_unat [OF inv] len n n52 frame_of_div [OF n52]
    by (simp add: get_free_page_def page_ptr_def pn set_page_ref_count_def Let_def take_page_def
        next_page_def)
  let ?s = "take_page n s"
  have nx: "next_page ?s = next_page s"
    by (auto simp: next_page_def take_page_def fun_eq_iff)
  have c: "get_free_pages_count ?s = get_free_pages_count s - 1"
    by (simp add: get_free_pages_count_def take_page_def)
  have cu: "unat (get_free_pages_count s) = Suc (length ns)"
    using inv ps by (simp add: phys_inv_def)
  then have "unat (get_free_pages_count s - 1) = length ns"
    by (subst unat_sub) (auto simp: word_le_nat_alt)
  with c have cu': "unat (get_free_pages_count ?s) = length ns" by simp
  have il: "is_list (next_page s) (next_page s n) ns"
    using inv ps by (simp add: phys_inv_def)
  show fp: "free_pages ?s = ns"
    unfolding free_pages_def cu' nx
    using list_from_is_list [OF il] by (simp add: take_page_def)
  have used: "unat (pages_used s + 1) = unat (pages_used s) + 1"
    using inv ps by (subst unat_add_lem [THEN iffD1]) (auto simp: phys_inv_def MAX_PAGES_def)
  show "phys_inv ?s"
    using inv ps il nx fp cu' used by (auto simp: phys_inv_def take_page_def)
qed

lemma memset_apply:
  "unat b < 2 ^ 31 \<Longrightarrow> memset a v b m = Some (\<lambda>x. if x - a < b then v else m x)"
  by (simp add: memset_def memset_loop_apply word_less_nat_alt fun_eq_iff)

definition init_descr :: "nat \<Rightarrow> physical_page \<Rightarrow> nat \<Rightarrow> physical_page" where
  "init_descr M d i = d\<lparr>page_number := of_nat i, ref_count := 0,
     pp_next := (if i + 1 < M then Some (i + 1) else pp_next d)\<rparr>"

lemma init_pages_eq:
  assumes M: "unat (max_pages_available s) = M" "M \<le> MAX_PAGES"
    and pf: "physfree = frame_of pn" "pn < 2 ^ 52" and k: "k \<le> M"
  shows "init_pages k physfree s =
    Some (s\<lparr>page_descriptor := (\<lambda>i. if i < k then init_descr M (page_descriptor s i) i else page_descriptor s i),
            free_list := (if pn < k then Some pn else free_list s)\<rparr>)"
  using k
proof (induction k)
  case 0
  then show ?case by simp
next
  case (Suc k)
  then have k: "k < M" "k < MAX_PAGES" "k < 2 ^ 52" using M by (simp_all add: MAX_PAGES_def)
  have "unat (max_pages_available s - 1) = M - 1"
    using M k by (subst unat_sub) (auto simp: word_le_nat_alt)
  then have lt: "of_nat k < max_pages_available s - 1 \<longleftrightarrow> k + 1 < M"
    using k M by (auto simp: word_less_nat_alt MAX_PAGES_def)
  have eq: "of_nat k * PAGE_SIZE = physfree \<longleftrightarrow> k = pn"
    using frame_of_inj [OF k(3) pf(2)] pf by (simp add: frame_of_def)
  show ?case
    using Suc k lt eq
    by (auto simp: init_page_def init_descr_def Let_def fun_eq_iff less_Suc_eq)
qed

lemma is_list_upto:
  "m \<le> n \<Longrightarrow> (\<And>i. m \<le> i \<Longrightarrow> i < n \<Longrightarrow> nx i = (if i + 1 < n then Some (i + 1) else None)) \<Longrightarrow>
   is_list nx (if m < n then Some m else None) [m..<n]"
proof (induction "n - m" arbitrary: m)
  case 0
  then show ?case by simp
next
  case (Suc d)
  then have m: "m < n" by simp
  have "is_list nx (if Suc m < n then Some (Suc m) else None) [Suc m..<n]"
    using Suc.prems Suc.hyps by (intro Suc.hyps(1)) auto
  moreover have "nx m = (if Suc m < n then Some (Suc m) else None)"
    using m Suc.prems(2) [of m] by simp
  ultimately show ?case
    using m by (simp only: upt_conv_Cons [OF m] is_list.simps if_True simp_thms)
qed

lemma init_physical_memory_free_list:
  fixes physfree base len :: u64
  assumes pf: "physfree = frame_of pn" "0 < pn" "pn < M"
    and sz: "unat base + unat len < 2 ^ 64" "(unat base + unat len) div 4096 = M" "M \<le> MAX_PAGES"
    and boot: "pages_used s = 0" "\<And>i. pp_next (page_descriptor s i) = None"
  shows "\<exists>s'. init_physical_memory physfree base len s = Some s' \<and> phys_inv s' \<and>
           free_pages s' = [pn..<M] \<and>
           mem s' = (\<lambda>x. if unat (x - physfree) < (M - pn) * 512 then 0 else mem s x)"
proof -
  let ?size = "base + len"
  have size: "unat ?size = unat base + unat len"
    using sz(1) by (simp add: unat_add_lem [THEN iffD1])
  have pn52: "pn < 2 ^ 52" using pf sz by (simp add: MAX_PAGES_def)
  have pfu: "unat physfree = pn * 4096" using pf pn52 by (simp add: unat_frame_of)
  have mp: "unat (?size div PAGE_SIZE) = M" using size sz by (simp add: unat_page_div)
  have "pn * 4096 \<le> unat ?size" using pf sz size by simp
  then have "unat (?size - physfree) = unat ?size - pn * 4096"
    using pfu by (subst unat_sub) (simp_all add: word_le_nat_alt)
  then have mf: "unat ((?size - physfree) div PAGE_SIZE) = M - pn"
    using size sz by (simp add: unat_page_div)
  let ?mf = "(?size - physfree) div PAGE_SIZE"
  have "unat (?mf * PAGE_SIZE) = (M - pn) * 4096"
    using mf sz by (simp add: PAGE_SIZE_def MAX_PAGES_def unat_mult_lem [THEN iffD1])
  then have n8: "unat (?mf * PAGE_SIZE div 8) = (M - pn) * 512"
    by (simp add: unat_div)
  then have small: "unat (?mf * PAGE_SIZE div 8) < 2 ^ 31"
    using sz by (simp add: MAX_PAGES_def)
  let ?m = "\<lambda>x. if unat (x - physfree) < (M - pn) * 512 then 0 else mem s x"
  have ms: "memset physfree 0 (?mf * PAGE_SIZE div 8) (mem s) = Some ?m"
    using memset_apply [OF small] n8 by (simp add: word_less_nat_alt)
  let ?s = "s\<lparr>mem := ?m, physical_mem_size := ?size, max_free_pages_available := ?mf,
          max_pages_available := ?size div PAGE_SIZE\<rparr>"
  let ?s' = "?s\<lparr>page_descriptor := (\<lambda>i. if i < M then init_descr M (page_descriptor s i) i else page_descriptor s i),
            free_list := Some pn\<rparr>"
  have ip: "init_pages (unat (?size div PAGE_SIZE)) physfree ?s = Some ?s'"
    unfolding mp using init_pages_eq [of ?s M physfree pn M] mp sz pf pn52 by (simp cong: if_cong)
  have run: "init_physical_memory physfree base len s = Some ?s'"
    by (simp only: init_physical_memory_def Let_def ms Option.bind.simps ip)
  have cnt: "unat (get_free_pages_count ?s') = M - pn"
    using mf boot by (simp add: get_free_pages_count_def)
  have nx: "next_page ?s' i = (if i + 1 < M then Some (i + 1) else None)" if "i < M" for i
    using that boot by (simp add: next_page_def init_descr_def)
  have il: "is_list (next_page ?s') (free_list ?s') [pn..<M]"
    using is_list_upto [of pn M "next_page ?s'"] pf nx by simp
  have fp: "free_pages ?s' = [pn..<M]"
    using list_from_is_list [OF il] cnt by (simp add: free_pages_def)
  have "phys_inv ?s'"
    using il fp cnt mp sz pf boot unfolding phys_inv_def fp by (simp add: init_descr_def)
  with run fp show ?thesis by auto
qed

definition give_page :: "nat \<Rightarrow> 'a phys_scheme \<Rightarrow> 'a phys_scheme" where
  "give_page n s = s\<lparr>free_list := Some n, pages_used := pages_used s - 1,
     page_descriptor := (page_descriptor s)
       (n := (page_descriptor s n)\<lparr>ref_count := 0, pp_next := free_list s\<rparr>)\<rparr>"

lemma add_back_one_eq:
  assumes "n < MAX_PAGES"
  shows "add_back_free_pages (frame_of n) 1 s = Some (give_page n s)"
proof -
  have "unat (frame_of n div PAGE_SIZE) = n"
    using assms by (simp add: MAX_PAGES_def)
  then show ?thesis
    using assms by (simp add: add_back_free_pages_def give_page_def Let_def)
qed

lemma give_page_inv:
  assumes inv: "phys_inv s" and n: "n < unat (max_pages_available s)" "0 < n" "n \<notin> set (free_pages s)"
    and used: "0 < unat (pages_used s)"
  shows "free_pages (give_page n s) = n # free_pages s"
    and "phys_inv (give_page n s)"
proof -
  let ?s = "give_page n s" and ?ps = "free_pages s"
  have nx: "next_page ?s i = next_page s i" if "i \<noteq> n" for i
    using that by (simp add: next_page_def give_page_def)
  have "is_list (next_page ?s) (free_list s) ?ps"
  proof (rule is_list_cong)
    show "is_list (next_page s) (free_list s) ?ps" using inv by (simp add: phys_inv_def)
    show "next_page ?s i = next_page s i" if "i \<in> set ?ps" for i using that n by (intro nx) auto
  qed
  then have il: "is_list (next_page ?s) (free_list ?s) (n # ?ps)"
    by (simp add: give_page_def next_page_def)
  have c: "get_free_pages_count ?s = get_free_pages_count s + 1"
    by (simp add: get_free_pages_count_def give_page_def)
  have cu: "unat (get_free_pages_count s) = length ?ps" "length ?ps \<le> MAX_PAGES"
    using inv by (simp_all add: phys_inv_def)
  then have cu': "unat (get_free_pages_count ?s) = Suc (length ?ps)"
    unfolding c by (subst unat_add_lem [THEN iffD1]) (simp_all add: MAX_PAGES_def)
  show fp: "free_pages ?s = n # ?ps"
    using list_from_is_list [OF il] cu' by (simp add: free_pages_def)
  have "unat (pages_used s - 1) = unat (pages_used s) - 1"
    using used by (subst unat_sub) (simp_all add: word_le_nat_alt)
  then have us: "unat (pages_used ?s) + length (n # ?ps) \<le> MAX_PAGES"
    using inv used by (simp add: give_page_def phys_inv_def)
  show "phys_inv ?s"
    unfolding phys_inv_def fp
  proof (intro conjI)
    show "\<forall>i \<in> set (n # ?ps). i < unat (max_pages_available ?s) \<and> ref_count (page_descriptor ?s i) = 0"
      using inv n by (auto simp: phys_inv_def give_page_def)
    show "\<forall>i < unat (max_pages_available ?s). page_number (page_descriptor ?s i) = of_nat i"
      using inv by (auto simp: phys_inv_def give_page_def)
  qed (use inv n il cu' us in \<open>simp_all add: phys_inv_def give_page_def\<close>)
qed

subsection \<open>The contract of the allocator\<close>

text \<open>
  What the paging code and the loaders rely on: an allocation hands out the first available
  frame and removes it; below \<open>reserve\<close> available frames it hands out the null frame and
  changes nothing; the available frames are distinct, page-aligned and not null.
\<close>

locale frame_allocator =
  fixes alloc :: "'s \<Rightarrow> (u64 \<times> 's) option"
    and frames :: "'s \<Rightarrow> u64 list"
    and inv :: "'s \<Rightarrow> bool"
    and reserve :: nat
  assumes alloc_first: "inv s \<Longrightarrow> reserve \<le> length (frames s) \<Longrightarrow>
      \<exists>s'. alloc s = Some (hd (frames s), s') \<and> frames s' = tl (frames s) \<and> inv s'"
    and alloc_exhausted: "inv s \<Longrightarrow> length (frames s) < reserve \<Longrightarrow> alloc s = Some (0, s)"
    and frames_distinct: "inv s \<Longrightarrow> distinct (frames s)"
    and frames_nonzero: "inv s \<Longrightarrow> 0 \<notin> set (frames s)"
    and frames_page_aligned: "inv s \<Longrightarrow> f \<in> set (frames s) \<Longrightarrow> page_aligned f"
    and reserve_pos: "0 < reserve"

primrec alloc_seq :: "('s \<Rightarrow> (u64 \<times> 's) option) \<Rightarrow> nat \<Rightarrow> 's \<Rightarrow> (u64 list \<times> 's) option" where
  "alloc_seq alloc 0 s = Some ([], s)"
| "alloc_seq alloc (Suc n) s = do {
     (p, s) \<leftarrow> alloc s;
     (ps, s) \<leftarrow> alloc_seq alloc n s;
     Some (p # ps, s)
   }"

context frame_allocator
begin

lemma alloc_total: "inv s \<Longrightarrow> \<exists>p s'. alloc s = Some (p, s') \<and> inv s'"
  using alloc_first [of s] alloc_exhausted [of s] by (cases "reserve \<le> length (frames s)") auto

lemma alloc_seq_take:
  "inv s \<Longrightarrow> n + reserve \<le> length (frames s) + 1 \<Longrightarrow>
   \<exists>s'. alloc_seq alloc n s = Some (take n (frames s), s') \<and> frames s' = drop n (frames s) \<and> inv s'"
proof (induction n arbitrary: s)
  case 0
  then show ?case by simp
next
  case (Suc n)
  from Suc.prems have "reserve \<le> length (frames s)" by simp
  with alloc_first [OF Suc.prems(1)] obtain s1 where
    s1: "alloc s = Some (hd (frames s), s1)" "frames s1 = tl (frames s)" "inv s1" by blast
  have "frames s \<noteq> []" using Suc.prems reserve_pos by auto
  with Suc.IH [OF s1(3)] s1 Suc.prems show ?case
    by (auto simp: take_Suc drop_Suc)
qed

lemma alloc_seq_distinct:
  assumes "inv s" "n + reserve \<le> length (frames s) + 1" "alloc_seq alloc n s = Some (ps, s')"
  shows "distinct ps \<and> length ps = n \<and> 0 \<notin> set ps \<and> set ps \<inter> set (frames s') = {}"
proof -
  from alloc_seq_take [OF assms(1,2)] assms(3)
  have ps: "ps = take n (frames s)" and s': "frames s' = drop n (frames s)" by auto
  have "n \<le> length (frames s)" using assms(2) reserve_pos by simp
  with ps s' frames_distinct [OF assms(1)] frames_nonzero [OF assms(1)] show ?thesis
    by (auto simp: set_take_disj_set_drop_if_distinct dest: in_set_takeD)
qed

end

interpretation fa: frame_allocator get_free_page free_frames phys_inv 10
proof
  fix s :: "'a phys_scheme" assume inv: "phys_inv s"
  show "\<exists>s'. get_free_page s = Some (hd (free_frames s), s') \<and> free_frames s' = tl (free_frames s) \<and> phys_inv s'"
    if "10 \<le> length (free_frames s)"
    using that get_free_page_take [OF inv]
    by (cases "free_pages s") (auto simp: free_frames_def)
  show "get_free_page s = Some (0, s)" if "length (free_frames s) < 10"
    using that get_free_page_exhausted [OF inv] by (simp add: free_frames_def)
  have b: "n < 2 ^ 52" if "n \<in> set (free_pages s)" for n
    using free_pages_bound [OF inv that] by (simp add: MAX_PAGES_def)
  show "distinct (free_frames s)"
    using inv b by (auto simp: free_frames_def distinct_map inj_on_def phys_inv_def frame_of_inj)
  show "0 \<notin> set (free_frames s)"
    using inv b frame_of_0 by (fastforce simp: free_frames_def phys_inv_def)
  show "page_aligned f" if "f \<in> set (free_frames s)" for f
    using that b by (auto simp: free_frames_def)
qed simp

subsection \<open>Properties\<close>

definition phys_boot :: phys where
  "phys_boot = \<lparr>mem = (\<lambda>_. 0), free_list = None,
     page_descriptor = (\<lambda>_. \<lparr>page_number = 0, pp_next = None, ref_count = 0\<rparr>),
     max_pages_available = 0, max_free_pages_available = 0, pages_used = 0,
     physical_mem_size = 0, free_page = 0\<rparr>"

text \<open>C21. Starting from zeroed globals, \<open>init_physical_memory\<close> on a memory of at most
  \<open>MAX_PAGES\<close> pages returns with the allocator's invariant established and the free list
  equal to the pages from \<open>physfree\<close> to the end of memory in ascending order. It clears
  exactly one eighth of the free memory: the length passed to the byte-wise \<open>memset\<close> is
  divided by 8.\<close>

theorem init_physical_memory_establishes:
  fixes physfree base len :: u64
  assumes "physfree = frame_of pn" "0 < pn" "pn < M"
    and "unat base + unat len < 2 ^ 64" "(unat base + unat len) div 4096 = M" "M \<le> MAX_PAGES"
    and "pages_used s = 0" "\<And>i. pp_next (page_descriptor s i) = None"
  shows "\<exists>s'. init_physical_memory physfree base len s = Some s' \<and> phys_inv s' \<and>
           free_pages s' = [pn..<M] \<and>
           mem s' = (\<lambda>x. if unat (x - physfree) < (M - pn) * 512 then 0 else mem s x)"
  using assms by (rule init_physical_memory_free_list)

theorem init_physical_memory_establishes_witness:
  "\<exists>s'. init_physical_memory (frame_of 2) 0 0x14000 phys_boot = Some s' \<and> phys_inv s' \<and>
     free_pages s' = [2..<20] \<and>
     mem s' = (\<lambda>x. if unat (x - frame_of 2) < (20 - 2) * 512 then 0 else mem phys_boot x)"
  by (rule init_physical_memory_establishes) (simp_all add: phys_boot_def MAX_PAGES_def)


text \<open>C22. Returning an allocated page and allocating again hands out the same page, and the
  free list is as before: freeing is last-in, first-out and keeps the invariant.\<close>

theorem add_back_then_get:
  assumes "phys_inv s" "n < unat (max_pages_available s)" "0 < n" "n \<notin> set (free_pages s)"
    and "0 < unat (pages_used s)" and "9 \<le> length (free_pages s)"
  shows "\<exists>s1 s2. add_back_free_pages (frame_of n) 1 s = Some s1 \<and> phys_inv s1 \<and>
           get_free_page s1 = Some (frame_of n, s2) \<and> phys_inv s2 \<and> free_pages s2 = free_pages s"
proof -
  have n: "n < MAX_PAGES" using assms by (simp add: phys_inv_def)
  note g = give_page_inv [OF assms(1-5)]
  have "10 \<le> length (free_pages (give_page n s))" using assms(6) g by simp
  from get_free_page_take [OF g(2) this g(1)] add_back_one_eq [OF n, of s] g(2)
  show ?thesis by blast
qed

definition phys_small :: phys where
  "phys_small = phys_boot\<lparr>free_list := Some 2,
     page_descriptor := (\<lambda>i. \<lparr>page_number = of_nat i,
        pp_next = (if i < 39 then Some (i + 1) else None), ref_count = (if i < 2 then 1 else 0)\<rparr>),
     max_pages_available := 41, max_free_pages_available := 39, pages_used := 1\<rparr>"

lemma phys_small_list: "is_list (next_page phys_small) (free_list phys_small) [2..<40]"
proof -
  have "free_list phys_small = (if (2::nat) < 40 then Some 2 else None)"
    by (simp add: phys_small_def)
  then show ?thesis
    by (simp only:) (rule is_list_upto, simp_all add: phys_small_def next_page_def)
qed

lemma phys_small_pages: "free_pages phys_small = [2..<40]"
proof -
  have "unat (get_free_pages_count phys_small) = length [2..<40]"
    by (simp add: phys_small_def phys_boot_def get_free_pages_count_def)
  then show ?thesis
    unfolding free_pages_def by (simp only: list_from_is_list [OF phys_small_list])
qed

lemma phys_small_inv: "phys_inv phys_small"
  using phys_small_list unfolding phys_inv_def phys_small_pages
  by (simp add: phys_small_def phys_boot_def get_free_pages_count_def MAX_PAGES_def)


theorem add_back_then_get_witness:
  "\<exists>s1 s2. add_back_free_pages (frame_of 1) 1 phys_small = Some s1 \<and> phys_inv s1 \<and>
     get_free_page s1 = Some (frame_of 1, s2) \<and> phys_inv s2 \<and>
     free_pages s2 = free_pages phys_small"
  by (rule add_back_then_get [OF phys_small_inv])
    (simp_all add: phys_small_pages, simp_all add: phys_small_def phys_boot_def)

end
