(* ===== verification/Page_Table.thy ===== *)
theory Page_Table
  imports Phys_Mem
begin

text \<open>
  Four-level x86-64 page tables as they lie in physical memory: a table is a page-aligned
  frame of 512 little-endian entries, an entry with bit 0 set points to the frame of the
  table below. \<open>frame_at\<close> follows a path of indices from a root table; \<open>pt_tree\<close>
  says that no table is reached on two paths, which is what makes a write to one entry local.
  \<open>pt_view\<close> is the abstract contents: the leaf entry of every virtual page number.
\<close>

subsection \<open>Entries and paths\<close>

definition entry :: "byte_mem \<Rightarrow> u64 \<Rightarrow> u64 \<Rightarrow> u64" where
  "entry m f i = load64 m (f + 8 * i)"

definition present :: "u64 \<Rightarrow> bool" where
  "present e \<longleftrightarrow> e AND 1 = 1"

fun frame_at :: "byte_mem \<Rightarrow> u64 \<Rightarrow> u64 list \<Rightarrow> u64 option" where
  "frame_at m f [] = Some f"
| "frame_at m f (i # is) =
     (if present (entry m f i) then frame_at m (page_of (entry m f i)) is else None)"

definition indices :: "u64 list \<Rightarrow> bool" where
  "indices is \<longleftrightarrow> (\<forall>i \<in> set is. i < 512)"

definition tables :: "byte_mem \<Rightarrow> u64 \<Rightarrow> u64 set" where
  "tables m r = {f. \<exists>is. length is \<le> 3 \<and> indices is \<and> frame_at m r is = Some f}"

definition pt_tree :: "byte_mem \<Rightarrow> u64 \<Rightarrow> bool" where
  "pt_tree m r \<longleftrightarrow> page_aligned r \<and>
     (\<forall>is js f. length is \<le> 3 \<longrightarrow> length js \<le> 3 \<longrightarrow> indices is \<longrightarrow> indices js \<longrightarrow>
        frame_at m r is = Some f \<longrightarrow> frame_at m r js = Some f \<longrightarrow> is = js)"

definition zero_page :: "byte_mem \<Rightarrow> u64 \<Rightarrow> bool" where
  "zero_page m f \<longleftrightarrow> (\<forall>x. page_of x = f \<longrightarrow> m x = 0)"

subsection \<open>Reading entries of updated memory\<close>

lemma index_offset: "(i::u64) < 512 \<Longrightarrow> 8 * i < 4096 \<and> unat (8 * i) = 8 * unat i"
  by (simp add: word_less_nat_alt unat_word_ariths)

lemma entry_addr_dvd:
  assumes "page_aligned f" "i < 512"
  shows "8 dvd unat (f + 8 * i)"
proof -
  have i: "unat (8 * i) = 8 * unat i" "unat i < 512"
    using index_offset [OF assms(2)] assms(2) by (simp_all add: word_less_nat_alt)
  from assms(1) obtain k where k: "unat f = 4096 * k" by (auto simp: page_aligned_iff_dvd)
  have "unat f < 2 ^ 64" using unsigned_less [of f, where 'a = nat] by simp
  then have "unat f + 8 * unat i < 2 ^ 64" using k i by (simp; presburger)
  then have "unat (f + 8 * i) = 4096 * k + 8 * unat i"
    using i k by (simp add: unat_add_lem [THEN iffD1])
  also have "8 dvd 4096 * k + 8 * unat i"
    by (intro dvd_add dvd_triv_left dvd_mult2) simp
  finally show ?thesis .
qed

lemma entry_addr_inj:
  assumes "page_aligned f" "page_aligned g" "i < 512" "j < 512"
  shows "f + 8 * i = g + 8 * j \<longleftrightarrow> f = g \<and> i = j"
proof
  assume "f + 8 * i = g + 8 * j"
  then have "f = g \<and> 8 * i = 8 * j"
    using page_plus_inj assms index_offset by blast
  then show "f = g \<and> i = j"
    using index_offset [OF assms(3)] index_offset [OF assms(4)] by (auto simp: word_unat_eq_iff)
qed auto

lemma entry_store [mem_simps]:
  assumes "page_aligned f" "page_aligned g" "i < 512" "j < 512"
  shows "entry (store64 m (f + 8 * i) v) g j = (if f = g \<and> i = j then v else entry m g j)"
proof (cases "f = g \<and> i = j")
  case True
  then show ?thesis by (simp add: entry_def)
next
  case False
  then have "f + 8 * i \<noteq> g + 8 * j" using entry_addr_inj assms by blast
  then show ?thesis
    unfolding entry_def if_not_P [OF False]
    by (intro load64_store64_disjoint dvd8_apart entry_addr_dvd assms) auto
qed

lemma bit_below_8: "(d::u64) < 8 \<Longrightarrow> bit d k \<Longrightarrow> k < 3"
proof -
  assume d: "d < 8" and k: "bit d k"
  have "d AND mask 3 = d" using d by (intro less_mask_eq) simp
  then have "bit (d AND mask 3) k" using k by simp
  then show ?thesis by (simp add: bit_and_iff bit_mask_iff)
qed

lemma page_of_plus_below_8:
  assumes "8 dvd unat a" "d < 8"
  shows "page_of (a + d) = page_of a"
proof -
  have low: "\<not> bit a k" if "k < 3" for k
  proof -
    have "a AND mask 3 = 0" using assms(1) and_mask_dvd_nat [of 3 a] by simp
    then have "bit (a AND mask 3) k = bit (0::u64) k" by simp
    with that show ?thesis by (simp add: bit_and_iff bit_mask_iff)
  qed
  have "a AND d = 0"
    by (rule bit_word_eqI) (use low bit_below_8 [OF assms(2)] in \<open>auto simp: bit_and_iff\<close>)
  then have "a + d = a OR d" using word_plus_and_or [of a d] by simp
  moreover have "page_of (a OR d) = page_of a"
  proof (rule bit_word_eqI)
    fix n
    show "bit (page_of (a OR d)) n = bit (page_of a) n"
      using bit_below_8 [OF assms(2), of n] by (auto simp: bit_and_iff bit_or_iff bit_MASK)
  qed
  ultimately show ?thesis by simp
qed

lemma store64_other_page:
  assumes "page_aligned f" "i < 512" "page_of x \<noteq> f"
  shows "store64 m (f + 8 * i) v x = m x"
proof -
  have "\<not> x - (f + 8 * i) < 8"
  proof
    assume "x - (f + 8 * i) < 8"
    from page_of_plus_below_8 [OF entry_addr_dvd [OF assms(1,2)] this]
    have "page_of x = page_of (f + 8 * i)" by (simp add: algebra_simps)
    with assms index_offset show False by auto
  qed
  then show ?thesis by (simp add: store64_def)
qed

lemma zero_page_store [mem_simps]:
  "page_aligned f \<Longrightarrow> i < 512 \<Longrightarrow> f \<noteq> g \<Longrightarrow> zero_page (store64 m (f + 8 * i) v) g = zero_page m g"
  unfolding zero_page_def using store64_other_page by metis

lemma zero_page_entry:
  assumes "zero_page m f" "page_aligned f" "i < 512"
  shows "entry m f i = 0"
  unfolding entry_def
proof (rule load64_zero)
  fix d :: u64 assume "d < 8"
  with page_of_plus_below_8 [OF entry_addr_dvd [OF assms(2,3)]]
  have "page_of (f + 8 * i + d) = f" using assms index_offset by auto
  with assms(1) show "m (f + 8 * i + d) = 0" by (simp add: zero_page_def)
qed

lemma present_0 [simp]: "\<not> present 0"
  by (simp add: present_def)

subsection \<open>Paths\<close>

lemma frame_at_append:
  "frame_at m f (is @ js) = Option.bind (frame_at m f is) (\<lambda>g. frame_at m g js)"
  by (induction "is" arbitrary: f) auto

lemma frame_at_snoc:
  "frame_at m f (is @ [i]) = Option.bind (frame_at m f is)
     (\<lambda>g. if present (entry m g i) then Some (page_of (entry m g i)) else None)"
  by (simp add: frame_at_append cong: if_cong)

lemma frame_at_aligned: "frame_at m f is = Some g \<Longrightarrow> page_aligned f \<Longrightarrow> page_aligned g"
  by (induction "is" arbitrary: f) (auto split: if_splits)

lemma frame_at_prefix: "frame_at m f (is @ js) = Some g \<Longrightarrow> \<exists>h. frame_at m f is = Some h"
  by (auto simp: frame_at_append bind_Some_iff)

lemma indices_append [simp]: "indices (is @ js) \<longleftrightarrow> indices is \<and> indices js"
  by (auto simp: indices_def)

lemma indices_Cons [simp]: "indices (i # is) \<longleftrightarrow> i < 512 \<and> indices is"
  by (auto simp: indices_def)

lemma indices_Nil [simp]: "indices []"
  by (simp add: indices_def)

lemma pt_tree_inj:
  "pt_tree m r \<Longrightarrow> length is \<le> 3 \<Longrightarrow> length js \<le> 3 \<Longrightarrow> indices is \<Longrightarrow> indices js \<Longrightarrow>
   frame_at m r is = Some f \<Longrightarrow> frame_at m r js = Some f \<Longrightarrow> is = js"
  unfolding pt_tree_def by blast

lemma tablesI: "frame_at m r is = Some f \<Longrightarrow> length is \<le> 3 \<Longrightarrow> indices is \<Longrightarrow> f \<in> tables m r"
  unfolding tables_def by blast

lemma tables_aligned: "pt_tree m r \<Longrightarrow> f \<in> tables m r \<Longrightarrow> page_aligned f"
  by (auto simp: tables_def pt_tree_def intro: frame_at_aligned)

text \<open>A write to entry \<open>i\<close> of the table at path \<open>is\<close> leaves every path alone that
  does not run through that entry.\<close>

lemma frame_at_store_other:
  assumes tree: "pt_tree m r" and f: "frame_at m r is = Some f" "length is \<le> 3" "indices is" "i < 512"
  shows "length js \<le> 3 \<Longrightarrow> indices js \<Longrightarrow> \<not> (\<exists>ks. js = is @ i # ks) \<Longrightarrow>
    frame_at (store64 m (f + 8 * i) v) r js = frame_at m r js"
proof (induction js rule: rev_induct)
  case Nil
  then show ?case by simp
next
  case (snoc j js)
  let ?m = "store64 m (f + 8 * i) v"
  have r: "page_aligned r" using tree by (simp add: pt_tree_def)
  have IH: "frame_at ?m r js = frame_at m r js"
    using snoc.prems by (intro snoc.IH) auto
  have "entry ?m g j = entry m g j" if g: "frame_at m r js = Some g" for g
  proof -
    have "\<not> (f = g \<and> i = j)"
      using pt_tree_inj [OF tree _ _ f(3) _ f(1), of js] snoc.prems g f by auto
    then show ?thesis
      using entry_store [OF frame_at_aligned [OF f(1) r] frame_at_aligned [OF g r] f(4)] snoc.prems
      by auto
  qed
  then show ?case by (auto simp: frame_at_snoc IH split: Option.bind_split)
qed


text \<open>Rewriting an entry so that it still points to the same table changes no path.\<close>

lemma frame_at_store_same:
  assumes tree: "pt_tree m r" and f: "frame_at m r is = Some f" "length is \<le> 2" "indices is" "i < 512"
    and e: "present (entry m f i)" "present v" "page_of v = page_of (entry m f i)"
    and js: "length js \<le> 3" "indices js"
  shows "frame_at (store64 m (f + 8 * i) v) r js = frame_at m r js"
  using js
proof (induction js rule: rev_induct)
  case Nil
  then show ?case by simp
next
  case (snoc j js)
  let ?m = "store64 m (f + 8 * i) v"
  have r: "page_aligned r" using tree by (simp add: pt_tree_def)
  have IH: "frame_at ?m r js = frame_at m r js" using snoc by auto
  have "present (entry ?m g j) = present (entry m g j) \<and> page_of (entry ?m g j) = page_of (entry m g j)"
    if g: "frame_at m r js = Some g" for g
    using entry_store [OF frame_at_aligned [OF f(1) r] frame_at_aligned [OF g r] f(4)] snoc.prems e
    by auto
  then show ?case by (auto simp: frame_at_snoc IH split: Option.bind_split)
qed

text \<open>Hanging a fresh zero page under an absent entry adds one path.\<close>

lemma frame_at_store_fresh:
  assumes tree: "pt_tree m r" and f: "frame_at m r is = Some f" "length is \<le> 2" "indices is" "i < 512"
    and p: "page_aligned p" "p \<notin> tables m r" "zero_page m p" "present v" "page_of v = p"
    and js: "length js \<le> 3" "indices js"
    and absent: "\<not> present (entry m f i)"
  shows "frame_at (store64 m (f + 8 * i) v) r js =
    (if js = is @ [i] then Some p else frame_at m r js)"
proof (cases "\<exists>ks. js = is @ i # ks")
  case False
  then show ?thesis
    using frame_at_store_other [OF tree f(1) _ f(3,4) js] f(2) by auto
next
  case True
  then obtain ks where ks: "js = is @ i # ks" by blast
  let ?m = "store64 m (f + 8 * i) v"
  have r: "page_aligned r" using tree by (simp add: pt_tree_def)
  have fa: "page_aligned f" by (rule frame_at_aligned [OF f(1) r])
  have "frame_at ?m r is = frame_at m r is"
    using f by (intro frame_at_store_other [OF tree f(1)]) auto
  then have path: "frame_at ?m r js = frame_at ?m p ks"
    using ks f fa p by (simp add: frame_at_append entry_store)
  have old: "frame_at m r js = None" using ks f absent by (simp add: frame_at_append)
  have "f \<in> tables m r" using f by (intro tablesI [OF f(1)]) auto
  with p have "f \<noteq> p" by blast
  then have z: "entry ?m p k = 0" if "k < 512" for k
    using that fa p f by (simp add: entry_store zero_page_entry)
  show ?thesis
    using path old z ks js by (cases ks) auto
qed

lemma pt_tree_store_same:
  assumes "pt_tree m r" "frame_at m r is = Some f" "length is \<le> 2" "indices is" "i < 512"
    and "present (entry m f i)" "present v" "page_of v = page_of (entry m f i)"
  shows "pt_tree (store64 m (f + 8 * i) v) r" and "tables (store64 m (f + 8 * i) v) r = tables m r"
proof -
  note eq = frame_at_store_same [OF assms]
  show "pt_tree (store64 m (f + 8 * i) v) r"
    using assms(1) unfolding pt_tree_def by (auto simp: eq)
  show "tables (store64 m (f + 8 * i) v) r = tables m r"
    unfolding tables_def by (auto simp: eq)
qed

lemma pt_tree_store_fresh:
  assumes tree: "pt_tree m r" and f: "frame_at m r is = Some f" "length is \<le> 2" "indices is" "i < 512"
    and p: "page_aligned p" "p \<notin> tables m r" "zero_page m p" "present v" "page_of v = p"
    and absent: "\<not> present (entry m f i)"
  shows "pt_tree (store64 m (f + 8 * i) v) r"
    and "tables (store64 m (f + 8 * i) v) r = insert p (tables m r)"
proof -
  let ?m = "store64 m (f + 8 * i) v"
  note eq = frame_at_store_fresh [OF tree f p _ _ absent]
  have np: "frame_at m r js \<noteq> Some p" if "length js \<le> 3" "indices js" for js
    using p(2) that by (auto simp: tables_def)
  show "pt_tree ?m r"
    unfolding pt_tree_def
  proof (intro conjI allI impI)
    show "page_aligned r" using tree by (simp add: pt_tree_def)
    fix js ks g
    assume js: "length js \<le> 3" "indices js" and ks: "length ks \<le> 3" "indices ks"
      and "frame_at ?m r js = Some g" "frame_at ?m r ks = Some g"
    then show "js = ks"
      using eq [OF js] eq [OF ks] np [OF js] np [OF ks] pt_tree_inj [OF tree js(1) ks(1) js(2) ks(2)]
      by (auto split: if_splits)
  qed
  have "length (is @ [i]) \<le> 3" "indices (is @ [i])" using f by auto
  note new = this
  show "tables ?m r = insert p (tables m r)"
  proof (intro equalityI subsetI)
    fix g assume "g \<in> tables ?m r"
    then show "g \<in> insert p (tables m r)"
      by (auto simp: tables_def eq split: if_splits)
  next
    fix g assume g: "g \<in> insert p (tables m r)"
    show "g \<in> tables ?m r"
    proof (cases "g = p")
      case True
      then show ?thesis using eq [OF new] new by (intro tablesI) auto
    next
      case False
      with g obtain js where js: "length js \<le> 3" "indices js" "frame_at m r js = Some g"
        by (auto simp: tables_def)
      then have "js \<noteq> is @ [i]" using absent f by (auto simp: frame_at_snoc)
      with js eq [OF js(1,2)] show ?thesis by (intro tablesI) auto
    qed
  qed
qed

subsection \<open>Leaf entries: the abstract contents\<close>

definition pte_val :: "byte_mem \<Rightarrow> u64 \<Rightarrow> u64 list \<Rightarrow> u64 \<Rightarrow> u64" where
  "pte_val m r is j = (case frame_at m r is of None \<Rightarrow> 0 | Some f \<Rightarrow> entry m f j)"

lemma pte_val_store_inner:
  assumes tree: "pt_tree m r" and f: "frame_at m r is = Some f" "length is \<le> 2" "indices is" "i < 512"
    and same: "frame_at (store64 m (f + 8 * i) v) r js = frame_at m r js"
    and js: "length js = 3" "indices js" "j < 512"
  shows "pte_val (store64 m (f + 8 * i) v) r js j = pte_val m r js j"
proof (cases "frame_at m r js")
  case None
  then show ?thesis using same by (simp add: pte_val_def)
next
  case (Some g)
  have r: "page_aligned r" using tree by (simp add: pt_tree_def)
  have "f \<noteq> g"
    using pt_tree_inj [OF tree _ _ f(3) js(2) f(1)] Some f js by auto
  then show ?thesis
    using Some same js f entry_store [OF frame_at_aligned [OF f(1) r] frame_at_aligned [OF Some r]]
    by (simp add: pte_val_def)
qed

lemma pte_val_store_leaf:
  assumes tree: "pt_tree m r" and f: "frame_at m r is = Some f" "length is = 3" "indices is" "i < 512"
  shows "pt_tree (store64 m (f + 8 * i) v) r"
    and "tables (store64 m (f + 8 * i) v) r = tables m r"
    and "length js = 3 \<Longrightarrow> indices js \<Longrightarrow> j < 512 \<Longrightarrow>
      pte_val (store64 m (f + 8 * i) v) r js j = (if js = is \<and> j = i then v else pte_val m r js j)"
    and "length ks \<le> 3 \<Longrightarrow> indices ks \<Longrightarrow> frame_at (store64 m (f + 8 * i) v) r ks = frame_at m r ks"
proof -
  let ?m = "store64 m (f + 8 * i) v"
  have eq: "frame_at ?m r js = frame_at m r js" if "length js \<le> 3" "indices js" for js
    using that f by (intro frame_at_store_other [OF tree f(1)]) auto
  then show "frame_at ?m r ks = frame_at m r ks" if "length ks \<le> 3" "indices ks" using that by simp
  show "pt_tree ?m r" using tree unfolding pt_tree_def by (auto simp: eq)
  show "tables ?m r = tables m r" unfolding tables_def by (auto simp: eq)
  have r: "page_aligned r" using tree by (simp add: pt_tree_def)
  show "pte_val ?m r js j = (if js = is \<and> j = i then v else pte_val m r js j)"
    if js: "length js = 3" "indices js" "j < 512"
  proof (cases "frame_at m r js")
    case None
    then show ?thesis using eq js f by (auto simp: pte_val_def)
  next
    case (Some g)
    have "f = g \<longleftrightarrow> js = is"
      using pt_tree_inj [OF tree _ _ f(3) js(2) f(1)] Some f js by auto
    then show ?thesis
      using Some eq js entry_store [OF frame_at_aligned [OF f(1) r] frame_at_aligned [OF Some r] f(4) js(3)]
      by (auto simp: pte_val_def)
  qed
qed

text \<open>A tree depends on the memory of its tables only.\<close>

lemma entry_agree:
  assumes "\<And>x. page_of x = f \<Longrightarrow> m' x = m x" "page_aligned f" "i < 512"
  shows "entry m' f i = entry m f i"
  unfolding entry_def
proof (rule load64_cong)
  fix d :: u64 assume "d < 8"
  with page_of_plus_below_8 [OF entry_addr_dvd [OF assms(2,3)]]
  have "page_of (f + 8 * i + d) = f" using assms(2,3) index_offset by auto
  then show "m' (f + 8 * i + d) = m (f + 8 * i + d)" by (rule assms(1))
qed

lemma frame_at_agree:
  assumes m: "\<forall>x. page_of x \<in> tables m r \<longrightarrow> m' x = m x" and r: "page_aligned r"
    and js: "length js \<le> 3" "indices js"
  shows "frame_at m' r js = frame_at m r js"
  using js
proof (induction js rule: rev_induct)
  case Nil
  then show ?case by simp
next
  case (snoc i js)
  then have IH: "frame_at m' r js = frame_at m r js" by simp
  have "entry m' g i = entry m g i" if g: "frame_at m r js = Some g" for g
  proof (rule entry_agree)
    have "g \<in> tables m r" using snoc.prems g by (intro tablesI [OF g]) auto
    then show "page_of x = g \<Longrightarrow> m' x = m x" for x using m by simp
    show "page_aligned g" by (rule frame_at_aligned [OF g r])
  qed (use snoc.prems in auto)
  then show ?case by (cases "frame_at m r js") (simp_all add: frame_at_snoc IH)
qed

lemma pt_tree_agree:
  assumes m: "\<forall>x. page_of x \<in> tables m r \<longrightarrow> m' x = m x" and r: "page_aligned r"
  shows "pt_tree m' r \<longleftrightarrow> pt_tree m r" "tables m' r = tables m r"
    "length js = 3 \<Longrightarrow> indices js \<Longrightarrow> j < 512 \<Longrightarrow> pte_val m' r js j = pte_val m r js j"
proof -
  note eq = frame_at_agree [OF m r]
  show "pt_tree m' r \<longleftrightarrow> pt_tree m r" unfolding pt_tree_def using eq by auto
  show "tables m' r = tables m r" unfolding tables_def using eq by auto
  assume js: "length js = 3" "indices js" "j < 512"
  have "entry m' f j = entry m f j" if f: "frame_at m r js = Some f" for f
  proof (rule entry_agree)
    have "f \<in> tables m r" using js by (intro tablesI [OF f]) auto
    then show "page_of x = f \<Longrightarrow> m' x = m x" for x using m by simp
    show "page_aligned f" by (rule frame_at_aligned [OF f r])
  qed fact
  then show "pte_val m' r js j = pte_val m r js j"
    using eq [of js] js by (cases "frame_at m r js") (simp_all add: pte_val_def)
qed

end
