(* ===== verification/Paging.thy ===== *)
theory Paging
  imports Page_Table
begin

text \<open>
  Virtual memory, \<^verbatim>\<open>sys/paging.c\<close>: the operations that build, read and change the
  page tables, the kernel allocator \<open>kmalloc\<close>/\<open>kfree\<close> and the copy-on-write duplication
  of an address space. The record \<open>vm\<close> adds the file's globals and the register CR3.

  The kernel reaches physical memory through its direct map: the virtual address
  \<open>kernel_virtual_base + p\<close> is physical address \<open>p\<close> (\<open>kread\<close>, \<open>kwrite\<close>).
  The translation look-aside buffer is not modelled: \<open>flush_tlb\<close> changes nothing.
\<close>

subsection \<open>State\<close>

definition PAGING_KERNEL_R_W_FLAGS :: u16 where
  "PAGING_KERNEL_R_W_FLAGS = 3"

definition PAGING_USER_R_W_FLAGS :: u16 where
  "PAGING_USER_R_W_FLAGS = 7"

definition PHYS_VIDEO_MEM :: u64 where
  "PHYS_VIDEO_MEM = 0xB8000"

definition COW_FLAG :: u64 where
  "COW_FLAG = 0x200"

definition TURN_OFF_RW :: u64 where
  "TURN_OFF_RW = 0xFFFFFFFFFFFFFFFD"

record vm = phys +
  cr3 :: u64
  kernel_virtual_base :: u64
  pml4_t :: u64

definition kread :: "u64 \<Rightarrow> 'a vm_scheme \<Rightarrow> u64" where
  "kread va s = load64 (mem s) (va - kernel_virtual_base s)"

definition kwrite :: "u64 \<Rightarrow> u64 \<Rightarrow> 'a vm_scheme \<Rightarrow> 'a vm_scheme" where
  "kwrite va v s = s\<lparr>mem := store64 (mem s) (va - kernel_virtual_base s) v\<rparr>"

subsection \<open>Page-table operations\<close>

text \<open>The four table indices of a virtual address (each fits the \<open>uint32_t\<close> that holds it).\<close>

definition offset_pte :: "u64 \<Rightarrow> u64" where
  "offset_pte virt_addr = 0x1FF AND drop_bit 12 virt_addr"

definition offset_pde :: "u64 \<Rightarrow> u64" where
  "offset_pde virt_addr = 0x1FF AND drop_bit 21 virt_addr"

definition offset_pdpe :: "u64 \<Rightarrow> u64" where
  "offset_pdpe virt_addr = 0x1FF AND drop_bit 30 virt_addr"

definition offset_pml4 :: "u64 \<Rightarrow> u64" where
  "offset_pml4 virt_addr = 0x1FF AND drop_bit 39 virt_addr"

text \<open>One level of the descent: take the table below entry \<open>off\<close> of the table at \<open>tbl\<close>,
  allocating it when the entry is absent, and rewrite the entry with the flags.\<close>

definition next_table :: "u64 \<Rightarrow> u64 \<Rightarrow> u16 \<Rightarrow> 'a vm_scheme \<Rightarrow> (u64 \<times> 'a vm_scheme) option" where
  "next_table tbl off flags s = do {
     let e = kread (tbl + 8 * off) s;
     (p, s) \<leftarrow> (if e AND 1 \<noteq> 1 then get_free_page s else Some (e AND MASK, s));
     Some (p, kwrite (tbl + 8 * off) (p OR ucast flags) s)
   }"

definition map_from ::
    "u64 \<Rightarrow> u64 \<Rightarrow> u64 \<Rightarrow> u16 \<Rightarrow> 'a vm_scheme \<Rightarrow> 'a vm_scheme option" where
  "map_from pml4 virt_addr physical_addr flags s = do {
     (pdpe, s) \<leftarrow> next_table pml4 (offset_pml4 virt_addr) flags s;
     (pde, s) \<leftarrow> next_table (kernel_virtual_base s + pdpe) (offset_pdpe virt_addr) flags s;
     (pte, s) \<leftarrow> next_table (kernel_virtual_base s + pde) (offset_pde virt_addr) flags s;
     Some (kwrite (kernel_virtual_base s + pte + 8 * offset_pte virt_addr)
             (physical_addr OR ucast flags) s)
   }"

definition setup_page_tables :: "u64 \<Rightarrow> u64 \<Rightarrow> u16 \<Rightarrow> 'a vm_scheme \<Rightarrow> 'a vm_scheme option" where
  "setup_page_tables virt_addr physical_addr flags s =
     map_from (pml4_t s) virt_addr physical_addr flags s"

definition get_cr3 :: "'a vm_scheme \<Rightarrow> u64" where
  "get_cr3 s = cr3 s"

definition set_new_cr3 :: "u64 \<Rightarrow> 'a vm_scheme \<Rightarrow> 'a vm_scheme" where
  "set_new_cr3 cr3_addr s = s\<lparr>cr3 := cr3_addr\<rparr>"

definition flush_tlb :: "'a vm_scheme \<Rightarrow> 'a vm_scheme" where
  "flush_tlb s = s\<lparr>cr3 := cr3 s\<rparr>"

definition setup_user_page_tables :: "'a vm_scheme \<Rightarrow> (u64 \<times> 'a vm_scheme) option" where
  "setup_user_page_tables s = do {
     (page, s) \<leftarrow> get_free_page s;
     let user_pml4 = page + kernel_virtual_base s;
     let current_pml4 = get_cr3 s + kernel_virtual_base s;
     Some (page, kwrite (user_pml4 + 8 * 511) (kread (current_pml4 + 8 * 511) s) s)
   }"

definition update_page_tables :: "u64 \<Rightarrow> u64 \<Rightarrow> u16 \<Rightarrow> 'a vm_scheme \<Rightarrow> 'a vm_scheme option" where
  "update_page_tables virt_addr physical_addr flags s =
     map_from (get_cr3 s + kernel_virtual_base s) virt_addr physical_addr flags s"

text \<open>The table that holds the leaf entry of an address, or \<^const>\<open>None\<close> where the walk
  meets an absent entry and the C functions return early.\<close>

definition pte_table :: "u64 \<Rightarrow> 'a vm_scheme \<Rightarrow> u64 option" where
  "pte_table virt_addr s =
     (let e4 = kread (get_cr3 s + kernel_virtual_base s + 8 * offset_pml4 virt_addr) s
      in if e4 AND 1 = 1 then
        (let e3 = kread (kernel_virtual_base s + (e4 AND MASK) + 8 * offset_pdpe virt_addr) s
         in if e3 AND 1 = 1 then
           (let e2 = kread (kernel_virtual_base s + (e3 AND MASK) + 8 * offset_pde virt_addr) s
            in if e2 AND 1 = 1 then Some (kernel_virtual_base s + (e2 AND MASK)) else None)
         else None)
      else None)"

definition walk_page_table :: "u64 \<Rightarrow> 'a vm_scheme \<Rightarrow> u64" where
  "walk_page_table virt_addr s =
     (case pte_table virt_addr s of
        None \<Rightarrow> 0
      | Some pte_t \<Rightarrow> kread (pte_t + 8 * offset_pte virt_addr) s AND MASK)"

definition get_flags :: "u64 \<Rightarrow> 'a vm_scheme \<Rightarrow> u64" where
  "get_flags virt_addr s =
     (case pte_table virt_addr s of
        None \<Rightarrow> 0
      | Some pte_t \<Rightarrow> kread (pte_t + 8 * offset_pte virt_addr) s AND GET_FLAGS)"

definition remove_page_table_mapping :: "u64 \<Rightarrow> 'a vm_scheme \<Rightarrow> 'a vm_scheme" where
  "remove_page_table_mapping virt_addr s =
     (case pte_table virt_addr s of
        None \<Rightarrow> s
      | Some pte_t \<Rightarrow> kwrite (pte_t + 8 * offset_pte virt_addr) 0 s)"

subsection \<open>Virtual page numbers and paths\<close>

lemma and_1FF: "(0x1FF :: u64) AND x = take_bit 9 x"
  by (simp add: take_bit_eq_mask mask_eq_exp_minus_1 and.commute)

lemma and_1FF_less: "(0x1FF :: u64) AND x < 512"
  using and_mask_less_size [of 9 x] by (simp only: and_1FF take_bit_eq_mask word_size) simp

lemma offsets_less [simp]:
  "offset_pte va < 512" "offset_pde va < 512" "offset_pdpe va < 512" "offset_pml4 va < 512"
  by (simp_all add: offset_pte_def offset_pde_def offset_pdpe_def offset_pml4_def and_1FF_less)

definition vpn :: "u64 \<Rightarrow> u64" where
  "vpn va = take_bit 36 (drop_bit 12 va)"

definition path :: "u64 \<Rightarrow> u64 list" where
  "path va = [offset_pml4 va, offset_pdpe va, offset_pde va]"

lemma path_simps [simp]: "length (path va) = 3" "indices (path va)"
  by (simp_all add: path_def)

lemma vpn_eq_iff: "vpn a = vpn b \<longleftrightarrow> path a = path b \<and> offset_pte a = offset_pte b"
proof
  assume v: "vpn a = vpn b"
  have b: "bit a (n + 12) = bit b (n + 12)" if "n < 36" for n
  proof -
    from v have "bit (vpn a) n = bit (vpn b) n" by simp
    with that show ?thesis by (simp add: vpn_def bit_simps add.commute)
  qed
  have *: "0x1FF AND drop_bit (k + 12) a = 0x1FF AND drop_bit (k + 12) b" if "k + 9 \<le> 36" for k
  proof (rule bit_word_eqI)
    fix n
    show "bit (0x1FF AND drop_bit (k + 12) a) n = bit (0x1FF AND drop_bit (k + 12) b) n"
      unfolding and_1FF
      using b [of "n + k"] that by (cases "n < 9") (simp_all add: bit_simps ac_simps)
  qed
  from * [of 0] * [of 9] * [of 18] * [of 27]
  show "path a = path b \<and> offset_pte a = offset_pte b"
    by (simp add: path_def offset_pte_def offset_pde_def offset_pdpe_def offset_pml4_def)
next
  assume e: "path a = path b \<and> offset_pte a = offset_pte b"
  have b: "bit a (n + 12 + k) = bit b (n + 12 + k)" 
    if "0x1FF AND drop_bit (k + 12) a = 0x1FF AND drop_bit (k + 12) b" "n < 9" for n k
  proof -
    from that(1) have "bit (0x1FF AND drop_bit (k + 12) a) n = bit (0x1FF AND drop_bit (k + 12) b) n"
      by simp
    with that(2) show ?thesis unfolding and_1FF by (simp add: bit_simps ac_simps)
  qed
  from e have o: "0x1FF AND drop_bit (0 + 12) a = 0x1FF AND drop_bit (0 + 12) b"
     "0x1FF AND drop_bit (9 + 12) a = 0x1FF AND drop_bit (9 + 12) b"
     "0x1FF AND drop_bit (18 + 12) a = 0x1FF AND drop_bit (18 + 12) b"
     "0x1FF AND drop_bit (27 + 12) a = 0x1FF AND drop_bit (27 + 12) b"
    by (simp_all add: path_def offset_pte_def offset_pde_def offset_pdpe_def offset_pml4_def)
  show "vpn a = vpn b"
  proof (rule bit_word_eqI)
    fix n :: nat
    consider "n < 9" | "9 \<le> n" "n < 18" | "18 \<le> n" "n < 27" | "27 \<le> n" "n < 36" | "36 \<le> n" by linarith
    then show "bit (vpn a) n = bit (vpn b) n"
      using b [OF o(1), of n] b [OF o(2), of "n - 9"] b [OF o(3), of "n - 18"] b [OF o(4), of "n - 27"]
      by cases (auto simp: vpn_def bit_simps less_diff_conv2 ac_simps)
  qed
qed

subsection \<open>The invariant of the running address space\<close>

definition vm_inv :: "'a vm_scheme \<Rightarrow> bool" where
  "vm_inv s \<longleftrightarrow> phys_inv s \<and> pt_tree (mem s) (cr3 s) \<and>
     tables (mem s) (cr3 s) \<inter> set (free_frames s) = {} \<and>
     (\<forall>f \<in> set (free_frames s). zero_page (mem s) f)"

definition pt_view :: "'a vm_scheme \<Rightarrow> u64 \<Rightarrow> u64" where
  "pt_view s va = pte_val (mem s) (cr3 s) (path va) (offset_pte va)"

text \<open>Two states with the same allocator and registers, whatever their memory.\<close>

definition same_regs :: "'a vm_scheme \<Rightarrow> 'a vm_scheme \<Rightarrow> bool" where
  "same_regs s t \<longleftrightarrow> cr3 t = cr3 s \<and> kernel_virtual_base t = kernel_virtual_base s \<and>
     pml4_t t = pml4_t s"

lemma take_page_regs [simp]:
  "mem (take_page n s) = mem s" "same_regs s (take_page n s)"
  "cr3 (take_page n s) = cr3 s" "kernel_virtual_base (take_page n s) = kernel_virtual_base s"
  "pml4_t (take_page n s) = pml4_t s"
  by (simp_all add: take_page_def same_regs_def)

text \<open>The allocator's view does not depend on the memory and the registers.\<close>

lemma phys_cong:
  assumes "free_list s = free_list t" "page_descriptor s = page_descriptor t"
    "max_pages_available s = max_pages_available t" "pages_used s = pages_used t"
    "max_free_pages_available s = max_free_pages_available t"
  shows "free_pages s = free_pages t" "free_frames s = free_frames t" "phys_inv s = phys_inv t"
proof -
  have e: "next_page s = next_page t" "get_free_pages_count s = get_free_pages_count t"
    using assms by (auto simp: next_page_def get_free_pages_count_def)
  then show fp: "free_pages s = free_pages t" using assms by (simp add: free_pages_def)
  then show "free_frames s = free_frames t" by (simp add: free_frames_def)
  show "phys_inv s = phys_inv t" using fp e assms by (simp add: phys_inv_def)
qed

lemma mem_update_free [simp]:
  "free_pages (s\<lparr>mem := m\<rparr>) = free_pages s" "free_frames (s\<lparr>mem := m\<rparr>) = free_frames s"
  "phys_inv (s\<lparr>mem := m\<rparr>) = phys_inv s"
  by (rule phys_cong; simp)+

lemma reg_update_free [simp]:
  "free_pages (s\<lparr>cr3 := c\<rparr>) = free_pages s" "free_frames (s\<lparr>cr3 := c\<rparr>) = free_frames s"
  "phys_inv (s\<lparr>cr3 := c\<rparr>) = phys_inv s"
  "free_pages (s\<lparr>kernel_virtual_base := c\<rparr>) = free_pages s"
  "free_frames (s\<lparr>kernel_virtual_base := c\<rparr>) = free_frames s"
  "phys_inv (s\<lparr>kernel_virtual_base := c\<rparr>) = phys_inv s"
  "free_pages (s\<lparr>pml4_t := c\<rparr>) = free_pages s" "free_frames (s\<lparr>pml4_t := c\<rparr>) = free_frames s"
  "phys_inv (s\<lparr>pml4_t := c\<rparr>) = phys_inv s"
  by (rule phys_cong; simp)+

lemma kread_direct [simp]: "kread (kernel_virtual_base s + f + 8 * i) s = entry (mem s) f i"
  by (simp add: kread_def entry_def)

lemma kread_direct' [simp]: "kread (f + kernel_virtual_base s + 8 * i) s = entry (mem s) f i"
  by (simp add: kread_def entry_def algebra_simps)

lemma kwrite_direct [simp]:
  "kwrite (kernel_virtual_base s + f + 8 * i) v s = s\<lparr>mem := store64 (mem s) (f + 8 * i) v\<rparr>"
  by (simp add: kwrite_def)

lemma kwrite_direct' [simp]:
  "kwrite (f + kernel_virtual_base s + 8 * i) v s = s\<lparr>mem := store64 (mem s) (f + 8 * i) v\<rparr>"
  by (simp add: kwrite_def algebra_simps)

definition good_flags :: "u16 \<Rightarrow> bool" where
  "good_flags fl \<longleftrightarrow> fl < 4096 \<and> bit fl 0"

lemma good_flags_consts [simp]:
  "good_flags PAGING_KERNEL_R_W_FLAGS" "good_flags PAGING_USER_R_W_FLAGS"
  by (simp_all add: good_flags_def PAGING_KERNEL_R_W_FLAGS_def PAGING_USER_R_W_FLAGS_def)

lemma good_flags_ucast:
  assumes "good_flags fl"
  shows "(ucast fl :: u64) < 4096" "bit (ucast fl :: u64) 0"
proof -
  have "unat fl < 2 ^ 16" using unsigned_less [of fl, where 'a = nat] by simp
  then have "unat (ucast fl :: u64) = unat fl"
    by (simp add: unsigned_ucast_eq take_bit_nat_eq_self)
  then show "(ucast fl :: u64) < 4096" using assms by (simp add: good_flags_def word_less_nat_alt)
  show "bit (ucast fl :: u64) 0" using assms by (simp add: good_flags_def bit_simps)
qed

lemma present_iff_bit: "present e \<longleftrightarrow> bit e 0"
  by (simp add: present_def and_one_eq bit_0 odd_iff_mod_2_eq_one)

lemma entry_flags:
  assumes "good_flags fl" "page_aligned p"
  shows "present (p OR ucast fl)" "page_of (p OR ucast fl) = p"
    "(p OR ucast fl) AND GET_FLAGS = ucast fl"
  using good_flags_ucast [OF assms(1)] assms(2)
  by (simp_all add: present_iff_bit bit_or_iff or_page or_flags)


lemma zero_pages_store:
  "page_aligned f \<Longrightarrow> i < 512 \<Longrightarrow> f \<notin> F \<Longrightarrow> g \<in> F \<Longrightarrow>
   zero_page (store64 m (f + 8 * i) v) g = zero_page m g"
  by (rule zero_page_store) auto

text \<open>Writing an entry of a table of the tree keeps the invariant when the tree keeps its shape.\<close>

lemma vm_inv_store:
  assumes inv: "vm_inv s" and f: "f \<in> tables (mem s) (cr3 s)" "i < 512"
    and tree: "pt_tree (store64 (mem s) (f + 8 * i) v) (cr3 s)"
    and tab: "tables (store64 (mem s) (f + 8 * i) v) (cr3 s) = tables (mem s) (cr3 s)"
  shows "vm_inv (s\<lparr>mem := store64 (mem s) (f + 8 * i) v\<rparr>)"
proof -
  have "page_aligned f" using inv f tables_aligned by (auto simp: vm_inv_def)
  moreover have "f \<notin> set (free_frames s)" using inv f by (auto simp: vm_inv_def)
  ultimately show ?thesis
    using inv tree tab zero_pages_store [OF _ f(2)] by (simp add: vm_inv_def)
qed

lemma vm_inv_phys [simp]: "vm_inv s \<Longrightarrow> phys_inv s"
  by (simp add: vm_inv_def)

text \<open>
  What an operation on the tables may do to the rest of the machine: it takes at most \<open>k\<close>
  pages from the front of the free list, with reference count 1, writes only into table
  frames, and adds tables only from the free frames.
\<close>

definition vm_grow :: "nat \<Rightarrow> 'a vm_scheme \<Rightarrow> 'a vm_scheme \<Rightarrow> bool" where
  "vm_grow k s t \<longleftrightarrow> vm_inv t \<and> same_regs s t \<and>
     max_pages_available t = max_pages_available s \<and>
     max_free_pages_available t = max_free_pages_available s \<and>
     (\<exists>j \<le> k. free_pages t = drop j (free_pages s)) \<and>
     (\<forall>n. n \<notin> set (free_pages s) \<longrightarrow> page_descriptor t n = page_descriptor s n) \<and>
     (\<forall>n \<in> set (free_pages s). n \<notin> set (free_pages t) \<longrightarrow> ref_count (page_descriptor t n) = 1) \<and>
     (\<forall>x. page_of x \<notin> tables (mem t) (cr3 t) \<longrightarrow> mem t x = mem s x) \<and>
     tables (mem s) (cr3 s) \<subseteq> tables (mem t) (cr3 t) \<and>
     tables (mem t) (cr3 t) \<subseteq> tables (mem s) (cr3 s) \<union> set (free_frames s)"

lemma vm_growD:
  assumes "vm_grow k s t"
  shows "vm_inv t" "same_regs s t" "cr3 t = cr3 s" "kernel_virtual_base t = kernel_virtual_base s"
    "length (free_pages s) \<le> length (free_pages t) + k"
    "set (free_pages t) \<subseteq> set (free_pages s)" "set (free_frames t) \<subseteq> set (free_frames s)"
proof -
  obtain j where j: "j \<le> k" "free_pages t = drop j (free_pages s)"
    using assms by (auto simp: vm_grow_def)
  show "set (free_pages t) \<subseteq> set (free_pages s)" by (simp add: j set_drop_subset)
  then show "set (free_frames t) \<subseteq> set (free_frames s)" by (auto simp: free_frames_def)
  show "length (free_pages s) \<le> length (free_pages t) + k" using j by simp
qed (use assms in \<open>auto simp: vm_grow_def same_regs_def\<close>)

lemma vm_grow_refl: "vm_inv s \<Longrightarrow> vm_grow 0 s s"
  by (auto simp: vm_grow_def same_regs_def)

lemma vm_grow_trans:
  assumes st: "vm_grow k s t" and tu: "vm_grow l t u"
  shows "vm_grow (k + l) s u"
proof -
  from st tu have "\<exists>j \<le> k + l. free_pages u = drop j (free_pages s)"
    unfolding vm_grow_def by (metis add_mono drop_drop add.commute)
  moreover have "tables (mem u) (cr3 u) \<subseteq> tables (mem s) (cr3 s) \<union> set (free_frames s)"
    using st tu vm_growD(7) [OF st] unfolding vm_grow_def by blast
  moreover have "page_descriptor u n = page_descriptor s n" if "n \<notin> set (free_pages s)" for n
    using st tu vm_growD(6) [OF st] that unfolding vm_grow_def by (metis subsetD)
  moreover have "ref_count (page_descriptor u n) = 1"
    if "n \<in> set (free_pages s)" "n \<notin> set (free_pages u)" for n
    using st tu that unfolding vm_grow_def by (cases "n \<in> set (free_pages t)") auto
  moreover have "tables (mem s) (cr3 s) \<subseteq> tables (mem u) (cr3 u)"
    using st tu unfolding vm_grow_def by blast
  moreover have "mem u x = mem s x" if "page_of x \<notin> tables (mem u) (cr3 u)" for x
    using st tu that unfolding vm_grow_def by (metis subsetD)
  moreover have "vm_inv u" "same_regs s u" "max_pages_available u = max_pages_available s"
    "max_free_pages_available u = max_free_pages_available s"
    using st tu by (simp_all add: vm_grow_def same_regs_def)
  ultimately show ?thesis unfolding vm_grow_def by blast
qed

lemma vm_grow_mono: "vm_grow k s t \<Longrightarrow> k \<le> l \<Longrightarrow> vm_grow l s t"
  unfolding vm_grow_def by (meson order_trans)

lemma vm_grow_store:
  assumes "vm_inv s" "f \<in> tables (mem s) (cr3 s)" "i < 512"
    and "pt_tree (store64 (mem s) (f + 8 * i) v) (cr3 s)"
    and "tables (store64 (mem s) (f + 8 * i) v) (cr3 s) = tables (mem s) (cr3 s)"
  shows "vm_grow 0 s (s\<lparr>mem := store64 (mem s) (f + 8 * i) v\<rparr>)"
proof -
  have "page_aligned f" using assms tables_aligned by (auto simp: vm_inv_def)
  then have "store64 (mem s) (f + 8 * i) v x = mem s x" if "page_of x \<notin> tables (mem s) (cr3 s)" for x
    using assms(2,3) that by (intro store64_other_page) auto
  then show ?thesis
    using vm_inv_store [OF assms] assms(5) by (auto simp: vm_grow_def same_regs_def)
qed

text \<open>Paths of the tree stay, and so do the leaf entries.\<close>

definition paths_kept :: "'a vm_scheme \<Rightarrow> 'a vm_scheme \<Rightarrow> bool" where
  "paths_kept s t \<longleftrightarrow> (\<forall>js g. length js \<le> 3 \<longrightarrow> indices js \<longrightarrow>
     frame_at (mem s) (cr3 s) js = Some g \<longrightarrow> frame_at (mem t) (cr3 t) js = Some g)"

lemma paths_keptD:
  "paths_kept s t \<Longrightarrow> frame_at (mem s) (cr3 s) js = Some g \<Longrightarrow> length js \<le> 3 \<Longrightarrow> indices js \<Longrightarrow>
   frame_at (mem t) (cr3 t) js = Some g"
  by (simp add: paths_kept_def)

definition leaves_kept :: "'a vm_scheme \<Rightarrow> 'a vm_scheme \<Rightarrow> bool" where
  "leaves_kept s t \<longleftrightarrow> (\<forall>js j. length js = 3 \<longrightarrow> indices js \<longrightarrow> j < 512 \<longrightarrow>
     pte_val (mem t) (cr3 t) js j = pte_val (mem s) (cr3 s) js j)"

text \<open>One level of the descent keeps the invariant and the contents and reaches the table below.\<close>

lemma next_table_ok:
  assumes inv: "vm_inv s" and f: "frame_at (mem s) (cr3 s) is = Some f" "length is \<le> 2" "indices is"
    and i: "i < 512" and fl: "good_flags fl" and avail: "10 \<le> length (free_pages s)"
  shows "\<exists>p s'. next_table (kernel_virtual_base s + f) i fl s = Some (p, s') \<and>
     frame_at (mem s') (cr3 s') (is @ [i]) = Some p \<and> leaves_kept s s' \<and> paths_kept s s' \<and>
     vm_grow (if frame_at (mem s) (cr3 s) (is @ [i]) = None then 1 else 0) s s'"
proof -
  let ?m = "mem s" and ?r = "cr3 s"
  let ?e = "entry ?m f i"
  have tree: "pt_tree ?m ?r" using inv by (simp add: vm_inv_def)
  have fal: "page_aligned f" using frame_at_aligned [OF f(1)] tree by (simp add: pt_tree_def)
  have ft: "f \<in> tables ?m ?r" using f by (intro tablesI [OF f(1)]) auto
  show ?thesis
  proof (cases "present ?e")
    case True
    let ?p = "page_of ?e"
    let ?v = "?p OR ucast fl"
    let ?m' = "store64 ?m (f + 8 * i) ?v"
    note v = entry_flags [OF fl page_of_aligned [of ?e]]
    note same = frame_at_store_same [OF tree f i True v(1) v(2)]
    have run: "next_table (kernel_virtual_base s + f) i fl s = Some (?p, s\<lparr>mem := ?m'\<rparr>)"
      using True by (simp add: next_table_def present_def Let_def)
    have "vm_grow 0 s (s\<lparr>mem := ?m'\<rparr>)"
      using pt_tree_store_same [OF tree f i True v(1) v(2)] by (rule vm_grow_store [OF inv ft i])
    moreover have "frame_at ?m' ?r (is @ [i]) = Some ?p" "frame_at ?m ?r (is @ [i]) = Some ?p"
      using same [of "is @ [i]"] f i True by (simp_all add: frame_at_snoc)
    moreover have "leaves_kept s (s\<lparr>mem := ?m'\<rparr>)"
      using pte_val_store_inner [OF tree f i same] by (simp add: leaves_kept_def)
    moreover have "paths_kept s (s\<lparr>mem := ?m'\<rparr>)" using same by (simp add: paths_kept_def)
    ultimately show ?thesis using run by auto
  next
    case False
    obtain n ns where ps: "free_pages s = n # ns" using avail by (cases "free_pages s") auto
    note t = get_free_page_take [OF vm_inv_phys [OF inv] avail ps]
    let ?p = "frame_of n" and ?s = "take_page n s"
    let ?v = "?p OR ucast fl"
    let ?m' = "store64 ?m (f + 8 * i) ?v"
    have pf: "?p \<in> set (free_frames s)" by (simp add: free_frames_def ps)
    then have p: "page_aligned ?p" "?p \<notin> tables ?m ?r" "zero_page ?m ?p"
      using inv fa.frames_page_aligned [OF vm_inv_phys [OF inv]] by (auto simp: vm_inv_def)
    note v = entry_flags [OF fl p(1)]
    note fresh = frame_at_store_fresh [OF tree f i p v(1,2) _ _ False]
    have run: "next_table (kernel_virtual_base s + f) i fl s = Some (?p, ?s\<lparr>mem := ?m'\<rparr>)"
      using False t(1) kwrite_direct [of ?s f i] by (simp add: next_table_def present_def Let_def)
    have ff: "free_frames s = ?p # free_frames ?s" by (simp add: free_frames_def ps t)
    have "?p \<notin> set (free_frames ?s)"
      using fa.frames_distinct [OF vm_inv_phys [OF inv]] by (simp add: ff)
    moreover have "f \<notin> set (free_frames s)" using inv ft by (auto simp: vm_inv_def)
    ultimately have inv': "vm_inv (?s\<lparr>mem := ?m'\<rparr>)"
      using inv pt_tree_store_fresh [OF tree f i p v(1,2) False] t(3)
        zero_pages_store [OF fal i, of "set (free_frames ?s)"]
      by (auto simp: vm_inv_def ff)
    have "vm_grow 1 s (?s\<lparr>mem := ?m'\<rparr>)"
    proof -
      have "?m' x = ?m x" if "page_of x \<notin> tables ?m ?r" for x
        using fal i ft that by (intro store64_other_page) auto
      moreover have "tables ?m' ?r = insert ?p (tables ?m ?r)"
        by (rule pt_tree_store_fresh(2) [OF tree f i p v(1,2) False])
      ultimately show ?thesis
        using inv' pf by (auto simp: vm_grow_def same_regs_def ps t(2) intro!: exI [of _ 1])
          (simp_all add: take_page_def)
    qed
    moreover have "frame_at ?m' ?r (is @ [i]) = Some ?p" "frame_at ?m ?r (is @ [i]) = None"
      using fresh [of "is @ [i]"] f i False by (simp_all add: frame_at_snoc)
    moreover have "paths_kept s (?s\<lparr>mem := ?m'\<rparr>)"
      using fresh calculation(3) by (auto simp: paths_kept_def)
    moreover have "leaves_kept s (?s\<lparr>mem := ?m'\<rparr>)"
      unfolding leaves_kept_def
    proof (intro allI impI)
      fix js j assume js: "length js = 3" "indices js" "j < (512 :: u64)"
      have "pte_val ?m' ?r js j = pte_val ?m ?r js j"
      proof (cases "js = is @ [i]")
        case True
        have "f \<noteq> ?p" using p ft by blast
        then show ?thesis
          using fresh [of js] js True f False p zero_page_entry [OF p(3,1) js(3)]
            entry_store [OF fal p(1) i js(3)]
          by (simp add: pte_val_def frame_at_snoc)
      next
        case False
        then show ?thesis
          using pte_val_store_inner [OF tree f i _ js] fresh [of js] js by simp
      qed
      then show "pte_val (mem (?s\<lparr>mem := ?m'\<rparr>)) (cr3 (?s\<lparr>mem := ?m'\<rparr>)) js j = pte_val ?m ?r js j" by simp
    qed
    ultimately show ?thesis using run by auto
  qed
qed


lemma pt_view_eq: "pt_view s va = pte_val (mem s) (cr3 s) (path va) (offset_pte va)"
  by (simp add: pt_view_def)

lemma path_present:
  assumes "frame_at (mem s) (cr3 s) (path va) \<noteq> None" "paths_kept s s1" "paths_kept s1 s2"
  shows "frame_at (mem s) (cr3 s) [offset_pml4 va] \<noteq> None"
    "frame_at (mem s1) (cr3 s1) [offset_pml4 va, offset_pdpe va] \<noteq> None"
    "frame_at (mem s2) (cr3 s2) (path va) \<noteq> None"
proof -
  obtain g where g: "frame_at (mem s) (cr3 s) (path va) = Some g" using assms(1) by auto
  have "frame_at (mem s) (cr3 s) ([offset_pml4 va] @ [offset_pdpe va, offset_pde va]) = Some g"
    "frame_at (mem s) (cr3 s) ([offset_pml4 va, offset_pdpe va] @ [offset_pde va]) = Some g"
    using g by (simp_all add: path_def)
  from this [THEN frame_at_prefix] obtain h2 h3 where
    h: "frame_at (mem s) (cr3 s) [offset_pml4 va] = Some h2"
      "frame_at (mem s) (cr3 s) [offset_pml4 va, offset_pdpe va] = Some h3" by blast
  from h(1) show "frame_at (mem s) (cr3 s) [offset_pml4 va] \<noteq> None" by simp
  have h3: "frame_at (mem s1) (cr3 s1) [offset_pml4 va, offset_pdpe va] = Some h3"
    by (rule paths_keptD [OF assms(2) h(2)]) simp_all
  have g1: "frame_at (mem s1) (cr3 s1) (path va) = Some g"
    by (rule paths_keptD [OF assms(2) g]) simp_all
  have g2: "frame_at (mem s2) (cr3 s2) (path va) = Some g"
    by (rule paths_keptD [OF assms(3) g1]) simp_all
  show "frame_at (mem s1) (cr3 s1) [offset_pml4 va, offset_pdpe va] \<noteq> None" by (simp only: h3) simp
  show "frame_at (mem s2) (cr3 s2) (path va) \<noteq> None" by (simp add: g2)
qed

lemma map_from_ok:
  assumes inv: "vm_inv s" and fl: "good_flags fl" and avail: "12 \<le> length (free_pages s)"
  shows "\<exists>s'. map_from (kernel_virtual_base s + cr3 s) va pa fl s = Some s' \<and>
     vm_grow (if frame_at (mem s) (cr3 s) (path va) = None then 3 else 0) s s' \<and>
     paths_kept s s' \<and> frame_at (mem s') (cr3 s') (path va) \<noteq> None \<and>
     (\<forall>va'. pt_view s' va' = (if vpn va' = vpn va then pa OR ucast fl else pt_view s va'))"
proof -
  let ?i4 = "offset_pml4 va" and ?i3 = "offset_pdpe va" and ?i2 = "offset_pde va" and ?i1 = "offset_pte va"
  let ?g = "\<lambda>s js. if frame_at (mem s) (cr3 s) js = None then 1 else 0 :: nat"
  have "10 \<le> length (free_pages s)" using avail by simp
  from next_table_ok [OF inv, of "[]" _ ?i4, OF _ _ _ _ fl this]
  obtain p3 s1 where s1: "next_table (kernel_virtual_base s + cr3 s) ?i4 fl s = Some (p3, s1)"
    "frame_at (mem s1) (cr3 s1) [?i4] = Some p3" "vm_grow (?g s [?i4]) s s1" "leaves_kept s s1"
    "paths_kept s s1" by auto
  have "10 \<le> length (free_pages s1)" using avail vm_growD(5) [OF s1(3)] by (simp split: if_splits)
  from next_table_ok [OF vm_growD(1) [OF s1(3)] s1(2) _ _ _ fl this, of ?i3]
  obtain p2 s2 where s2: "next_table (kernel_virtual_base s1 + p3) ?i3 fl s1 = Some (p2, s2)"
    "frame_at (mem s2) (cr3 s2) [?i4, ?i3] = Some p2" "vm_grow (?g s1 [?i4, ?i3]) s1 s2"
    "leaves_kept s1 s2" "paths_kept s1 s2" by auto
  have "10 \<le> length (free_pages s2)"
    using avail vm_growD(5) [OF s1(3)] vm_growD(5) [OF s2(3)] by (simp split: if_splits)
  from next_table_ok [OF vm_growD(1) [OF s2(3)] s2(2) _ _ _ fl this, of ?i2]
  obtain p1 s3 where s3: "next_table (kernel_virtual_base s2 + p2) ?i2 fl s2 = Some (p1, s3)"
    "frame_at (mem s3) (cr3 s3) (path va) = Some p1" "vm_grow (?g s2 (path va)) s2 s3"
    "leaves_kept s2 s3" "paths_kept s2 s3" by (auto simp: path_def)
  have inv3: "vm_inv s3" using vm_growD(1) [OF s3(3)] .
  let ?m = "store64 (mem s3) (p1 + 8 * ?i1) (pa OR ucast fl)"
  let ?s = "s3\<lparr>mem := ?m\<rparr>"
  have run: "map_from (kernel_virtual_base s + cr3 s) va pa fl s = Some ?s"
    by (simp add: map_from_def s1 s2 s3)
  have tree: "pt_tree (mem s3) (cr3 s3)" using inv3 by (simp add: vm_inv_def)
  note leaf = pte_val_store_leaf [OF tree s3(2) _ _ offsets_less(1)]
  have "p1 \<in> tables (mem s3) (cr3 s3)" by (rule tablesI [OF s3(2)]) simp_all
  then have "vm_grow 0 s3 ?s"
    using leaf(1,2) by (intro vm_grow_store [OF inv3]) simp_all
  note grow = vm_grow_trans [OF vm_grow_trans [OF vm_grow_trans [OF s1(3) s2(3)] s3(3)] this]
  have "?g s [?i4] + ?g s1 [?i4, ?i3] + ?g s2 (path va) + 0 \<le>
      (if frame_at (mem s) (cr3 s) (path va) = None then 3 else 0)"
    using path_present [OF _ s1(5) s2(5), of va]
    by (cases "frame_at (mem s) (cr3 s) (path va) = None") (simp_all del: frame_at.simps)
  with grow have "vm_grow (if frame_at (mem s) (cr3 s) (path va) = None then 3 else 0) s ?s"
    by (rule vm_grow_mono)
  moreover have "pt_view ?s va' = (if vpn va' = vpn va then pa OR ucast fl else pt_view s va')" for va'
    using s1(4) s2(4) s3(4) leaf(3) [of "path va'" "offset_pte va'"]
    by (simp add: leaves_kept_def pt_view_def vpn_eq_iff)
  moreover have kept: "paths_kept s3 ?s" "frame_at (mem ?s) (cr3 ?s) (path va) \<noteq> None"
    using leaf(4) s3(2) by (simp_all add: paths_kept_def)
  moreover have "paths_kept s ?s"
    using s1(5) s2(5) s3(5) kept(1) unfolding paths_kept_def by blast
  ultimately show ?thesis using run by blast
qed

lemma walk_view: "walk_page_table va s = page_of (pt_view s va)"
  by (simp add: walk_page_table_def pte_table_def pt_view_def pte_val_def path_def get_cr3_def
      present_def Let_def)

lemma flags_view: "get_flags va s = pt_view s va AND GET_FLAGS"
  by (simp add: get_flags_def pte_table_def pt_view_def pte_val_def path_def get_cr3_def
      present_def Let_def)

lemma update_page_tables_ok:
  assumes "vm_inv s" "good_flags fl" "12 \<le> length (free_pages s)"
  shows "\<exists>s'. update_page_tables va pa fl s = Some s' \<and> vm_grow 3 s s' \<and>
     (\<forall>va'. pt_view s' va' = (if vpn va' = vpn va then pa OR ucast fl else pt_view s va'))"
proof -
  have "vm_grow 3 s s'" if "vm_grow (if b then 3 else 0) s s'" for b s'
    using that by (rule vm_grow_mono) simp
  moreover have "update_page_tables va pa fl s = map_from (kernel_virtual_base s + cr3 s) va pa fl s"
    by (simp add: update_page_tables_def get_cr3_def add.commute)
  ultimately show ?thesis using map_from_ok [OF assms, of va pa] by metis
qed

lemma pte_table_frame:
  "pte_table va s = map_option (\<lambda>p. kernel_virtual_base s + p) (frame_at (mem s) (cr3 s) (path va))"
  by (simp add: pte_table_def path_def get_cr3_def present_def Let_def)

text \<open>Unmapping needs nothing of the allocator: the shape of the tables is enough.\<close>

lemma remove_page_table_mapping_tree:
  assumes tree: "pt_tree (mem s) (cr3 s)" and s': "s' = remove_page_table_mapping va s"
  shows "s' = s \<or> (\<exists>f i. f \<in> tables (mem s) (cr3 s) \<and> i < 512 \<and>
           s' = s\<lparr>mem := store64 (mem s) (f + 8 * i) 0\<rparr>)"
    and "pt_tree (mem s') (cr3 s)" "tables (mem s') (cr3 s) = tables (mem s) (cr3 s)"
    and "pt_view s' va' = (if vpn va' = vpn va then 0 else pt_view s va')"
proof -
  have "(s' = s \<or> (\<exists>f i. f \<in> tables (mem s) (cr3 s) \<and> i < 512 \<and>
           s' = s\<lparr>mem := store64 (mem s) (f + 8 * i) 0\<rparr>)) \<and>
     pt_tree (mem s') (cr3 s) \<and> tables (mem s') (cr3 s) = tables (mem s) (cr3 s) \<and>
     pt_view s' va' = (if vpn va' = vpn va then 0 else pt_view s va')"
  proof (cases "frame_at (mem s) (cr3 s) (path va)")
    case None
    then have "s' = s" by (simp add: s' remove_page_table_mapping_def pte_table_frame)
    moreover have "pt_view s va' = 0" if "vpn va' = vpn va"
      using that None by (simp add: pt_view_def vpn_eq_iff pte_val_def)
    ultimately show ?thesis using tree by simp
  next
    case (Some p)
    have run: "s' = s\<lparr>mem := store64 (mem s) (p + 8 * offset_pte va) 0\<rparr>"
      by (simp add: s' remove_page_table_mapping_def pte_table_frame Some)
    note leaf = pte_val_store_leaf [OF tree Some _ _ offsets_less(1)]
    have "p \<in> tables (mem s) (cr3 s)" by (rule tablesI [OF Some]) simp_all
    moreover have "pt_view s' va' = (if vpn va' = vpn va then 0 else pt_view s va')"
      using leaf(3) [of "path va'" "offset_pte va'"] by (simp add: run pt_view_def vpn_eq_iff)
    moreover have "pt_tree (mem s') (cr3 s)" "tables (mem s') (cr3 s) = tables (mem s) (cr3 s)"
      using leaf(1,2) run by simp_all
    moreover note run offsets_less(1) [of va]
    ultimately show ?thesis by blast
  qed
  then show "s' = s \<or> (\<exists>f i. f \<in> tables (mem s) (cr3 s) \<and> i < 512 \<and>
           s' = s\<lparr>mem := store64 (mem s) (f + 8 * i) 0\<rparr>)"
    and "pt_tree (mem s') (cr3 s)" "tables (mem s') (cr3 s) = tables (mem s) (cr3 s)"
    and "pt_view s' va' = (if vpn va' = vpn va then 0 else pt_view s va')" by blast+
qed

lemma remove_page_table_mapping_ok:
  assumes inv: "vm_inv s"
  shows "vm_grow 0 s (remove_page_table_mapping va s)"
    and "pt_view (remove_page_table_mapping va s) va' = (if vpn va' = vpn va then 0 else pt_view s va')"
proof -
  have tree: "pt_tree (mem s) (cr3 s)" using inv by (simp add: vm_inv_def)
  note r = remove_page_table_mapping_tree [OF tree refl, of va]
  from r(1) show "vm_grow 0 s (remove_page_table_mapping va s)"
    using r(2,3) vm_grow_refl [OF inv] vm_grow_store [OF inv] by auto
  show "pt_view (remove_page_table_mapping va s) va' = (if vpn va' = vpn va then 0 else pt_view s va')"
    by (rule r(4))
qed

subsection \<open>Fresh address spaces\<close>

text \<open>Writing outside the tables of the running address space and the free pages.\<close>

lemma get_free_page_vm:
  assumes inv: "vm_inv s" and avail: "10 \<le> length (free_pages s)"
  obtains n where "free_pages s = n # tl (free_pages s)" "get_free_page s = Some (frame_of n, take_page n s)"
    "vm_grow 1 s (take_page n s)" "frame_of n \<in> set (free_frames s)"
    "free_pages (take_page n s) = tl (free_pages s)"
    "frame_of n \<notin> set (free_frames (take_page n s))"
    "pt_view (take_page n s) = pt_view s"
proof -
  obtain n ns where ps: "free_pages s = n # ns" using avail by (cases "free_pages s") auto
  note t = get_free_page_take [OF vm_inv_phys [OF inv] avail ps]
  have ff: "free_frames s = frame_of n # free_frames (take_page n s)"
    by (simp add: free_frames_def ps t)
  have "vm_inv (take_page n s)" using inv t(3) by (auto simp: vm_inv_def ff)
  then have "vm_grow 1 s (take_page n s)"
    by (auto simp: vm_grow_def same_regs_def ps t(2) intro!: exI [of _ 1]) (simp_all add: take_page_def)
  moreover have "frame_of n \<notin> set (free_frames (take_page n s))"
    using fa.frames_distinct [OF vm_inv_phys [OF inv]] by (simp add: ff)
  ultimately show ?thesis
    using that [of n] t ps by (simp add: ff pt_view_def fun_eq_iff)
qed

text \<open>
  A root page that shares only the last entry of the running root: the kernel's half.
\<close>

lemma shared_root:
  assumes tree: "pt_tree m r" and p: "page_aligned p" "p \<notin> tables m r" "zero_page m p"
    and m': "m' = store64 m (p + 8 * 511) (entry m r 511)"
  shows "pt_tree m' p" "tables m' p \<subseteq> insert p (tables m r)"
    and "length is \<le> 3 \<Longrightarrow> indices is \<Longrightarrow>
      frame_at m' p is = (case is of [] \<Rightarrow> Some p | i # js \<Rightarrow> if i = 511 then frame_at m r is else None)"
    and "length is \<le> 3 \<Longrightarrow> indices is \<Longrightarrow> frame_at m' r is = frame_at m r is"
proof -
  have r: "page_aligned r" using tree by (simp add: pt_tree_def)
  have "r \<in> tables m r" using tablesI [of m r "[]"] by simp
  have old: "frame_at m' r js = frame_at m r js" if "length js \<le> 3" "indices js" for js
  proof (rule frame_at_agree)
    have "m' x = m x" if "page_of x \<noteq> p" for x
      using store64_other_page [OF p(1) _ that, of 511] by (simp add: m')
    then show "\<forall>x. page_of x \<in> tables m r \<longrightarrow> m' x = m x" using p(2) by metis
  qed (use that r in auto)
  have e: "entry m' p i = (if i = 511 then entry m r 511 else 0)" if "i < 512" for i
    using that p entry_store [OF p(1) p(1), of 511 i m "entry m r 511"]
    by (simp add: m' zero_page_entry)
  have e': "entry m' r 511 = entry m r 511"
    using p \<open>r \<in> tables m r\<close> entry_store [OF p(1) r, of 511 511 m "entry m r 511"] by (auto simp: m')
  show new: "frame_at m' p is = (case is of [] \<Rightarrow> Some p | i # js \<Rightarrow> if i = 511 then frame_at m r is else None)"
    if "length is \<le> 3" "indices is" for "is"
  proof (cases "is")
    case (Cons i js)
    then show ?thesis
      using that e old [of "is"] e' by (auto simp: present_0)
  qed simp
  show "tables m' p \<subseteq> insert p (tables m r)"
    unfolding tables_def using new by (auto split: list.splits if_splits)
  show "pt_tree m' p"
    unfolding pt_tree_def
  proof (intro conjI allI impI)
    fix "is" js f
    assume len: "length is \<le> 3" "length js \<le> 3" and ind: "indices is" "indices js"
      and f: "frame_at m' p is = Some f" "frame_at m' p js = Some f"
    show "is = js"
      using f new [OF len(1) ind(1)] new [OF len(2) ind(2)] pt_tree_inj [OF tree len ind, of f]
        p(2) tablesI [of m r "is" f] tablesI [of m r js f] len ind
      by (auto split: list.splits if_splits)
  qed fact
  show "frame_at m' r is = frame_at m r is" if "length is \<le> 3" "indices is" for "is"
    using old that .
qed

lemma path_511: "(case path va of [] \<Rightarrow> x | i # js \<Rightarrow> if i = 511 then y else z) =
    (if offset_pml4 va = 511 then y else z)"
  by (simp add: path_def)

lemma setup_user_page_tables_ok:
  assumes inv: "vm_inv s" and avail: "10 \<le> length (free_pages s)"
  shows "\<exists>p s'. setup_user_page_tables s = Some (p, s') \<and> p = hd (free_frames s) \<and>
     free_pages s' = tl (free_pages s) \<and> same_regs s s' \<and> vm_inv s' \<and> pt_view s' = pt_view s \<and>
     vm_inv (set_new_cr3 p s') \<and>
     (\<forall>va. pt_view (set_new_cr3 p s') va = (if offset_pml4 va = 511 then pt_view s va else 0))"
proof -
  obtain n where n: "free_pages s = n # tl (free_pages s)" "get_free_page s = Some (frame_of n, take_page n s)"
    "vm_grow 1 s (take_page n s)" "frame_of n \<in> set (free_frames s)"
    "free_pages (take_page n s) = tl (free_pages s)" "frame_of n \<notin> set (free_frames (take_page n s))"
    by (rule get_free_page_vm [OF inv avail])
  let ?p = "frame_of n" and ?t = "take_page n s" and ?m = "mem s" and ?r = "cr3 s"
  let ?m' = "store64 ?m (?p + 8 * 511) (entry ?m ?r 511)"
  let ?s = "?t\<lparr>mem := ?m'\<rparr>"
  have run: "setup_user_page_tables s = Some (?p, ?s)"
    using kread_direct' [of "cr3 s" "?t" 511] kwrite_direct' [of ?p "?t" 511] n(2)
    by (simp add: setup_user_page_tables_def get_cr3_def kread_def kwrite_def Let_def entry_def)
  have tree: "pt_tree ?m ?r" and p: "page_aligned ?p" "?p \<notin> tables ?m ?r" "zero_page ?m ?p"
    using inv n(4) fa.frames_page_aligned [OF vm_inv_phys [OF inv]] by (auto simp: vm_inv_def)
  note sr = shared_root [OF tree p refl]
  have inv': "vm_inv ?t" using n(3) by (rule vm_growD)
  have agree: "?m' x = ?m x" if "page_of x \<noteq> ?p" for x
    using that p by (intro store64_other_page) auto
  have r: "page_aligned ?r" using tree by (simp add: pt_tree_def)
  have ag: "\<forall>x. page_of x \<in> tables ?m ?r \<longrightarrow> ?m' x = ?m x" using p agree by metis
  have t': "tables ?m ?r \<inter> set (free_frames ?t) = {}" using inv' by (auto simp: vm_inv_def)
  have z: "\<forall>f \<in> set (free_frames ?t). zero_page ?m f" using inv' by (simp add: vm_inv_def)
  then have z': "\<forall>f \<in> set (free_frames ?t). zero_page ?m' f"
    using n(6) agree unfolding zero_page_def by metis
  have "vm_inv ?s"
    using inv' t' z' pt_tree_agree(1,2) [OF ag r] by (simp add: vm_inv_def)
  moreover have "vm_inv (set_new_cr3 ?p ?s)"
    using inv' t' z' sr(1,2) n(6) by (auto simp: vm_inv_def set_new_cr3_def)
  moreover have "pt_view ?s = pt_view s"
  proof
    show "pt_view ?s va = pt_view s va" for va
      using pt_tree_agree(3) [OF ag r, of "path va" "offset_pte va"] by (simp add: pt_view_def)
  qed
  moreover have "pt_view (set_new_cr3 ?p ?s) va = (if offset_pml4 va = 511 then pt_view s va else 0)" for va
    using sr(3,4) [of "path va"] pt_tree_agree(3) [OF ag r, of "path va" "offset_pte va"]
    by (auto simp: pt_view_def set_new_cr3_def pte_val_def path_511)
  moreover have "?p = hd (free_frames s)" by (subst n(1) [THEN arg_cong [of _ _ "map frame_of"], folded free_frames_def]) simp
  moreover have "free_pages ?s = tl (free_pages s)" "same_regs s ?s"
    using n(5) by (simp_all add: same_regs_def)
  ultimately show ?thesis using run by (intro exI [of _ ?p] exI [of _ ?s]) (simp only: simp_thms)
qed

subsection \<open>The interface to the page tables\<close>

text \<open>
  What the rest of the kernel relies on: mapping a page makes the leaf entry of its virtual
  page the given frame with the given flags, leaves the other pages alone and takes at most three
  frames for new tables; allocating a frame changes no mapping; neither touches a frame in use
  that holds no table, and free frames are zero.
\<close>

definition untouched ::
    "('s \<Rightarrow> u64 set) \<Rightarrow> ('s \<Rightarrow> u64 \<Rightarrow> byte_mem) \<Rightarrow> ('s \<Rightarrow> u64 \<Rightarrow> u32 option) \<Rightarrow> 's \<Rightarrow> 's \<Rightarrow> u64 \<Rightarrow> bool" where
  "untouched tabs data refs s s' q \<longleftrightarrow> q \<notin> tabs s' \<and> data s' q = data s q \<and> refs s' q = refs s q"

locale address_space = frame_allocator alloc frames inv reserve
  for alloc :: "'s \<Rightarrow> (u64 \<times> 's) option" and frames :: "'s \<Rightarrow> u64 list"
    and inv :: "'s \<Rightarrow> bool" and reserve :: nat +
  fixes map_page :: "u64 \<Rightarrow> u64 \<Rightarrow> u16 \<Rightarrow> 's \<Rightarrow> 's option"
    and unmap_page :: "u64 \<Rightarrow> 's \<Rightarrow> 's"
    and view :: "'s \<Rightarrow> u64 \<Rightarrow> u64"
    and tabs :: "'s \<Rightarrow> u64 set"
    and data :: "'s \<Rightarrow> u64 \<Rightarrow> byte_mem"
    and refs :: "'s \<Rightarrow> u64 \<Rightarrow> u32 option"
  assumes map_page: "inv s \<Longrightarrow> good_flags fl \<Longrightarrow> reserve + 2 \<le> length (frames s) \<Longrightarrow>
      \<exists>s'. map_page va pa fl s = Some s' \<and> inv s' \<and> (\<exists>j \<le> 3. frames s' = drop j (frames s)) \<and>
        (\<forall>va'. view s' va' = (if vpn va' = vpn va then pa OR ucast fl else view s va')) \<and>
        (\<forall>q. page_aligned q \<longrightarrow> q \<notin> tabs s \<union> set (frames s) \<longrightarrow> untouched tabs data refs s s' q)"
    and unmap_page: "inv s \<Longrightarrow> inv (unmap_page va s) \<and> frames (unmap_page va s) = frames s \<and>
        view (unmap_page va s) va' = (if vpn va' = vpn va then 0 else view s va')"
    and alloc_keeps: "inv s \<Longrightarrow> alloc s = Some (p, s') \<Longrightarrow>
        view s' = view s \<and> tabs s' = tabs s \<and> data s' = data s \<and>
        (\<forall>q. page_aligned q \<longrightarrow> q \<notin> set (frames s) \<longrightarrow> refs s' q = refs s q) \<and>
        (reserve \<le> length (frames s) \<longrightarrow> refs s' p = Some 1)"
    and free_not_table: "inv s \<Longrightarrow> set (frames s) \<inter> tabs s = {}"
    and free_zero: "inv s \<Longrightarrow> f \<in> set (frames s) \<Longrightarrow> data s f = (\<lambda>_. 0)"

text \<open>Back a list of virtual pages with fresh frames.\<close>

primrec map_fresh ::
    "('s \<Rightarrow> (u64 \<times> 's) option) \<Rightarrow> (u64 \<Rightarrow> u64 \<Rightarrow> u16 \<Rightarrow> 's \<Rightarrow> 's option) \<Rightarrow> u16 \<Rightarrow>
     u64 list \<Rightarrow> 's \<Rightarrow> (u64 list \<times> 's) option" where
  "map_fresh alloc map_page fl [] s = Some ([], s)"
| "map_fresh alloc map_page fl (va # vas) s = do {
     (p, s) \<leftarrow> alloc s;
     s \<leftarrow> map_page va p fl s;
     (ps, s) \<leftarrow> map_fresh alloc map_page fl vas s;
     Some (p # ps, s)
   }"

context address_space
begin

lemma alloc_map:
  assumes inv: "inv s" and fl: "good_flags fl" and avail: "reserve + 3 \<le> length (frames s)"
  obtains s1 s2 j where "alloc s = Some (hd (frames s), s1)" "map_page va (hd (frames s)) fl s1 = Some s2"
    "inv s2" "j \<le> 3" "frames s2 = drop (Suc j) (frames s)"
    "\<forall>va'. view s2 va' = (if vpn va' = vpn va then hd (frames s) OR ucast fl else view s va')"
    "hd (frames s) \<notin> set (frames s2) \<union> tabs s2" "hd (frames s) \<in> set (frames s)"
    "data s2 (hd (frames s)) = (\<lambda>_. 0)" "refs s2 (hd (frames s)) = Some 1"
    "\<forall>q. page_aligned q \<longrightarrow> q \<notin> tabs s \<union> set (frames s) \<longrightarrow> untouched tabs data refs s s2 q"
proof -
  let ?p = "hd (frames s)"
  obtain s1 where s1: "alloc s = Some (?p, s1)" "frames s1 = tl (frames s)" "inv s1"
    using alloc_first [OF inv] avail by auto
  note k = alloc_keeps [OF inv s1(1)]
  have "reserve + 2 \<le> length (frames s1)" using avail s1 by simp
  from map_page [OF s1(3) fl this, of va ?p] obtain s2 j where
    s2: "map_page va ?p fl s1 = Some s2" "inv s2" "j \<le> 3" "frames s2 = drop j (frames s1)"
      "\<forall>va'. view s2 va' = (if vpn va' = vpn va then ?p OR ucast fl else view s1 va')"
      "\<forall>q. page_aligned q \<longrightarrow> q \<notin> tabs s1 \<union> set (frames s1) \<longrightarrow> untouched tabs data refs s1 s2 q"
    by blast
  obtain ps where f: "frames s = ?p # ps" "frames s1 = ps" using avail s1 reserve_pos
    by (cases "frames s") auto
  have p: "?p \<in> set (frames s)" "page_aligned ?p"
    using f(1) frames_page_aligned [OF inv, of ?p] by (metis list.set_intros(1))+
  have "?p \<notin> set (frames s1)" using frames_distinct [OF inv] f by (metis distinct.simps(2))
  then have np: "?p \<notin> tabs s1 \<union> set (frames s1)" using free_not_table [OF inv] p k by auto
  with s2(6) p have u: "untouched tabs data refs s1 s2 ?p" by blast
  have "untouched tabs data refs s s2 q" if "page_aligned q" "q \<notin> tabs s \<union> set (frames s)" for q
  proof -
    have "q \<notin> tabs s1 \<union> set (frames s1)" using that k f by (metis UnCI UnE list.set_intros(2))
    with s2(6) that k show ?thesis by (auto simp: untouched_def)
  qed
  moreover have "?p \<notin> set (frames s2) \<union> tabs s2" using np u s2(4) by (auto simp: untouched_def dest: in_set_dropD)
  moreover have "data s2 ?p = (\<lambda>_. 0)" "refs s2 ?p = Some 1"
    using u k free_zero [OF inv p(1)] avail by (simp_all add: untouched_def)
  moreover have "frames s2 = drop (Suc j) (frames s)" using s1 s2 by (simp add: drop_Suc)
  ultimately show ?thesis using that [of s1 s2 j] s1 s2 k p by simp
qed

lemma map_fresh_ok:
  "inv s \<Longrightarrow> good_flags fl \<Longrightarrow> 4 * length vas + reserve \<le> length (frames s) + 1 \<Longrightarrow>
   distinct (map vpn vas) \<Longrightarrow>
   \<exists>ps s'. map_fresh alloc map_page fl vas s = Some (ps, s') \<and> inv s' \<and> length ps = length vas \<and>
     distinct ps \<and> set ps \<subseteq> set (frames s) \<and> set ps \<inter> (set (frames s') \<union> tabs s') = {} \<and>
     (vas \<noteq> [] \<longrightarrow> hd ps = hd (frames s)) \<and> (\<exists>j \<le> 4 * length vas. frames s' = drop j (frames s)) \<and>
     (\<forall>i < length vas. view s' (vas ! i) = ps ! i OR ucast fl) \<and>
     (\<forall>va. vpn va \<notin> vpn ` set vas \<longrightarrow> view s' va = view s va) \<and>
     (\<forall>p \<in> set ps. data s' p = (\<lambda>_. 0) \<and> refs s' p = Some 1) \<and>
     (\<forall>q. page_aligned q \<longrightarrow> q \<notin> tabs s \<union> set (frames s) \<longrightarrow> untouched tabs data refs s s' q)"
proof (induction vas arbitrary: s)
  case Nil
  then show ?case by (auto simp: untouched_def intro: exI [of _ 0])
next
  case (Cons va vas)
  let ?p = "hd (frames s)"
  have avail: "reserve + 3 \<le> length (frames s)" using Cons.prems by simp
  obtain s1 s2 j where
    s1: "alloc s = Some (?p, s1)" and s2: "map_page va ?p fl s1 = Some s2" "inv s2"
      "j \<le> 3" "frames s2 = drop (Suc j) (frames s)"
      "\<forall>va'. view s2 va' = (if vpn va' = vpn va then ?p OR ucast fl else view s va')"
    and p: "?p \<notin> set (frames s2) \<union> tabs s2" "?p \<in> set (frames s)"
      "data s2 ?p = (\<lambda>_. 0)" "refs s2 ?p = Some 1"
    and u: "\<forall>q. page_aligned q \<longrightarrow> q \<notin> tabs s \<union> set (frames s) \<longrightarrow> untouched tabs data refs s s2 q"
    by (rule alloc_map [OF Cons.prems(1,2) avail])
  have "4 * length vas + reserve \<le> length (frames s2) + 1" "distinct (map vpn vas)"
    using Cons.prems s2 by simp_all
  from Cons.IH [OF s2(2) Cons.prems(2) this] obtain ps s3 k where
    IH: "map_fresh alloc map_page fl vas s2 = Some (ps, s3)" "inv s3" "length ps = length vas"
      "distinct ps" "set ps \<subseteq> set (frames s2)" "set ps \<inter> (set (frames s3) \<union> tabs s3) = {}"
      "k \<le> 4 * length vas" "frames s3 = drop k (frames s2)"
      "\<forall>i < length vas. view s3 (vas ! i) = ps ! i OR ucast fl"
      "\<forall>va. vpn va \<notin> vpn ` set vas \<longrightarrow> view s3 va = view s2 va"
      "\<forall>p \<in> set ps. data s3 p = (\<lambda>_. 0) \<and> refs s3 p = Some 1"
      "\<forall>q. page_aligned q \<longrightarrow> q \<notin> tabs s2 \<union> set (frames s2) \<longrightarrow> untouched tabs data refs s2 s3 q"
    by blast
  have sub: "set (frames s2) \<subseteq> set (frames s)" "set (frames s3) \<subseteq> set (frames s2)"
    unfolding s2(4) IH(8) by (rule set_drop_subset)+
  have up: "untouched tabs data refs s2 s3 ?p"
    using IH(12) p(1,2) frames_page_aligned [OF Cons.prems(1)] by blast
  have "view s3 va = ?p OR ucast fl" using IH(10) s2(5) Cons.prems(4) by simp
  with IH(9) have "\<forall>i < length (va # vas). view s3 ((va # vas) ! i) = (?p # ps) ! i OR ucast fl"
    by (auto simp: less_Suc_eq_0_disj)
  moreover have "\<forall>va'. vpn va' \<notin> vpn ` set (va # vas) \<longrightarrow> view s3 va' = view s va'"
    using IH(10) s2(5) by auto
  moreover have "\<exists>j \<le> 4 * length (va # vas). frames s3 = drop j (frames s)"
    using IH(7,8) s2(3,4) by (intro exI [of _ "k + Suc j"]) auto
  moreover have "\<forall>q. page_aligned q \<longrightarrow> q \<notin> tabs s \<union> set (frames s) \<longrightarrow> untouched tabs data refs s s3 q"
  proof (intro allI impI)
    fix q assume q: "page_aligned q" "q \<notin> tabs s \<union> set (frames s)"
    with u have 2: "untouched tabs data refs s s2 q" by blast
    with q sub have "q \<notin> tabs s2 \<union> set (frames s2)" by (auto simp: untouched_def)
    with IH(12) q 2 show "untouched tabs data refs s s3 q" by (auto simp: untouched_def)
  qed
  moreover have "\<forall>p \<in> set (?p # ps). data s3 p = (\<lambda>_. 0) \<and> refs s3 p = Some 1"
    using IH(11) up p by (simp add: untouched_def)
  moreover have "set (?p # ps) \<inter> (set (frames s3) \<union> tabs s3) = {}"
    using IH(6) up p sub by (auto simp: untouched_def)
  ultimately show ?case
    using s1 s2(1) IH(1-5) p sub by (intro exI [of _ "?p # ps"] exI [of _ s3]) auto
qed

end

text \<open>The data of a frame, and the interpretation of the interface on \<open>sys/paging.c\<close>.\<close>

definition page_data :: "'a vm_scheme \<Rightarrow> u64 \<Rightarrow> byte_mem" where
  "page_data s p = (\<lambda>x. if page_of x = p then mem s x else 0)"

abbreviation vm_tables :: "'a vm_scheme \<Rightarrow> u64 set" where
  "vm_tables s \<equiv> tables (mem s) (cr3 s)"

abbreviation page_refs :: "'a vm_scheme \<Rightarrow> u64 \<Rightarrow> u32 option" where
  "page_refs s p \<equiv> get_page_ref_count p s"

lemma vm_grow_untouched:
  assumes g: "vm_grow k s t" and q: "page_aligned q" "q \<notin> vm_tables s \<union> set (free_frames s)"
  shows "untouched vm_tables page_data page_refs s t q"
proof -
  have nt: "q \<notin> vm_tables t" using g q by (auto simp: vm_grow_def)
  then have "page_data t q = page_data s q" using g by (auto simp: page_data_def vm_grow_def)
  moreover have "unat (q div PAGE_SIZE) \<notin> set (free_pages s)"
    using q page_div_frame [OF q(1)] unfolding free_frames_def by (metis UnI2 image_eqI list.set_map)
  then have "page_refs t q = page_refs s q"
    using g by (simp add: get_page_ref_count_def Let_def vm_grow_def)
  ultimately show ?thesis using nt by (simp add: untouched_def)
qed

lemma get_free_page_keeps:
  assumes inv: "vm_inv s" and run: "get_free_page s = Some (p, s')"
  shows "pt_view s' = pt_view s" "vm_tables s' = vm_tables s" "page_data s' = page_data s"
    "page_aligned q \<Longrightarrow> q \<notin> set (free_frames s) \<Longrightarrow> page_refs s' q = page_refs s q"
    "10 \<le> length (free_pages s) \<Longrightarrow> page_refs s' p = Some 1"
proof -
  have "s' = s \<and> \<not> 10 \<le> length (free_pages s) \<or>
      10 \<le> length (free_pages s) \<and> (\<exists>n. p = frame_of n \<and> n \<in> set (free_pages s) \<and> s' = take_page n s)"
  proof (cases "10 \<le> length (free_pages s)")
    case True
    from get_free_page_vm [OF inv True] run show ?thesis
      using True by (metis list.set_intros(1) option.inject prod.inject)
  next
    case False
    with get_free_page_exhausted [OF vm_inv_phys [OF inv]] run show ?thesis by simp
  qed
  moreover have "unat (frame_of n div PAGE_SIZE) = n" "n < MAX_PAGES" if "n \<in> set (free_pages s)" for n
    using free_pages_bound [OF vm_inv_phys [OF inv] that] by (simp_all add: MAX_PAGES_def)
  ultimately have s': "s' = s \<and> \<not> 10 \<le> length (free_pages s) \<or>
      (\<exists>n. p = frame_of n \<and> unat (p div PAGE_SIZE) = n \<and> n < MAX_PAGES \<and> n \<in> set (free_pages s) \<and>
         s' = take_page n s)" by blast
  then show "pt_view s' = pt_view s" "vm_tables s' = vm_tables s" "page_data s' = page_data s"
    by (auto simp: pt_view_def page_data_def fun_eq_iff)
  show "page_refs s' p = Some 1" if "10 \<le> length (free_pages s)"
    using s' that by (auto simp: get_page_ref_count_def take_page_def Let_def)
  show "page_refs s' q = page_refs s q" if q: "page_aligned q" "q \<notin> set (free_frames s)"
  proof -
    have "unat (q div PAGE_SIZE) \<notin> set (free_pages s)"
      using q page_div_frame [OF q(1)] unfolding free_frames_def by (metis image_eqI list.set_map)
    then show ?thesis
      using s' by (auto simp: get_page_ref_count_def take_page_def Let_def)
  qed
qed

interpretation as: address_space get_free_page free_frames vm_inv 10
  update_page_tables remove_page_table_mapping pt_view vm_tables page_data page_refs
proof
  fix s :: "'a vm_scheme" assume inv: "vm_inv s"
  note ph = vm_inv_phys [OF inv]
  have len: "length (free_frames s) = length (free_pages s)" by (simp add: free_frames_def)
  show "\<exists>s'. get_free_page s = Some (hd (free_frames s), s') \<and> free_frames s' = tl (free_frames s) \<and> vm_inv s'"
    if "10 \<le> length (free_frames s)"
    using get_free_page_vm [OF inv] fa.alloc_first [OF ph that] that len
    by (metis vm_growD(1) option.inject prod.inject)
  show "get_free_page s = Some (0, s)" if "length (free_frames s) < 10"
    using fa.alloc_exhausted [OF ph that] .
  show "distinct (free_frames s)" "0 \<notin> set (free_frames s)"
    "\<And>f. f \<in> set (free_frames s) \<Longrightarrow> page_aligned f"
    using fa.frames_distinct [OF ph] fa.frames_nonzero [OF ph] fa.frames_page_aligned [OF ph] by auto
  show "\<exists>s'. update_page_tables va pa fl s = Some s' \<and> vm_inv s' \<and>
      (\<exists>j \<le> 3. free_frames s' = drop j (free_frames s)) \<and>
      (\<forall>va'. pt_view s' va' = (if vpn va' = vpn va then pa OR ucast fl else pt_view s va')) \<and>
      (\<forall>q. page_aligned q \<longrightarrow> q \<notin> vm_tables s \<union> set (free_frames s) \<longrightarrow>
         untouched vm_tables page_data page_refs s s' q)"
    if fl: "good_flags fl" and av: "10 + 2 \<le> length (free_frames s)" for va pa fl
  proof -
    obtain s' where s': "update_page_tables va pa fl s = Some s'" "vm_grow 3 s s'"
      "\<forall>va'. pt_view s' va' = (if vpn va' = vpn va then pa OR ucast fl else pt_view s va')"
      using update_page_tables_ok [OF inv fl, of va pa] av len by auto
    moreover have "\<exists>j \<le> 3. free_frames s' = drop j (free_frames s)"
      using s'(2) by (auto simp: vm_grow_def free_frames_def drop_map)
    ultimately show ?thesis using vm_grow_untouched [OF s'(2)] vm_growD(1) [OF s'(2)] by blast
  qed
  show "vm_inv (remove_page_table_mapping va s) \<and>
      free_frames (remove_page_table_mapping va s) = free_frames s \<and>
      pt_view (remove_page_table_mapping va s) va' = (if vpn va' = vpn va then 0 else pt_view s va')" for va va'
    using remove_page_table_mapping_ok [OF inv, of va] by (simp add: vm_grow_def free_frames_def)
  show "pt_view s' = pt_view s \<and> vm_tables s' = vm_tables s \<and> page_data s' = page_data s \<and>
      (\<forall>q. page_aligned q \<longrightarrow> q \<notin> set (free_frames s) \<longrightarrow> page_refs s' q = page_refs s q) \<and>
      (10 \<le> length (free_frames s) \<longrightarrow> page_refs s' p = Some 1)"
    if "get_free_page s = Some (p, s')" for p s'
    using get_free_page_keeps [OF inv that] len by simp
  show "set (free_frames s) \<inter> vm_tables s = {}" using inv by (auto simp: vm_inv_def)
  show "page_data s f = (\<lambda>_. 0)" if "f \<in> set (free_frames s)" for f
    using inv that by (auto simp: vm_inv_def page_data_def zero_page_def)
qed simp

subsection \<open>Properties\<close>

definition vm_small :: vm where
  "vm_small = phys.extend phys_small
     (vm.fields 0x1000 0xFFFFFFFF80000000 0)"

lemma vm_small_simps [simp]:
  "mem vm_small = (\<lambda>_. 0)" "cr3 vm_small = 0x1000"
  "free_pages vm_small = [2..<40]" "phys_inv vm_small" "free_frames vm_small = map frame_of [2..<40]"
proof -
  note c = phys_cong [of vm_small phys_small]
  show "free_pages vm_small = [2..<40]" "phys_inv vm_small" "free_frames vm_small = map frame_of [2..<40]"
    using c phys_small_pages phys_small_inv
    by (simp_all add: vm_small_def phys.defs vm.defs free_frames_def)
qed (simp_all add: vm_small_def phys.defs vm.defs phys_small_def phys_boot_def)

lemma frame_at_zero: "indices is \<Longrightarrow> page_aligned r \<Longrightarrow>
    frame_at (\<lambda>_. 0) r is = (if is = [] then Some r else None)"
  by (cases "is") (simp_all add: zero_page_entry zero_page_def present_0)

lemma vm_small_tables [simp]: "tables (\<lambda>_. 0) 0x1000 = {0x1000 :: u64}"
proof -
  have r: "page_aligned (0x1000 :: u64)" by (simp add: page_aligned_def GET_FLAGS_def)
  then show ?thesis
    by (auto simp: tables_def frame_at_zero split: if_splits) (rule exI [of _ "[]"], simp)
qed

lemma vm_small_frame: "n < 2 ^ 52 \<Longrightarrow> frame_of n \<in> set (free_frames vm_small) \<longleftrightarrow> 2 \<le> n \<and> n < 40"
proof -
  assume n: "n < 2 ^ 52"
  have "frame_of n \<in> frame_of ` {2..<40} \<longleftrightarrow> n \<in> {2..<40}"
    by (rule inj_on_image_mem_iff [where B = "{..<2 ^ 52}"]) (use n in \<open>auto simp: inj_on_def frame_of_inj\<close>)
  then show ?thesis by (simp only: vm_small_simps set_map set_upt atLeastLessThan_iff)
qed

lemma vm_small_inv [simp]: "vm_inv vm_small"
proof -
  have "pt_tree (\<lambda>_. 0) 0x1000"
    by (auto simp: pt_tree_def frame_at_zero page_aligned_def GET_FLAGS_def split: if_splits)
  moreover have "0x1000 \<notin> set (free_frames vm_small)"
    using vm_small_frame [of 1] by (simp add: frame_of_def PAGE_SIZE_def)
  ultimately show ?thesis by (simp add: vm_inv_def zero_page_def)
qed

text \<open>C12. With enough free pages, \<open>update_page_tables\<close> always succeeds: afterwards the walk
  of the address yields exactly the given frame and flags, the walk and the flags of every other
  virtual page are what they were, and the invariant of the page tables and the allocator holds.\<close>

theorem update_page_tables_maps:
  assumes "vm_inv s" "good_flags fl" "page_aligned pa" "12 \<le> length (free_pages s)"
  shows "\<exists>s'. update_page_tables va pa fl s = Some s' \<and> vm_inv s' \<and>
     walk_page_table va s' = pa \<and> get_flags va s' = ucast fl \<and>
     (\<forall>va'. vpn va' \<noteq> vpn va \<longrightarrow>
        walk_page_table va' s' = walk_page_table va' s \<and> get_flags va' s' = get_flags va' s)"
  using update_page_tables_ok [OF assms(1,2,4), of va pa] entry_flags [OF assms(2,3)]
  by (auto simp: walk_view flags_view vm_growD)

theorem update_page_tables_maps_witness:
  "\<exists>s'. update_page_tables 0x400000 0x5000 PAGING_USER_R_W_FLAGS vm_small = Some s' \<and> vm_inv s' \<and>
     walk_page_table 0x400000 s' = 0x5000 \<and> get_flags 0x400000 s' = ucast PAGING_USER_R_W_FLAGS \<and>
     (\<forall>va'. vpn va' \<noteq> vpn 0x400000 \<longrightarrow> walk_page_table va' s' = walk_page_table va' vm_small \<and>
        get_flags va' s' = get_flags va' vm_small)"
  by (rule update_page_tables_maps) (simp_all add: page_aligned_def GET_FLAGS_def)

text \<open>C23. \<open>remove_page_table_mapping\<close> makes the walk and the flags of its page 0 and changes
  neither another page nor the free list; on an address without tables it changes nothing.\<close>

theorem remove_page_table_mapping_unmaps:
  assumes "vm_inv s" "s' = remove_page_table_mapping va s"
  shows "vm_inv s' \<and> free_pages s' = free_pages s \<and> walk_page_table va s' = 0 \<and> get_flags va s' = 0 \<and>
     (\<forall>va'. vpn va' \<noteq> vpn va \<longrightarrow>
        walk_page_table va' s' = walk_page_table va' s \<and> get_flags va' s' = get_flags va' s) \<and>
     (pte_table va s = None \<longrightarrow> s' = s)"
proof -
  have "pte_table va s = None \<longrightarrow> s' = s" by (simp add: assms(2) remove_page_table_mapping_def)
  then show ?thesis
    using remove_page_table_mapping_ok [OF assms(1), of va]
    by (simp add: assms(2) walk_view flags_view vm_grow_def)
qed

theorem remove_page_table_mapping_unmaps_witness:
  "\<exists>s'. s' = remove_page_table_mapping 0x400000 vm_small \<and> vm_inv s' \<and>
     free_pages s' = free_pages vm_small \<and> walk_page_table 0x400000 s' = 0 \<and>
     get_flags 0x400000 s' = 0"
  using remove_page_table_mapping_unmaps [where va = "0x400000", OF vm_small_inv refl] by blast

text \<open>C24. \<open>setup_user_page_tables\<close> returns a new root that leaves the running address space
  as it is. Switching to it keeps every mapping of the kernel's half (the last entry of the root)
  and has no mapping anywhere else; both address spaces satisfy the invariant.\<close>

theorem setup_user_page_tables_kernel_half:
  assumes "vm_inv s" "10 \<le> length (free_pages s)"
  shows "\<exists>p s'. setup_user_page_tables s = Some (p, s') \<and> vm_inv s' \<and> vm_inv (set_new_cr3 p s') \<and>
     (\<forall>va. walk_page_table va s' = walk_page_table va s \<and> get_flags va s' = get_flags va s \<and>
        (offset_pml4 va = 511 \<longrightarrow>
           walk_page_table va (set_new_cr3 p s') = walk_page_table va s \<and>
           get_flags va (set_new_cr3 p s') = get_flags va s) \<and>
        (offset_pml4 va \<noteq> 511 \<longrightarrow>
           walk_page_table va (set_new_cr3 p s') = 0 \<and> get_flags va (set_new_cr3 p s') = 0))"
  using setup_user_page_tables_ok [OF assms] by (auto simp: walk_view flags_view)

theorem setup_user_page_tables_kernel_half_witness:
  "\<exists>p s'. setup_user_page_tables vm_small = Some (p, s') \<and> vm_inv s' \<and> vm_inv (set_new_cr3 p s') \<and>
     walk_page_table 0x400000 (set_new_cr3 p s') = 0"
proof -
  have "offset_pml4 0x400000 \<noteq> 511" by (simp add: offset_pml4_def)
  then show ?thesis
    using setup_user_page_tables_kernel_half [OF vm_small_inv] by fastforce
qed

end
