(* ===== verification/Kernel_Heap.thy ===== *)
theory Kernel_Heap
  imports Paging
begin

text \<open>
  The kernel heap of \<^verbatim>\<open>sys/paging.c\<close>: \<open>kmalloc\<close>, \<open>kfree\<close>, the construction of the
  kernel's address space at boot and the clean-up of a process's page tables.
\<close>

subsection \<open>Kernel allocation\<close>

definition kmalloc_page :: "nat \<Rightarrow> u64 \<times> 'a vm_scheme \<Rightarrow> (u64 \<times> 'a vm_scheme) option" where
  "kmalloc_page i as = do {
     let (allocated_addr, s) = as;
     (ph_addr, s) \<leftarrow> get_free_page s;
     let allocated_addr = (if i = 0 then ph_addr else allocated_addr);
     s \<leftarrow> update_page_tables (kernel_virtual_base s + allocated_addr + of_nat i * PAGE_SIZE)
           ph_addr PAGING_KERNEL_R_W_FLAGS s;
     Some (allocated_addr, s)
   }"

definition kmalloc :: "u32 \<Rightarrow> 'a vm_scheme \<Rightarrow> (u64 \<times> 'a vm_scheme) option" where
  "kmalloc bytes_required s = do {
     let no_of_pages = (if bytes_required mod 4096 \<noteq> 0 then bytes_required div 4096 + 1
                        else bytes_required div 4096);
     (allocated_addr, s) \<leftarrow> foldM kmalloc_page [0..<unat no_of_pages] (0, s);
     Some (kernel_virtual_base s + allocated_addr, s)
   }"

text \<open>A byte store through the page tables of the running address space; an absent leaf
  entry faults.\<close>

definition vstore8 :: "u64 \<Rightarrow> u8 \<Rightarrow> 'a vm_scheme \<Rightarrow> 'a vm_scheme option" where
  "vstore8 va b s =
     (if get_flags va s AND 1 = 1
      then Some (s\<lparr>mem := (mem s)(walk_page_table va s + (va AND GET_FLAGS) := b)\<rparr>)
      else None)"

definition vmemset :: "u64 \<Rightarrow> u8 \<Rightarrow> nat \<Rightarrow> 'a vm_scheme \<Rightarrow> 'a vm_scheme option" where
  "vmemset a v b s = foldM (\<lambda>i. vstore8 (a + of_nat i) v) [0..<b] s"

definition kfree :: "u64 \<Rightarrow> 'a vm_scheme \<Rightarrow> 'a vm_scheme option" where
  "kfree ptr s =
     (let phy_addr = walk_page_table ptr s
      in if phy_addr = 0 then Some s
         else do {
           refs \<leftarrow> get_page_ref_count phy_addr s;
           if refs > 0 then Some s
           else do {
             s \<leftarrow> vmemset ptr 0 4096 s;
             s \<leftarrow> add_back_free_pages phy_addr 1 s;
             let s = update_max_pages 1 s;
             Some (flush_tlb (remove_page_table_mapping ptr s))
           }
         })"

subsection \<open>Initialisation\<close>

partial_function (option) map_physical ::
    "u64 \<Rightarrow> u64 \<Rightarrow> u64 \<Rightarrow> 'a vm_scheme \<Rightarrow> 'a vm_scheme option" where
  "map_physical physfree v_i p_i s =
     (if p_i < physfree + get_free_pages_count s * PAGE_SIZE
      then Option.bind (setup_page_tables v_i p_i PAGING_KERNEL_R_W_FLAGS s)
             (map_physical physfree (v_i + PAGE_SIZE) (p_i + PAGE_SIZE))
      else Some s)"

definition init_paging :: "u64 \<Rightarrow> u64 \<Rightarrow> u64 \<Rightarrow> 'a vm_scheme \<Rightarrow> 'a vm_scheme option" where
  "init_paging kernmem physbase physfree s = do {
     (cr3_addr, s) \<leftarrow> get_free_page s;
     let s = s\<lparr>kernel_virtual_base := kernmem - physbase\<rparr>;
     let s = s\<lparr>pml4_t := kernel_virtual_base s + cr3_addr\<rparr>;
     s \<leftarrow> map_physical physfree kernmem physbase s;
     s \<leftarrow> setup_page_tables (kernel_virtual_base s + PHYS_VIDEO_MEM) PHYS_VIDEO_MEM
           PAGING_KERNEL_R_W_FLAGS s;
     Some (set_new_cr3 cr3_addr s)
   }"

subsection \<open>Taking an address space down\<close>

definition clean_entry ::
    "(u64 \<Rightarrow> 'a vm_scheme \<Rightarrow> 'a vm_scheme option) \<Rightarrow> u64 \<Rightarrow> nat \<Rightarrow>
     'a vm_scheme \<Rightarrow> 'a vm_scheme option" where
  "clean_entry below tbl i s =
     (let e = kread (tbl + 8 * of_nat i) s
      in if e AND 1 = 1 then below (kernel_virtual_base s + (e AND MASK)) s else Some s)"

definition clean_pde_table :: "u64 \<Rightarrow> 'a vm_scheme \<Rightarrow> 'a vm_scheme option" where
  "clean_pde_table pde s = Option.bind (foldM (clean_entry kfree pde) [0..<512] s) (kfree pde)"

definition clean_pdpe_table :: "u64 \<Rightarrow> 'a vm_scheme \<Rightarrow> 'a vm_scheme option" where
  "clean_pdpe_table pdpe s =
     Option.bind (foldM (clean_entry clean_pde_table pdpe) [0..<512] s) (kfree pdpe)"

definition clean_page_tables :: "u64 \<Rightarrow> 'a vm_scheme \<Rightarrow> 'a vm_scheme option" where
  "clean_page_tables root s =
     (let pml4 = root + kernel_virtual_base s
      in Option.bind (foldM (clean_entry clean_pdpe_table pml4) [0..<512] s) (kfree pml4))"

lemma vpn_eq_mod: "vpn a = vpn b \<Longrightarrow> a AND GET_FLAGS = b AND GET_FLAGS \<Longrightarrow> take_bit 48 a = take_bit 48 b"
proof (rule bit_word_eqI)
  fix n :: nat
  assume v: "vpn a = vpn b" and f: "a AND GET_FLAGS = b AND GET_FLAGS"
  from v have "bit (vpn a) (n - 12) = bit (vpn b) (n - 12)" by simp
  moreover from f have "bit (a AND GET_FLAGS) n = bit (b AND GET_FLAGS) n" by simp
  ultimately show "bit (take_bit 48 a) n = bit (take_bit 48 b) n"
    by (cases "n < 12") (auto simp: vpn_def bit_simps bit_GET_FLAGS)
qed

lemma unat_take_page:
  assumes "k \<le> 64"
  shows "unat (take_bit k (b + of_nat i * PAGE_SIZE :: u64)) = (unat b + i * 4096) mod 2 ^ k"
proof -
  have "(2 :: nat) ^ k dvd 2 ^ 64" using assms by (rule le_imp_power_dvd)
  then have "unat (b + of_nat i * PAGE_SIZE) mod 2 ^ k = (unat b + i * 4096) mod 2 ^ k"
    by (simp add: unat_word_ariths PAGE_SIZE_def unat_of_nat mod_simps mod_mod_cancel)
  then show ?thesis unfolding unsigned_take_bit_eq by (simp only: take_bit_eq_mod)
qed

lemma GET_FLAGS_page: "(b + of_nat i * PAGE_SIZE) AND GET_FLAGS = b AND GET_FLAGS"
proof -
  have "unat (take_bit 12 (b + of_nat i * PAGE_SIZE)) = unat (take_bit 12 b)"
    using unat_take_page [of 12 b i] unat_take_page [of 12 b 0] by simp
  then show ?thesis
    by (simp only: GET_FLAGS_mask take_bit_eq_mask word_unat_eq_iff)
qed

lemma vpn_page_inj:
  assumes v: "vpn (b + of_nat i * PAGE_SIZE) = vpn (b + of_nat j * PAGE_SIZE)"
    and ij: "i < 2 ^ 36" "j < 2 ^ 36"
  shows "i = j"
proof -
  have "take_bit 48 (b + of_nat i * PAGE_SIZE) = take_bit 48 (b + of_nat j * PAGE_SIZE)"
    using vpn_eq_mod [OF v] by (simp add: GET_FLAGS_page)
  then have m: "(unat b + i * 4096) mod 2 ^ 48 = (unat b + j * 4096) mod 2 ^ 48"
    using unat_take_page [of 48 b i] unat_take_page [of 48 b j] by simp
  have "i = j" if "i \<le> j" "j < 2 ^ 36" "(unat b + i * 4096) mod 2 ^ 48 = (unat b + j * 4096) mod 2 ^ 48" for i j
  proof -
    have "(2 :: nat) ^ 48 dvd (unat b + j * 4096) - (unat b + i * 4096)"
      using that by (subst mod_eq_dvd_iff_nat [symmetric]) auto
    then have "2 ^ 36 * 4096 dvd (j - i) * 4096" by (simp add: diff_mult_distrib)
    then have "2 ^ 36 dvd j - i" by (simp only: dvd_times_right_cancel_iff)
    moreover have "j - i < 2 ^ 36" using that by simp
    ultimately have "j - i = 0" using nat_dvd_not_less by blast
    with that show ?thesis by simp
  qed
  from this [of i j] this [of j i] m ij show ?thesis by (cases "i \<le> j") auto
qed

subsection \<open>Allocation\<close>

lemma get_free_page_regs:
  "get_free_page s = Some (p, s') \<Longrightarrow> kernel_virtual_base s' = kernel_virtual_base s"
  by (auto simp: get_free_page_def set_page_ref_count_def Let_def bind_Some_iff split: if_splits)

lemma next_table_regs:
  "next_table t i fl s = Some (p, s') \<Longrightarrow> kernel_virtual_base s' = kernel_virtual_base s"
  by (auto simp: next_table_def kwrite_def Let_def bind_Some_iff get_free_page_regs split: if_splits)

lemma update_page_tables_regs:
  "update_page_tables va pa fl s = Some s' \<Longrightarrow> kernel_virtual_base s' = kernel_virtual_base s"
  by (auto simp: update_page_tables_def map_from_def bind_Some_iff next_table_regs kwrite_def)

definition kmalloc_vas :: "u64 \<Rightarrow> nat list \<Rightarrow> u64 list" where
  "kmalloc_vas base is = map (\<lambda>i. base + of_nat i * PAGE_SIZE) is"

lemma kmalloc_rest:
  "0 \<notin> set is \<Longrightarrow> foldM kmalloc_page is (a, s) =
     map_option (\<lambda>(ps, s'). (a, s'))
       (map_fresh get_free_page update_page_tables PAGING_KERNEL_R_W_FLAGS
          (kmalloc_vas (kernel_virtual_base s + a) is) s)"
proof (induction "is" arbitrary: s)
  case (Cons i "is")
  show ?case
  proof (cases "get_free_page s")
    case (Some ps1)
    obtain p s1 where s1: "get_free_page s = Some (p, s1)" using Some by (cases ps1) auto
    note k = get_free_page_regs [OF s1]
    show ?thesis
    proof (cases "update_page_tables (kernel_virtual_base s + a + of_nat i * PAGE_SIZE) p PAGING_KERNEL_R_W_FLAGS s1")
      case (Some s2)
      have "foldM kmalloc_page (i # is) (a, s) = foldM kmalloc_page is (a, s2)"
        using Cons.prems Some s1 k by (simp add: kmalloc_page_def)
      with Cons Some s1 k update_page_tables_regs [OF Some] show ?thesis
        by (cases "map_fresh get_free_page update_page_tables PAGING_KERNEL_R_W_FLAGS
              (kmalloc_vas (kernel_virtual_base s2 + a) is) s2")
          (auto simp: kmalloc_vas_def)
    qed (use Cons.prems s1 k in \<open>simp add: kmalloc_page_def kmalloc_vas_def\<close>)
  qed (simp add: kmalloc_page_def kmalloc_vas_def)
qed (simp add: kmalloc_vas_def)


lemma map_fresh_regs:
  "map_fresh get_free_page update_page_tables fl vas s = Some (ps, s') \<Longrightarrow>
   kernel_virtual_base s' = kernel_virtual_base s"
  by (induction vas arbitrary: s ps)
    (auto simp: bind_Some_iff dest!: get_free_page_regs update_page_tables_regs)

definition pages_of :: "u32 \<Rightarrow> nat" where
  "pages_of b = (unat b + 4095) div 4096"

lemma pages_of_eq:
  "unat (if b mod 4096 \<noteq> 0 then b div 4096 + 1 else b div 4096 :: u32) = pages_of b"
proof -
  have b: "unat b < 2 ^ 32" using unsigned_less [of b, where 'a = nat] by simp
  have "unat (b div 4096 + 1) = unat b div 4096 + 1"
    using b by (simp add: unat_word_ariths unat_div div_less)
  moreover have "b mod 4096 = 0 \<longleftrightarrow> unat b mod 4096 = 0"
    by (simp add: word_unat_eq_iff unat_mod)
  moreover have "(n + 4095) div 4096 = (if n mod 4096 \<noteq> 0 then n div 4096 + 1 else n div 4096)" for n :: nat
  proof (cases "n mod 4096 = 0")
    case True
    then obtain k where "n = 4096 * k" by auto
    then show ?thesis by simp
  next
    case False
    have "n + 4095 = 4096 * (n div 4096) + (n mod 4096 + 4095)" by simp
    moreover have "(n mod 4096 + 4095) div 4096 = 1" using False by (simp add: div_nat_eqI)
    ultimately have "(n + 4095) div 4096 = n div 4096 + 1" by (metis div_mult_self4 zero_neq_numeral)
    with False show ?thesis by simp
  qed
  ultimately show ?thesis by (simp add: pages_of_def unat_div)
qed

lemma kmalloc_fresh:
  assumes "0 < pages_of b" "get_free_page s = Some (p, s1)"
  shows "kmalloc b s = map_option (\<lambda>(ps, s'). (kernel_virtual_base s + p, s'))
     (map_fresh get_free_page update_page_tables PAGING_KERNEL_R_W_FLAGS
        (kmalloc_vas (kernel_virtual_base s + p) [0..<pages_of b]) s)"
proof -
  have u: "[0..<pages_of b] = 0 # [1..<pages_of b]" using assms(1) by (simp add: upt_conv_Cons)
  note k = get_free_page_regs [OF assms(2)]
  let ?va = "kernel_virtual_base s + p" and ?F = PAGING_KERNEL_R_W_FLAGS
  show ?thesis
  proof (cases "update_page_tables ?va p ?F s1")
    case None
    then show ?thesis
      using assms k by (simp add: kmalloc_def pages_of_eq u kmalloc_page_def kmalloc_vas_def Let_def)
  next
    case (Some s2)
    note k2 = update_page_tables_regs [OF Some]
    have "foldM kmalloc_page [0..<pages_of b] (0, s) = foldM kmalloc_page [1..<pages_of b] (p, s2)"
      using assms k Some by (simp add: u kmalloc_page_def)
    moreover have "kernel_virtual_base s2 = kernel_virtual_base s" using k k2 by simp
    ultimately show ?thesis
      using assms k Some kmalloc_rest [of "[1..<pages_of b]" p s2]
      by (cases "map_fresh get_free_page update_page_tables ?F (kmalloc_vas ?va [1..<pages_of b]) s2")
        (auto simp: kmalloc_def pages_of_eq u kmalloc_vas_def Let_def simp del: foldM.simps dest: map_fresh_regs)
  qed
qed

lemma kmalloc_vas_distinct:
  assumes "n < 2 ^ 36"
  shows "distinct (map vpn (kmalloc_vas base [0..<n]))"
proof -
  have "inj_on (\<lambda>i. vpn (base + of_nat i * PAGE_SIZE)) {0..<n}"
  proof (rule inj_onI)
    fix i j
    assume e: "vpn (base + of_nat i * PAGE_SIZE) = vpn (base + of_nat j * PAGE_SIZE)"
      and ij: "i \<in> {0..<n}" "j \<in> {0..<n}"
    have "i < 2 ^ 36" "j < 2 ^ 36" using ij assms by simp_all
    with e show "i = j" by (rule vpn_page_inj)
  qed
  then show ?thesis by (simp add: kmalloc_vas_def distinct_map comp_def)
qed

lemma kmalloc_ok:
  assumes inv: "vm_inv s" and b: "0 < pages_of b" "4 * pages_of b + 10 \<le> length (free_frames s) + 1"
  shows "\<exists>ps s'. kmalloc b s = Some (kernel_virtual_base s + hd ps, s') \<and> vm_inv s' \<and>
     kernel_virtual_base s' = kernel_virtual_base s \<and>
     length ps = pages_of b \<and> distinct ps \<and> set ps \<subseteq> set (free_frames s) \<and>
     set ps \<inter> (set (free_frames s') \<union> vm_tables s') = {} \<and>
     (\<forall>i < pages_of b. pt_view s' (kernel_virtual_base s + hd ps + of_nat i * PAGE_SIZE) = ps ! i OR 3) \<and>
     (\<forall>va. (\<forall>i < pages_of b. vpn va \<noteq> vpn (kernel_virtual_base s + hd ps + of_nat i * PAGE_SIZE)) \<longrightarrow>
        pt_view s' va = pt_view s va) \<and>
     (\<forall>p \<in> set ps. page_data s' p = (\<lambda>_. 0) \<and> page_refs s' p = Some 1) \<and>
     (\<exists>j \<le> 4 * pages_of b. free_frames s' = drop j (free_frames s)) \<and>
     (\<forall>q. page_aligned q \<longrightarrow> q \<notin> vm_tables s \<union> set (free_frames s) \<longrightarrow>
        untouched vm_tables page_data page_refs s s' q)"
proof -
  let ?n = "pages_of b" and ?p = "hd (free_frames s)"
  let ?vas = "kmalloc_vas (kernel_virtual_base s + ?p) [0..<?n]"
  have "10 \<le> length (free_frames s)" using b by simp
  from as.alloc_first [OF inv this] obtain s1 where s1: "get_free_page s = Some (?p, s1)" by blast
  have n: "?n < 2 ^ 36"
    using unsigned_less [of b, where 'a = nat] by (simp add: pages_of_def)
  note d = kmalloc_vas_distinct [OF n, of "kernel_virtual_base s + ?p"]
  have l: "length ?vas = ?n" by (simp add: kmalloc_vas_def)
  have "4 * length ?vas + 10 \<le> length (free_frames s) + 1" using b by (simp add: l)
  note ok = as.map_fresh_ok [OF inv good_flags_consts(1) this d, unfolded l]
  from ok obtain ps s' where
    mf: "map_fresh get_free_page update_page_tables PAGING_KERNEL_R_W_FLAGS ?vas s = Some (ps, s')"
    and r: "vm_inv s'" "length ps = ?n" "distinct ps" "set ps \<subseteq> set (free_frames s)"
      "set ps \<inter> (set (free_frames s') \<union> vm_tables s') = {}" "?vas \<noteq> [] \<longrightarrow> hd ps = ?p"
      "\<exists>j \<le> 4 * ?n. free_frames s' = drop j (free_frames s)"
      "\<forall>i < ?n. pt_view s' (?vas ! i) = ps ! i OR ucast PAGING_KERNEL_R_W_FLAGS"
      "\<forall>va. vpn va \<notin> vpn ` set ?vas \<longrightarrow> pt_view s' va = pt_view s va"
      "\<forall>p \<in> set ps. page_data s' p = (\<lambda>_. 0) \<and> page_refs s' p = Some 1"
      "\<forall>q. page_aligned q \<longrightarrow> q \<notin> vm_tables s \<union> set (free_frames s) \<longrightarrow>
        untouched vm_tables page_data page_refs s s' q"
    by blast
  have hd: "hd ps = ?p" using r(6) l b(1) by (metis length_0_conv less_numeral_extra(3))
  have f: "ucast PAGING_KERNEL_R_W_FLAGS = (3 :: u64)" by (simp add: PAGING_KERNEL_R_W_FLAGS_def)
  have "kmalloc b s = Some (kernel_virtual_base s + hd ps, s')"
    using kmalloc_fresh [OF b(1) s1] mf by (simp add: hd)
  moreover have "kernel_virtual_base s' = kernel_virtual_base s" by (rule map_fresh_regs [OF mf])
  moreover have "\<forall>i < ?n. pt_view s' (kernel_virtual_base s + hd ps + of_nat i * PAGE_SIZE) = ps ! i OR 3"
    using r(8) unfolding f by (simp add: kmalloc_vas_def hd)
  moreover have "\<forall>va. (\<forall>i < ?n. vpn va \<noteq> vpn (kernel_virtual_base s + hd ps + of_nat i * PAGE_SIZE)) \<longrightarrow>
        pt_view s' va = pt_view s va"
  proof (intro allI impI)
    fix va assume "\<forall>i < ?n. vpn va \<noteq> vpn (kernel_virtual_base s + hd ps + of_nat i * PAGE_SIZE)"
    then have "vpn va \<notin> vpn ` set ?vas" by (auto simp: kmalloc_vas_def hd)
    with r(9) show "pt_view s' va = pt_view s va" by blast
  qed
  ultimately show ?thesis using r by blast
qed

subsection \<open>Freeing\<close>

lemma kfree_referenced:
  assumes "walk_page_table ptr s = p" "page_refs s p = Some n" "0 < n"
  shows "kfree ptr s = Some s"
  using assms by (simp add: kfree_def Let_def)

text \<open>Filling a mapped page through the page tables, when the frame holds no table.\<close>

lemma page_offset: "page_aligned f \<Longrightarrow> page_of x = f \<longleftrightarrow> x - f < 4096"
proof
  assume f: "page_aligned f"
  { assume "x - f < 4096"
    then show "page_of x = f" using page_of_plus [OF f, of "x - f"] by simp }
  assume x: "page_of x = f"
  have "x = (x AND MASK) OR (x AND GET_FLAGS)"
    by (rule bit_word_eqI) (auto simp: bit_and_iff bit_or_iff bit_MASK bit_GET_FLAGS)
  moreover have l: "x AND GET_FLAGS < 4096"
    using flags_below [of "x AND GET_FLAGS"] by (simp add: and.assoc)
  ultimately have "x = f + (x AND GET_FLAGS)"
    using page_plus_or [OF f l] x by simp
  then have "x - f = x AND GET_FLAGS" by (metis add_diff_cancel_left')
  with l show "x - f < 4096" by simp
qed

lemma vpn_in_page: "page_aligned ptr \<Longrightarrow> d < 4096 \<Longrightarrow> vpn (ptr + d) = vpn ptr"
proof -
  assume p: "page_aligned ptr" and d: "d < 4096"
  have "vpn (page_of a) = vpn a" for a
    by (rule bit_word_eqI) (auto simp: vpn_def bit_simps bit_MASK)
  from this [of "ptr + d"] show ?thesis using page_of_plus [OF p d] by simp
qed

lemma vmemset_page:
  assumes inv: "vm_inv s" and ptr: "page_aligned ptr" "get_flags ptr s AND 1 = 1"
    and f: "f = walk_page_table ptr s" "f \<notin> vm_tables s"
  shows "vmemset ptr v 4096 s = Some (s\<lparr>mem := (\<lambda>x. if page_of x = f then v else mem s x)\<rparr>)"
proof -
  let ?m = "\<lambda>i x. if page_of x = f \<and> unat (x - f) < i then v else mem s x"
  have fa: "page_aligned f" by (simp add: f walk_view)
  have fv: "page_of (pt_view s ptr) = f" "(pt_view s ptr AND GET_FLAGS) AND 1 = 1"
    using ptr(2) by (simp_all add: f walk_view flags_view)
  have r: "page_aligned (cr3 s)" using inv by (simp add: vm_inv_def pt_tree_def)
  have step: "vstore8 (ptr + of_nat i) v (s\<lparr>mem := ?m i\<rparr>) = Some (s\<lparr>mem := ?m (Suc i)\<rparr>)"
    if i: "i < 4096" for i
  proof -
    have d: "(of_nat i :: u64) < 4096" "unat (of_nat i :: u64) = i"
      using i by (simp_all add: word_less_nat_alt unat_of_nat)
    have "\<forall>x. page_of x \<in> vm_tables s \<longrightarrow> ?m i x = mem s x" using f(2) by auto
    from pt_tree_agree(3) [OF this r, of "path ptr" "offset_pte ptr"]
    have "pt_view (s\<lparr>mem := ?m i\<rparr>) ptr = pt_view s ptr" by (simp add: pt_view_def)
    then have view: "pt_view (s\<lparr>mem := ?m i\<rparr>) (ptr + of_nat i) = pt_view s ptr"
      using vpn_in_page [OF ptr(1) d(1)] by (simp add: pt_view_def vpn_eq_iff)
    have off: "(ptr + of_nat i) AND GET_FLAGS = of_nat i"
      using page_plus_or [OF ptr(1) d(1)] or_flags [OF ptr(1) d(1)] by simp
    have "x = f + of_nat i \<longleftrightarrow> page_of x = f \<and> unat (x - f) = i" for x
      using page_of_plus [OF fa d(1)] d(2)
      by (metis add_diff_cancel_left' diff_add_cancel add.commute word_unat_eq_iff)
    then have "(?m i)(f + of_nat i := v) = ?m (Suc i)" by (auto simp: fun_eq_iff less_Suc_eq)
    then show ?thesis
      by (simp add: vstore8_def walk_view flags_view view off fv)
  qed
  have "\<exists>t. foldM (\<lambda>i. vstore8 (ptr + of_nat i) v) [0..<4096] s = Some t \<and> t = s\<lparr>mem := ?m 4096\<rparr>"
    by (rule foldM_upt) (auto simp: step)
  moreover have "?m 4096 = (\<lambda>x. if page_of x = f then v else mem s x)"
    using page_offset [OF fa] by (auto simp: fun_eq_iff word_less_nat_alt)
  ultimately show ?thesis by (simp add: vmemset_def)
qed

lemma is_list_unique: "is_list nx p ps \<Longrightarrow> is_list nx p qs \<Longrightarrow> ps = qs"
  by (induction ps arbitrary: p qs; case_tac qs) auto

lemma kfree_unreferenced:
  assumes inv: "vm_inv s" and ptr: "page_aligned ptr" "get_flags ptr s AND 1 = 1"
    and f: "walk_page_table ptr s = frame_of n" "frame_of n \<notin> vm_tables s"
    and n: "0 < n" "n < unat (max_pages_available s)" "n \<notin> set (free_pages s)"
      "page_refs s (frame_of n) = Some 0" "0 < unat (pages_used s)"
  shows "\<exists>s'. kfree ptr s = Some s' \<and> free_list s' = Some n \<and>
     is_list (next_page s') (free_list s') (n # free_pages s) \<and>
     get_free_pages_count s' = get_free_pages_count s + 2 \<and>
     (\<forall>va. walk_page_table va s' = (if vpn va = vpn ptr then 0 else walk_page_table va s))"
proof -
  let ?m = "\<lambda>x. if page_of x = frame_of n then 0 else mem s x"
  let ?t = "s\<lparr>mem := ?m\<rparr>"
  let ?u = "update_max_pages 1 (give_page n ?t)"
  have nM: "n < MAX_PAGES" using n inv by (auto simp: vm_inv_def phys_inv_def)
  then have "frame_of n \<noteq> 0" using n(1) by (simp add: MAX_PAGES_def)
  note ms = vmemset_page [OF inv ptr f(1) [symmetric] f(2), of 0]
  have tree: "pt_tree ?m (cr3 s)" "tables ?m (cr3 s) = vm_tables s"
    "\<And>va. pt_view ?t va = pt_view s va"
    using pt_tree_agree [of "mem s" "cr3 s" ?m] inv f(2)
    by (auto simp: vm_inv_def pt_tree_def pt_view_def)
  let ?s = "remove_page_table_mapping ptr ?u"
  have u: "mem ?u = ?m" "cr3 ?u = cr3 s" by (simp_all add: update_max_pages_def give_page_def)
  have "pt_tree (mem ?u) (cr3 ?u)" using tree(1) by (simp only: u)
  note rm = remove_page_table_mapping_tree [OF this refl, of ptr]
  have run: "kfree ptr s = Some ?s"
    using ms \<open>frame_of n \<noteq> 0\<close> n(4) add_back_one_eq [OF nM, of ?t] f(1)
    by (simp add: kfree_def Let_def flush_tlb_def)
  have fp: "free_pages ?t = free_pages s" "phys_inv ?t" using inv by (simp_all add: vm_inv_def)
  have gp: "free_pages (give_page n ?t) = n # free_pages s" "phys_inv (give_page n ?t)"
    using give_page_inv [of ?t n] n inv by (simp_all add: vm_inv_def)
  have nx: "next_page ?s = next_page (give_page n ?t)" "free_list ?s = Some n"
    using rm(1) by (auto simp: next_page_def update_max_pages_def give_page_def fun_eq_iff)
  have "is_list (next_page ?s) (free_list ?s) (n # free_pages s)"
    using gp unfolding nx phys_inv_def by (simp add: give_page_def)
  moreover have "get_free_pages_count ?s = get_free_pages_count s + 2"
    using rm(1) by (auto simp: get_free_pages_count_def update_max_pages_def give_page_def)
  moreover have "walk_page_table va ?s = (if vpn va = vpn ptr then 0 else walk_page_table va s)" for va
    using rm(4) [of va] tree(3) [of va] u by (simp add: walk_view pt_view_def)
  ultimately show ?thesis using run nx(2) by blast
qed

text \<open>C13. With enough free pages, \<open>kmalloc\<close> returns the address of as many consecutive virtual
  pages as the request needs. They are mapped, present and writable for the kernel, to distinct frames that
  were free, are zero, and are neither free nor tables afterwards; no other virtual page
  changes.\<close>

theorem kmalloc_maps_fresh_pages:
  assumes "vm_inv s" "0 < pages_of b" "4 * pages_of b + 9 \<le> length (free_frames s)"
  shows "\<exists>ptr ps s'. kmalloc b s = Some (ptr, s') \<and> vm_inv s' \<and> length ps = pages_of b \<and>
     distinct ps \<and> set ps \<subseteq> set (free_frames s) \<and> set ps \<inter> (set (free_frames s') \<union> vm_tables s') = {} \<and>
     (\<forall>p \<in> set ps. page_data s' p = (\<lambda>_. 0)) \<and>
     (\<forall>i < pages_of b. walk_page_table (ptr + of_nat i * PAGE_SIZE) s' = ps ! i \<and>
        get_flags (ptr + of_nat i * PAGE_SIZE) s' = 3) \<and>
     (\<forall>va. (\<forall>i < pages_of b. vpn va \<noteq> vpn (ptr + of_nat i * PAGE_SIZE)) \<longrightarrow>
        walk_page_table va s' = walk_page_table va s \<and> get_flags va s' = get_flags va s)"
proof -
  from assms have "4 * pages_of b + 10 \<le> length (free_frames s) + 1" by simp
  from kmalloc_ok [OF assms(1,2) this] obtain ps s' where
    r: "kmalloc b s = Some (kernel_virtual_base s + hd ps, s')" "vm_inv s'" "length ps = pages_of b"
      "distinct ps" "set ps \<subseteq> set (free_frames s)" "set ps \<inter> (set (free_frames s') \<union> vm_tables s') = {}"
      "\<forall>p \<in> set ps. page_data s' p = (\<lambda>_. 0)"
      "\<forall>i < pages_of b. pt_view s' (kernel_virtual_base s + hd ps + of_nat i * PAGE_SIZE) = ps ! i OR 3"
      "\<forall>va. (\<forall>i < pages_of b. vpn va \<noteq> vpn (kernel_virtual_base s + hd ps + of_nat i * PAGE_SIZE)) \<longrightarrow>
        pt_view s' va = pt_view s va" by blast
  have "page_of (ps ! i OR 3) = ps ! i \<and> (ps ! i OR 3) AND GET_FLAGS = 3" if "i < pages_of b" for i
  proof -
    have "ps ! i \<in> set (free_frames s)" using r(3,5) that nth_mem by (metis subsetD)
    then have "page_aligned (ps ! i)" by (rule as.frames_page_aligned [OF assms(1)])
    then show ?thesis by (simp add: or_page or_flags)
  qed
  with r(8,9) r(1-7) show ?thesis
    by (intro exI [of _ "kernel_virtual_base s + hd ps"] exI [of _ ps] exI [of _ s'])
      (simp add: walk_view flags_view)
qed

theorem kmalloc_maps_fresh_pages_witness:
  "\<exists>ptr ps s'. kmalloc 5000 vm_small = Some (ptr, s') \<and> vm_inv s' \<and> length ps = 2 \<and> distinct ps \<and>
     (\<forall>i < 2. walk_page_table (ptr + of_nat i * PAGE_SIZE) s' = ps ! i)"
proof -
  have "pages_of 5000 = 2" by (simp add: pages_of_def)
  with kmalloc_maps_fresh_pages [OF vm_small_inv, of 5000] show ?thesis by fastforce
qed

text \<open>The kernel heap never shrinks: passing the address that \<open>kmalloc\<close> returned to \<open>kfree\<close>
  leaves the machine exactly as it is, because the page's reference count is 1 and \<open>kfree\<close>
  keeps every page with a positive count.\<close>

theorem kmalloc_kfree_leak:
  assumes "vm_inv s" "0 < pages_of b" "4 * pages_of b + 9 \<le> length (free_frames s)"
    and "kmalloc b s = Some (ptr, s')"
  shows "kfree ptr s' = Some s'"
proof -
  from assms have "4 * pages_of b + 10 \<le> length (free_frames s) + 1" by simp
  from kmalloc_ok [OF assms(1,2) this] assms(4) obtain ps where
    r: "ptr = kernel_virtual_base s + hd ps" "length ps = pages_of b" "set ps \<subseteq> set (free_frames s)"
      "\<forall>i < pages_of b. pt_view s' (kernel_virtual_base s + hd ps + of_nat i * PAGE_SIZE) = ps ! i OR 3"
      "\<forall>p \<in> set ps. page_data s' p = (\<lambda>_. 0) \<and> page_refs s' p = Some 1" by auto
  obtain p qs where ps: "ps = p # qs" using r(2) assms(2) by (cases ps) auto
  then have "page_aligned p" using r(3) as.frames_page_aligned [OF assms(1)] by auto
  then have "walk_page_table ptr s' = p"
    using r(4) [rule_format, of 0] assms(2) by (simp add: ps r(1) walk_view or_page)
  moreover have "page_refs s' p = Some 1" using r(5) ps by simp
  ultimately show ?thesis by (rule kfree_referenced) simp
qed

theorem kmalloc_kfree_leak_witness:
  "\<exists>ptr s'. kmalloc 5000 vm_small = Some (ptr, s') \<and> kfree ptr s' = Some s'"
proof -
  have p: "0 < pages_of 5000" "4 * pages_of 5000 + 9 \<le> length (free_frames vm_small)"
    by (simp_all add: pages_of_def)
  then have "4 * pages_of 5000 + 10 \<le> length (free_frames vm_small) + 1" by simp
  from kmalloc_ok [OF vm_small_inv p(1) this] obtain ptr s' where
    "kmalloc 5000 vm_small = Some (ptr, s')" by blast
  with kmalloc_kfree_leak [OF vm_small_inv p] show ?thesis by blast
qed

text \<open>C25. When \<open>kfree\<close> does release a page (a mapped one whose reference count is 0), it
  unmaps it and links it in front of the free list, but counts it twice: \<open>add_back_free_pages\<close>
  lowers the number of used pages and \<open>update_max_pages\<close> raises the number of available ones,
  so the allocator's invariant is lost.\<close>

theorem kfree_double_counts:
  assumes "vm_inv s" "page_aligned ptr" "get_flags ptr s AND 1 = 1"
    and "walk_page_table ptr s = frame_of n" "frame_of n \<notin> vm_tables s"
    and "0 < n" "n < unat (max_pages_available s)" "n \<notin> set (free_pages s)"
    and "page_refs s (frame_of n) = Some 0" "0 < unat (pages_used s)"
  shows "\<exists>s'. kfree ptr s = Some s' \<and> walk_page_table ptr s' = 0 \<and>
     is_list (next_page s') (free_list s') (n # free_pages s) \<and>
     get_free_pages_count s' = get_free_pages_count s + 2 \<and> \<not> phys_inv s'"
proof -
  from kfree_unreferenced [OF assms] obtain s' where
    s': "kfree ptr s = Some s'" "is_list (next_page s') (free_list s') (n # free_pages s)"
      "get_free_pages_count s' = get_free_pages_count s + 2" "walk_page_table ptr s' = 0" by auto
  have c: "length (free_pages s) = unat (get_free_pages_count s)" "length (free_pages s) \<le> MAX_PAGES"
    using assms(1) by (auto simp: vm_inv_def phys_inv_def)
  then have "unat (get_free_pages_count s + 2) = length (free_pages s) + 2"
    by (simp add: unat_word_ariths MAX_PAGES_def)
  moreover have "n # free_pages s = free_pages s'" if "phys_inv s'"
    using is_list_unique [OF s'(2)] that by (simp add: phys_inv_def)
  moreover have "length (free_pages s') = unat (get_free_pages_count s + 2)" if "phys_inv s'"
    using that by (simp add: phys_inv_def s'(3))
  ultimately have "\<not> phys_inv s'"
    by (metis add_right_imp_eq length_Cons n_not_Suc_n numeral_2_eq_2 add_Suc_right add_0_right)
  with s' show ?thesis by blast
qed

lemma vm_small_more:
  "max_pages_available vm_small = 41" "max_free_pages_available vm_small = 39"
  "page_refs vm_small (frame_of 40) = Some 0"
  by (simp_all add: vm_small_def phys_small_def phys_boot_def phys.defs vm.defs get_page_ref_count_def
      frame_of_def PAGE_SIZE_def MAX_PAGES_def)

theorem kfree_double_counts_witness:
  "\<exists>(s :: vm) s'. vm_inv s \<and> kfree 0x400000 s = Some s' \<and> walk_page_table 0x400000 s' = 0 \<and>
     get_free_pages_count s' = get_free_pages_count s + 2 \<and> \<not> phys_inv s'"
proof -
  obtain s where s: "vm_grow 3 vm_small s" "pt_view s 0x400000 = frame_of 40 OR 3"
    using update_page_tables_ok [OF vm_small_inv good_flags_consts(1), of "0x400000" "frame_of 40"]
    by (auto simp: PAGING_KERNEL_R_W_FLAGS_def)
  have a: "page_aligned (frame_of 40)" "page_aligned (0x400000 :: u64)"
    by (simp_all add: page_aligned_def GET_FLAGS_def frame_of_def PAGE_SIZE_def)
  have f: "frame_of 40 \<notin> vm_tables vm_small \<union> set (free_frames vm_small)"
    using vm_small_frame [of 40] by (simp add: frame_of_def PAGE_SIZE_def)
  have "\<exists>s'. kfree 0x400000 s = Some s' \<and> walk_page_table 0x400000 s' = 0 \<and>
     is_list (next_page s') (free_list s') (40 # free_pages s) \<and>
     get_free_pages_count s' = get_free_pages_count s + 2 \<and> \<not> phys_inv s'"
  proof (rule kfree_double_counts)
    show "vm_inv s" by (rule vm_growD(1) [OF s(1)])
    show "page_refs s (frame_of 40) = Some 0"  "frame_of 40 \<notin> vm_tables s"
      using vm_grow_untouched [OF s(1) a(1) f] by (simp_all add: untouched_def vm_small_more)
    show "40 \<notin> set (free_pages s)" using vm_growD(6) [OF s(1)] by auto
    show "walk_page_table 0x400000 s = frame_of 40" "get_flags 0x400000 s AND 1 = 1"
      using a s(2) by (simp_all add: walk_view flags_view or_page or_flags)
    have "max_free_pages_available s = 39" using s(1) by (simp add: vm_grow_def vm_small_more)
    moreover have "unat (max_free_pages_available s - pages_used s) \<le> 38"
      using vm_growD(1) [OF s(1)] card_mono [OF _ vm_growD(6) [OF s(1)]]
      by (simp add: vm_inv_def phys_inv_def get_free_pages_count_def distinct_card)
    ultimately show "0 < unat (pages_used s)" by (cases "pages_used s = 0") (auto simp: unat_gt_0)
  qed (use a s in \<open>auto simp: vm_grow_def vm_small_more\<close>)
  with vm_growD(1) [OF s(1)] show ?thesis by blast
qed

subsection \<open>The kernel's address space at boot\<close>

text \<open>The construction does not read CR3, so it can be followed with CR3 set to the new root.\<close>

lemma get_free_page_cr3:
  "get_free_page (s\<lparr>cr3 := c\<rparr>) = map_option (\<lambda>(p, t). (p, t\<lparr>cr3 := c\<rparr>)) (get_free_page (s :: 'a vm_scheme))"
  by (cases s, cases "page_ptr (free_list s)")
    (simp_all add: get_free_page_def get_free_pages_count_def set_page_ref_count_def Let_def)

lemma next_table_cr3:
  "next_table tbl i fl (s\<lparr>cr3 := c\<rparr>) = map_option (\<lambda>(p, t). (p, t\<lparr>cr3 := c\<rparr>)) (next_table tbl i fl s)"
  by (cases "get_free_page s")
    (auto simp: next_table_def kread_def kwrite_def Let_def get_free_page_cr3)

lemma map_from_cr3:
  "map_from p va pa fl (s\<lparr>cr3 := c\<rparr>) = map_option (\<lambda>t. t\<lparr>cr3 := c\<rparr>) (map_from p va pa fl s)"
  by (auto simp: map_from_def next_table_cr3 kwrite_def bind_map_option map_option_case split: option.splits bind_splits)

lemma setup_page_tables_ok:
  assumes "vm_inv (s\<lparr>cr3 := c\<rparr>)" "pml4_t s = kernel_virtual_base s + c" "good_flags fl"
    "12 \<le> length (free_pages s)"
  shows "\<exists>t. setup_page_tables va pa fl s = Some t \<and>
     vm_grow (if frame_at (mem s) c (path va) = None then 3 else 0) (s\<lparr>cr3 := c\<rparr>) (t\<lparr>cr3 := c\<rparr>) \<and>
     paths_kept (s\<lparr>cr3 := c\<rparr>) (t\<lparr>cr3 := c\<rparr>) \<and> frame_at (mem t) c (path va) \<noteq> None \<and>
     (\<forall>va'. pt_view (t\<lparr>cr3 := c\<rparr>) va' =
        (if vpn va' = vpn va then pa OR ucast fl else pt_view (s\<lparr>cr3 := c\<rparr>) va'))"
  using map_from_ok [OF assms(1,3), of va pa] assms(2,4)
  by (auto simp: setup_page_tables_def map_from_cr3)

text \<open>The state of the mapping loop after \<open>k\<close> pages.\<close>

definition boot_va :: "u64 \<Rightarrow> nat \<Rightarrow> u64" where
  "boot_va a j = a + of_nat j * PAGE_SIZE"

definition boot_inv :: "u64 \<Rightarrow> u64 \<Rightarrow> u64 \<Rightarrow> nat list \<Rightarrow> nat \<Rightarrow> 'a vm_scheme \<Rightarrow> bool" where
  "boot_inv c virt phys F k s \<longleftrightarrow> vm_inv (s\<lparr>cr3 := c\<rparr>) \<and> pml4_t s = kernel_virtual_base s + c \<and>
     (\<exists>n \<le> 3 * card ((\<lambda>j. path (boot_va virt j)) ` {..<k}). free_pages s = drop n F) \<and>
     (\<forall>j < k. frame_at (mem s) c (path (boot_va virt j)) \<noteq> None \<and>
        pt_view (s\<lparr>cr3 := c\<rparr>) (boot_va virt j) = boot_va phys j OR 3) \<and>
     (\<forall>va. (\<forall>j < k. vpn va \<noteq> vpn (boot_va virt j)) \<longrightarrow> pt_view (s\<lparr>cr3 := c\<rparr>) va = 0)"

lemma boot_step:
  assumes b: "boot_inv c virt phys F k s" and k: "k < 2 ^ 36" and avail: "12 \<le> length (free_pages s)"
  shows "\<exists>t. setup_page_tables (boot_va virt k) (boot_va phys k) PAGING_KERNEL_R_W_FLAGS s = Some t \<and>
     kernel_virtual_base t = kernel_virtual_base s \<and> boot_inv c virt phys F (Suc k) t"
proof -
  let ?va = "boot_va virt k" and ?P = "\<lambda>k. (\<lambda>j. path (boot_va virt j)) ` {..<k}"
  have f: "ucast PAGING_KERNEL_R_W_FLAGS = (3 :: u64)" by (simp add: PAGING_KERNEL_R_W_FLAGS_def)
  from b have i: "vm_inv (s\<lparr>cr3 := c\<rparr>)" "pml4_t s = kernel_virtual_base s + c" by (auto simp: boot_inv_def)
  from setup_page_tables_ok [OF i good_flags_consts(1) avail, of ?va "boot_va phys k"] obtain t where
    t: "setup_page_tables ?va (boot_va phys k) PAGING_KERNEL_R_W_FLAGS s = Some t"
      "vm_grow (if frame_at (mem s) c (path ?va) = None then 3 else 0) (s\<lparr>cr3 := c\<rparr>) (t\<lparr>cr3 := c\<rparr>)"
      "paths_kept (s\<lparr>cr3 := c\<rparr>) (t\<lparr>cr3 := c\<rparr>)" "frame_at (mem t) c (path ?va) \<noteq> None"
      "\<forall>va'. pt_view (t\<lparr>cr3 := c\<rparr>) va' =
        (if vpn va' = vpn ?va then boot_va phys k OR 3 else pt_view (s\<lparr>cr3 := c\<rparr>) va')"
    unfolding f by blast
  note g = vm_growD [OF t(2)]
  have P: "?P (Suc k) = insert (path ?va) (?P k)" by (auto simp: lessThan_Suc)
  obtain n where n: "n \<le> 3 * card (?P k)" "free_pages s = drop n F" using b by (auto simp: boot_inv_def)
  obtain i where i3: "i \<le> (if frame_at (mem s) c (path ?va) = None then 3 else 0)"
      "free_pages t = drop i (free_pages s)"
    using t(2) by (auto simp: vm_grow_def)
  have "i + n \<le> 3 * card (?P (Suc k))"
  proof (cases "path ?va \<in> ?P k")
    case True
    then have "frame_at (mem s) c (path ?va) \<noteq> None" using b by (auto simp: boot_inv_def)
    with True i3 n show ?thesis by (simp add: P insert_absorb)
  next
    case False
    then show ?thesis using i3 n by (simp add: P split: if_splits)
  qed
  then have "\<exists>n \<le> 3 * card (?P (Suc k)). free_pages t = drop n F" using i3(2) n(2) by auto
  moreover have "frame_at (mem t) c (path (boot_va virt j)) \<noteq> None" if "j < Suc k" for j
  proof (cases "j = k")
    case False
    with that b obtain g where "frame_at (mem s) c (path (boot_va virt j)) = Some g"
      by (auto simp: boot_inv_def less_Suc_eq)
    with paths_keptD [OF t(3), of "path (boot_va virt j)" g] show ?thesis by simp
  qed (use t(4) in simp)
  moreover have "vpn (boot_va virt j) \<noteq> vpn ?va" if "j < k" for j
    using that k vpn_page_inj [of virt j k] by (auto simp: boot_va_def)
  moreover have "pml4_t t = kernel_virtual_base t + c" "kernel_virtual_base t = kernel_virtual_base s"
    using g(2) i(2) by (simp_all add: same_regs_def)
  ultimately show ?thesis
    using t(1,5) g(1) b by (auto simp: boot_inv_def less_Suc_eq)
qed

text \<open>The pages of one 2 MiB block share their tables, so \<open>k\<close> consecutive pages need few paths.\<close>

lemma path_block: "drop_bit 21 a = drop_bit 21 b \<Longrightarrow> path a = path b"
proof -
  assume e: "drop_bit 21 a = drop_bit 21 b"
  have "drop_bit (9 + 21) a = drop_bit (9 + 21) b" "drop_bit (18 + 21) a = drop_bit (18 + 21) b"
    by (simp_all only: drop_bit_drop_bit [symmetric] e)
  with e show ?thesis by (simp add: path_def offset_pml4_def offset_pdpe_def offset_pde_def)
qed

lemma boot_va_block:
  "path (boot_va virt j) = path (of_nat ((unat virt + j * 4096) div 2 ^ 21 * 2 ^ 21))"
proof (rule path_block)
  have u: "unat (drop_bit 21 w) = unat w div 2 ^ 21" for w :: u64
    by (simp add: drop_bit_eq_div unat_div)
  have m: "(n mod 2 ^ 64) div 2 ^ 21 = (n div 2 ^ 21) mod 2 ^ 43" for n :: nat
    using div_mult2_eq by (simp add: mod_mult2_eq [of n "2 ^ 21" "2 ^ 43", simplified])
  have "unat (boot_va virt j) = (unat virt + j * 4096) mod 2 ^ 64"
    by (simp add: boot_va_def unat_word_ariths PAGE_SIZE_def unat_of_nat mod_simps)
  moreover have "unat (of_nat (k * 2 ^ 21) :: u64) div 2 ^ 21 = k mod 2 ^ 43" for k
    unfolding unat_of_nat using m [of "k * 2 ^ 21"] by simp
  ultimately show "drop_bit 21 (boot_va virt j) = drop_bit 21 (of_nat ((unat virt + j * 4096) div 2 ^ 21 * 2 ^ 21))"
    by (simp only: word_unat_eq_iff u m)
qed

lemma boot_paths_card: "card ((\<lambda>j. path (boot_va virt j)) ` {..<k}) \<le> k div 512 + 2"
proof -
  let ?q = "\<lambda>j. (unat virt + j * 4096) div 2 ^ 21" and ?h = "\<lambda>n. path (of_nat (n * 2 ^ 21))"
  let ?u = "unat virt div 2 ^ 21"
  have "(\<lambda>j. path (boot_va virt j)) ` {..<k} = ?h ` ?q ` {..<k}"
    by (simp only: boot_va_block image_image)
  moreover have "?q ` {..<k} \<subseteq> {?u..<?u + (k div 512 + 2)}"
  proof
    fix n assume "n \<in> ?q ` {..<k}"
    then obtain j where j: "j < k" "n = ?q j" by auto
    have "unat virt = ?u * 2 ^ 21 + unat virt mod 2 ^ 21" "unat virt mod 2 ^ 21 < 2 ^ 21" by simp_all
    moreover have "j * 4096 < (k div 512 + 1) * 2 ^ 21"
    proof -
      have "j < (k div 512 + 1) * 512" using j(1) by (simp add: dividend_less_div_times add.commute)
      then show ?thesis by simp
    qed
    ultimately have "unat virt + j * 4096 < (?u + (k div 512 + 2)) * 2 ^ 21"
      by (simp add: algebra_simps)
    then have "n < ?u + (k div 512 + 2)" unfolding j(2) by (rule less_mult_imp_div_less)
    moreover have "?u \<le> n" unfolding j(2) by (rule div_le_mono) simp
    ultimately show "n \<in> {?u..<?u + (k div 512 + 2)}" by simp
  qed
  ultimately show ?thesis
    using card_image_le [of "?q ` {..<k}" ?h] card_mono [of "{?u..<?u + (k div 512 + 2)}" "?q ` {..<k}"]
    by simp
qed

lemma boot_avail:
  assumes "boot_inv c virt phys F k s" "k \<le> N"
  shows "length F \<le> length (free_pages s) + 3 * (N div 512 + 2)"
proof -
  have "card ((\<lambda>j. path (boot_va virt j)) ` {..<k}) \<le> N div 512 + 2"
    using boot_paths_card [of virt k] div_le_mono [OF assms(2), of 512] by simp
  moreover obtain n where "n \<le> 3 * card ((\<lambda>j. path (boot_va virt j)) ` {..<k})" "free_pages s = drop n F"
    using assms(1) by (auto simp: boot_inv_def)
  ultimately show ?thesis by simp
qed

lemma map_physical_ok:
  assumes size: "unat physfree + length F * 4096 \<le> unat phys + N * 4096" "unat phys + N * 4096 < 2 ^ 48"
    and avail: "3 * (N div 512 + 2) + 12 \<le> length F"
  shows "boot_inv c virt phys F k s \<Longrightarrow> k \<le> N \<Longrightarrow>
     \<exists>s' k'. map_physical physfree (boot_va virt k) (boot_va phys k) s = Some s' \<and> k' \<le> N \<and>
       boot_inv c virt phys F k' s' \<and> kernel_virtual_base s' = kernel_virtual_base s \<and>
       unat physfree + length (free_pages s') * 4096 \<le> unat phys + k' * 4096"
proof (induction "N - k" arbitrary: k s rule: less_induct)
  case less
  let ?n = "length (free_pages s)"
  have inv: "phys_inv s" "?n \<le> length F" using less.prems(1) by (auto simp: boot_inv_def vm_inv_def)
  then have "unat (get_free_pages_count s) = ?n" by (simp add: phys_inv_def)
  then have lim: "unat (physfree + get_free_pages_count s * PAGE_SIZE) = unat physfree + ?n * 4096"
    using size inv(2) by (simp add: unat_word_ariths PAGE_SIZE_def)
  have pos: "unat (boot_va phys k) = unat phys + k * 4096"
    using size less.prems(2) by (simp add: boot_va_def unat_word_ariths PAGE_SIZE_def unat_of_nat)
  show ?case
  proof (cases "boot_va phys k < physfree + get_free_pages_count s * PAGE_SIZE")
    case False
    then have "map_physical physfree (boot_va virt k) (boot_va phys k) s = Some s"
      by (subst map_physical.simps) simp
    with False less.prems lim pos show ?thesis by (auto simp: word_less_nat_alt)
  next
    case True
    then have "unat phys + k * 4096 < unat physfree + ?n * 4096" using lim pos by (simp add: word_less_nat_alt)
    moreover have "?n * 4096 \<le> length F * 4096" using inv by simp
    ultimately have kN: "k < N" using size by linarith
    have "12 \<le> ?n" using boot_avail [OF less.prems(1) less.prems(2)] avail by simp
    moreover have "k < 2 ^ 36" using kN size by simp
    ultimately obtain t where t:
      "setup_page_tables (boot_va virt k) (boot_va phys k) PAGING_KERNEL_R_W_FLAGS s = Some t"
      "kernel_virtual_base t = kernel_virtual_base s" "boot_inv c virt phys F (Suc k) t"
      using boot_step [OF less.prems(1)] by blast
    have "map_physical physfree (boot_va virt k) (boot_va phys k) s =
       map_physical physfree (boot_va virt (Suc k)) (boot_va phys (Suc k)) t"
      using True t(1) by (subst map_physical.simps) (simp add: boot_va_def algebra_simps)
    with less.hyps [of "Suc k" t] kN t(2,3) show ?thesis by simp
  qed
qed

lemma tables_zero_page:
  assumes "page_aligned c" "zero_page m c"
  shows "pt_tree m c" "tables m c = {c}"
proof -
  have "frame_at m c is = (if is = [] then Some c else None)" if "indices is" for "is"
    using that assms by (cases "is") (simp_all add: zero_page_entry present_0)
  then show "pt_tree m c" "tables m c = {c}"
    using assms(1) by (auto simp: pt_tree_def tables_def split: if_splits intro: exI [of _ "[]"])
qed

text \<open>The state after the root has been allocated.\<close>

lemma boot_start:
  assumes inv: "phys_inv s" "\<forall>f \<in> set (free_frames s). zero_page (mem s) f"
    and avail: "10 \<le> length (free_pages s)"
  shows "\<exists>t. get_free_page s = Some (hd (free_frames s), t) \<and>
     boot_inv (hd (free_frames s)) virt phys (tl (free_pages s)) 0
       (t\<lparr>kernel_virtual_base := k, pml4_t := k + hd (free_frames s)\<rparr>)"
proof -
  obtain n ns where ps: "free_pages s = n # ns" using avail by (cases "free_pages s") auto
  note t = get_free_page_take [OF inv(1) avail ps]
  let ?c = "frame_of n" and ?t = "take_page n s"
  have ff: "free_frames s = ?c # free_frames ?t" by (simp add: free_frames_def ps t)
  have c: "page_aligned ?c" "zero_page (mem s) ?c"
    using inv fa.frames_page_aligned [OF inv(1)] by (simp_all add: ff)
  note z = tables_zero_page [OF c]
  have "?c \<notin> set (free_frames ?t)" using fa.frames_distinct [OF inv(1)] by (simp add: ff)
  then have "vm_inv (?t\<lparr>kernel_virtual_base := k, pml4_t := k + ?c, cr3 := ?c\<rparr>)"
    using z t(3) inv(2) by (auto simp: vm_inv_def ff)
  moreover have "pt_view (?t\<lparr>kernel_virtual_base := k, pml4_t := k + ?c, cr3 := ?c\<rparr>) va = 0" for va
    using c by (simp add: pt_view_def pte_val_def path_def zero_page_entry present_0)
  ultimately have "boot_inv ?c virt phys ns 0 (?t\<lparr>kernel_virtual_base := k, pml4_t := k + ?c\<rparr>)"
    using t(2) by (simp add: boot_inv_def)
  with t(1,2) ps show ?thesis by (simp add: ff)
qed

lemma boot_va_video:
  assumes "page_aligned physbase" "unat physbase + j * 4096 < 2 ^ 48"
    and v: "vpn (boot_va kernmem j) = vpn (kernmem - physbase + PHYS_VIDEO_MEM)"
  shows "boot_va physbase j = PHYS_VIDEO_MEM"
proof -
  define pb where "pb = unat (physbase div PAGE_SIZE)"
  have pb: "physbase = of_nat pb * PAGE_SIZE"
    using page_div_frame [OF assms(1)] by (simp add: pb_def frame_of_def)
  have V: "PHYS_VIDEO_MEM = of_nat 0xB8 * PAGE_SIZE" by (simp add: PHYS_VIDEO_MEM_def PAGE_SIZE_def)
  have "pb + j < 2 ^ 36" using assms(2) by (simp add: pb_def unat_page_div)
  moreover have "boot_va kernmem j = kernmem - physbase + of_nat (pb + j) * PAGE_SIZE"
    by (simp add: boot_va_def pb algebra_simps)
  ultimately have "pb + j = 0xB8"
    using v vpn_page_inj [of "kernmem - physbase" "pb + j" "0xB8"] by (simp only: V) simp
  then have "PHYS_VIDEO_MEM = of_nat (pb + j) * PAGE_SIZE" by (simp only: V)
  also have "\<dots> = boot_va physbase j" by (simp add: boot_va_def pb algebra_simps)
  finally show ?thesis by simp
qed

lemma init_paging_ok:
  assumes inv: "phys_inv s" "\<forall>f \<in> set (free_frames s). zero_page (mem s) f"
    and base: "page_aligned physbase"
      "unat physfree + (length (free_pages s) - 1) * 4096 \<le> unat physbase + N * 4096"
      "unat physbase + N * 4096 < 2 ^ 48"
    and avail: "3 * (N div 512 + 2) + 13 \<le> length (free_pages s)"
  shows "\<exists>s' K n. init_paging kernmem physbase physfree s = Some s' \<and> vm_inv s' \<and> K \<le> N \<and>
     kernel_virtual_base s' = kernmem - physbase \<and> cr3 s' = hd (free_frames s) \<and>
     free_pages s' = drop n (free_pages s) \<and> n < length (free_pages s) \<and> n \<le> 3 * (N div 512 + 2) + 4 \<and>
     unat physfree + length (free_pages s') * 4096 \<le> unat physbase + K * 4096 \<and>
     (\<forall>j < K. pt_view s' (boot_va kernmem j) = boot_va physbase j OR 3) \<and>
     pt_view s' (kernmem - physbase + PHYS_VIDEO_MEM) = PHYS_VIDEO_MEM OR 3 \<and>
     (\<forall>va. vpn va \<noteq> vpn (kernmem - physbase + PHYS_VIDEO_MEM) \<longrightarrow> (\<forall>j < K. vpn va \<noteq> vpn (boot_va kernmem j)) \<longrightarrow>
        pt_view s' va = 0)"
proof -
  let ?k = "kernmem - physbase" and ?c = "hd (free_frames s)" and ?F = "tl (free_pages s)"
  let ?V = PHYS_VIDEO_MEM
  have a10: "10 \<le> length (free_pages s)" using avail by simp
  from boot_start [OF inv a10, of kernmem physbase ?k] obtain t where
    t: "get_free_page s = Some (?c, t)" and
    b: "boot_inv ?c kernmem physbase ?F 0 (t\<lparr>kernel_virtual_base := ?k, pml4_t := ?k + ?c\<rparr>)" by blast
  let ?t = "t\<lparr>kernel_virtual_base := ?k, pml4_t := ?k + ?c\<rparr>"
  have "unat physfree + length ?F * 4096 \<le> unat physbase + N * 4096" "3 * (N div 512 + 2) + 12 \<le> length ?F"
    using base(2) avail by simp_all
  from map_physical_ok [OF this(1) base(3) this(2) b] obtain u K where
    u: "map_physical physfree kernmem physbase ?t = Some u" "K \<le> N" "boot_inv ?c kernmem physbase ?F K u"
      "kernel_virtual_base u = ?k" "unat physfree + length (free_pages u) * 4096 \<le> unat physbase + K * 4096"
    by (auto simp: boot_va_def)
  have ui: "vm_inv (u\<lparr>cr3 := ?c\<rparr>)" "pml4_t u = kernel_virtual_base u + ?c" using u(3) by (auto simp: boot_inv_def)
  have u12: "12 \<le> length (free_pages u)" using boot_avail [OF u(3,2)] avail by simp
  from setup_page_tables_ok [OF ui good_flags_consts(1) u12, of "?k + ?V" ?V] obtain v where
    v: "setup_page_tables (?k + ?V) ?V PAGING_KERNEL_R_W_FLAGS u = Some v"
      "vm_grow (if frame_at (mem u) ?c (path (?k + ?V)) = None then 3 else 0) (u\<lparr>cr3 := ?c\<rparr>) (v\<lparr>cr3 := ?c\<rparr>)"
      "\<forall>va'. pt_view (v\<lparr>cr3 := ?c\<rparr>) va' = (if vpn va' = vpn (?k + ?V) then ?V OR 3 else pt_view (u\<lparr>cr3 := ?c\<rparr>) va')"
    by (auto simp: PAGING_KERNEL_R_W_FLAGS_def)
  let ?s = "v\<lparr>cr3 := ?c\<rparr>"
  note g = vm_growD [OF v(2)]
  have run: "init_paging kernmem physbase physfree s = Some ?s"
    using t u(1,4) v(1) by (simp add: init_paging_def set_new_cr3_def Let_def)
  have view: "pt_view ?s (boot_va kernmem j) = boot_va physbase j OR 3" if "j < K" for j
    using that v(3) boot_va_video [OF base(1), of j kernmem] base(3) u(2,3) by (auto simp: boot_inv_def)
  have "vm_grow 3 (u\<lparr>cr3 := ?c\<rparr>) ?s" using v(2) by (rule vm_grow_mono) simp
  then obtain m where m: "free_pages ?s = drop m (free_pages u)" "m \<le> 3" by (auto simp: vm_grow_def)
  obtain l where l: "free_pages u = drop l ?F" using u(3) by (auto simp: boot_inv_def)
  have n: "free_pages ?s = drop (m + l + 1) (free_pages s)" "m + l + 1 < length (free_pages s)"
      "m + l + 1 \<le> 3 * (N div 512 + 2) + 4"
    using m l u12 boot_avail [OF u(3,2)] by (simp_all add: drop_Suc)
  have "unat physfree + length (free_pages ?s) * 4096 \<le> unat physbase + K * 4096" using m(1) u(5) by simp
  moreover have "pt_view ?s va = 0"
    if "vpn va \<noteq> vpn (?k + ?V)" "\<forall>j < K. vpn va \<noteq> vpn (boot_va kernmem j)" for va
    using that v(3) u(3) by (auto simp: boot_inv_def)
  ultimately show ?thesis
    using run g(1,4) u(2,4) v(3) n view by (intro exI [of _ ?s] exI [of _ K] exI [of _ "m + l + 1"]) simp
qed



text \<open>The loop bound of \<open>init_paging\<close> shrinks while the loop allocates tables, so the last
  free page is left out of the direct map although it stays on the free list.\<close>

theorem init_paging_last_page_unmapped:
  assumes "phys_inv s" "\<forall>f \<in> set (free_frames s). zero_page (mem s) f"
    and "free_pages s = [pn..<M]" "physfree = frame_of pn" "physbase = frame_of pb" "pb \<le> pn"
      "0xB9 < M" "M \<le> MAX_PAGES" "pn + 3 * (M div 512 + 2) + 13 \<le> M"
  shows "\<exists>s'. init_paging kernmem physbase physfree s = Some s' \<and>
     frame_of (M - 1) \<in> set (free_frames s') \<and>
     walk_page_table (kernel_virtual_base s' + frame_of (M - 1)) s' = 0 \<and>
     get_flags (kernel_virtual_base s' + frame_of (M - 1)) s' = 0"
proof -
  have M: "M < 2 ^ 36" using assms(8) by (simp add: MAX_PAGES_def)
  have b: "page_aligned physbase" "unat physbase + (M - 1 - pb) * 4096 < 2 ^ 48"
    "unat physfree + (length (free_pages s) - 1) * 4096 \<le> unat physbase + (M - 1 - pb) * 4096"
    using assms M by (auto simp: unat_frame_of algebra_simps)
  have a: "3 * ((M - 1 - pb) div 512 + 2) + 13 \<le> length (free_pages s)"
  proof -
    have "(M - 1 - pb) div 512 \<le> M div 512" by (rule div_le_mono) simp
    then show ?thesis using assms(3,9) by simp
  qed
  from init_paging_ok [OF assms(1,2) b(1,3,2) a, of kernmem] obtain s' K n where
    r: "init_paging kernmem physbase physfree s = Some s'" "K \<le> M - 1 - pb"
      "kernel_virtual_base s' = kernmem - physbase"
      "free_pages s' = drop n (free_pages s)" "n < length (free_pages s)"
      "\<forall>va. vpn va \<noteq> vpn (kernmem - physbase + PHYS_VIDEO_MEM) \<longrightarrow> (\<forall>j < K. vpn va \<noteq> vpn (boot_va kernmem j)) \<longrightarrow>
        pt_view s' va = 0" by blast
  let ?va = "kernel_virtual_base s' + frame_of (M - 1)"
  have V: "PHYS_VIDEO_MEM = of_nat 0xB8 * PAGE_SIZE" by (simp add: PHYS_VIDEO_MEM_def PAGE_SIZE_def)
  have other: "vpn ?va \<noteq> vpn (kernmem - physbase + of_nat i * PAGE_SIZE)" if "i < M - 1" for i
  proof
    assume "vpn ?va = vpn (kernmem - physbase + of_nat i * PAGE_SIZE)"
    then have "M - 1 = i"
      unfolding r(3) frame_of_def by (rule vpn_page_inj) (use M that in simp_all)
    with that show False by simp
  qed
  have "vpn ?va \<noteq> vpn (kernmem - physbase + PHYS_VIDEO_MEM)"
    unfolding V by (rule other) (use assms(7) in simp)
  moreover have "vpn ?va \<noteq> vpn (boot_va kernmem j)" if "j < K" for j
  proof -
    have "boot_va kernmem j = kernmem - physbase + of_nat (pb + j) * PAGE_SIZE"
      by (simp add: boot_va_def assms(5) frame_of_def algebra_simps)
    with other [of "pb + j"] that r(2) show ?thesis by simp
  qed
  ultimately have "pt_view s' ?va = 0" using r(6) by blast
  moreover have "M - 1 \<in> set (free_pages s')"
    using r(4,5) assms(3) by simp
  ultimately show ?thesis
    using r(1) by (intro exI [of _ s']) (simp add: walk_view flags_view free_frames_def)
qed

definition vm_boot :: vm where
  "vm_boot = phys.extend phys_boot (vm.fields 0 0 0)"

theorem init_paging_last_page_unmapped_witness:
  "\<exists>s s'. init_physical_memory (frame_of 2) 0 0xC8000 vm_boot = Some s \<and>
     init_paging 0xFFFFFFFF80001000 (frame_of 1) (frame_of 2) s = Some s' \<and>
     frame_of 199 \<in> set (free_frames s') \<and>
     walk_page_table (kernel_virtual_base s' + frame_of 199) s' = 0"
proof -
  have b: "mem vm_boot = (\<lambda>_. 0)" "pages_used vm_boot = 0" "\<And>i. pp_next (page_descriptor vm_boot i) = None"
    by (simp_all add: vm_boot_def phys_boot_def phys.defs vm.defs)
  have "\<exists>s. init_physical_memory (frame_of 2) 0 0xC8000 vm_boot = Some s \<and> phys_inv s \<and>
     free_pages s = [2..<200] \<and>
     mem s = (\<lambda>x. if unat (x - frame_of 2) < (200 - 2) * 512 then 0 else mem vm_boot x)"
    by (rule init_physical_memory_free_list) (simp_all add: b MAX_PAGES_def)
  then obtain s where s: "init_physical_memory (frame_of 2) 0 0xC8000 vm_boot = Some s" "phys_inv s"
    "free_pages s = [2..<200]" "\<forall>x. mem s x = 0" using b(1) by fastforce
  have "\<forall>f \<in> set (free_frames s). zero_page (mem s) f" by (simp add: s(4) zero_page_def)
  from init_paging_last_page_unmapped [OF s(2) this s(3) refl refl, of 1 "0xFFFFFFFF80001000"] s(1)
  show ?thesis by (auto simp: MAX_PAGES_def simp del: upt_rec_numeral)
qed

end
