(* ===== verification/Cow.thy ===== *)
theory Cow
  imports Kernel_Heap
begin

text \<open>
  Copy on write, \<open>cow_page_tables\<close> of \<^verbatim>\<open>sys/paging.c\<close>: the child's tables are copies of the
  parent's user half, down to the leaf entries, which both lose the write permission and get the
  copy-on-write flag. The four nested loops are one definition per level.
\<close>

subsection \<open>Operations\<close>

definition cow_leaf :: "u64 \<Rightarrow> u64 \<Rightarrow> nat \<Rightarrow> 'a vm_scheme \<Rightarrow> 'a vm_scheme option" where
  "cow_leaf child_pte parent_pte l s =
     (let pa = parent_pte + 8 * of_nat l; ca = child_pte + 8 * of_nat l
      in if kread pa s AND 1 = 1 then do {
           let s = kwrite pa (kread pa s AND TURN_OFF_RW) s;
           let s = kwrite pa (kread pa s OR COW_FLAG) s;
           let s = kwrite ca (kread pa s) s;
           let physical_addr = kread pa s AND MASK;
           refs \<leftarrow> get_page_ref_count physical_addr s;
           if refs = 1 then set_page_ref_count physical_addr 2 s else Some s
         }
         else Some s)"

text \<open>One entry of an inner level: allocate the child's table, link it with the parent's
  flags, and run \<open>below\<close> on the two tables underneath.\<close>

definition cow_entry ::
    "(u64 \<Rightarrow> u64 \<Rightarrow> 'a vm_scheme \<Rightarrow> 'a vm_scheme option) \<Rightarrow> u64 \<Rightarrow> u64 \<Rightarrow> nat \<Rightarrow>
     'a vm_scheme \<Rightarrow> 'a vm_scheme option" where
  "cow_entry below child parent i s =
     (let pa = parent + 8 * of_nat i; ca = child + 8 * of_nat i
      in if kread pa s AND 1 = 1 then do {
           (p, s) \<leftarrow> get_free_page s;
           let s = kwrite ca (p OR (kread pa s AND GET_FLAGS)) s;
           below (kernel_virtual_base s + p) (kernel_virtual_base s + (kread pa s AND MASK)) s
         }
         else Some s)"

definition cow_pte_table :: "u64 \<Rightarrow> u64 \<Rightarrow> 'a vm_scheme \<Rightarrow> 'a vm_scheme option" where
  "cow_pte_table child_pte parent_pte s = foldM (cow_leaf child_pte parent_pte) [0..<512] s"

definition cow_pde_table :: "u64 \<Rightarrow> u64 \<Rightarrow> 'a vm_scheme \<Rightarrow> 'a vm_scheme option" where
  "cow_pde_table child_pde parent_pde s =
     foldM (cow_entry cow_pte_table child_pde parent_pde) [0..<512] s"

definition cow_pdpe_table :: "u64 \<Rightarrow> u64 \<Rightarrow> 'a vm_scheme \<Rightarrow> 'a vm_scheme option" where
  "cow_pdpe_table child_pdpe parent_pdpe s =
     foldM (cow_entry cow_pde_table child_pdpe parent_pdpe) [0..<512] s"

definition cow_page_tables :: "'a vm_scheme \<Rightarrow> (u64 \<times> 'a vm_scheme) option" where
  "cow_page_tables s = do {
     (child_cr3, s) \<leftarrow> get_free_page s;
     let child_pml4 = child_cr3 + kernel_virtual_base s;
     let parent_pml4 = get_cr3 s + kernel_virtual_base s;
     let s = kwrite (child_pml4 + 8 * 511) (kread (parent_pml4 + 8 * 511) s) s;
     s \<leftarrow> foldM (cow_entry cow_pdpe_table child_pml4 parent_pml4) [0..<511] s;
     Some (child_cr3, s)
   }"

end
