(* ===== verification/C_String.thy ===== *)
theory C_String
  imports Snow_Prelude
begin

text \<open>
  The kernel's string library, \<^verbatim>\<open>sys/string.c\<close>, and \<open>memcpy\<close> of \<^verbatim>\<open>sys/defs.c\<close>.

  A pointer to \<open>char\<close> is the list of the characters from the pointer to the end of its object,
  so running off the end of the list is a read or write outside the object: it has no defined
  continuation and the operation is \<^const>\<open>None\<close>. Source and destination are distinct
  objects. A C \<open>char\<close> is signed (\<open>schar\<close>); an \<open>int\<close> is a 32-bit word read with \<open>sint\<close>,
  so that overflow wraps as in the generated code.
\<close>

subsection \<open>Buffers\<close>

abbreviation NUL :: char where
  "NUL \<equiv> CHR 0x00"

definition schar :: "char \<Rightarrow> int" where
  "schar c = (let n = int (of_char c) in if n < 128 then n else n - 256)"

definition buf_write :: "char list \<Rightarrow> int \<Rightarrow> char \<Rightarrow> char list option" where
  "buf_write buf i c = (if 0 \<le> i \<and> i < int (length buf) then Some (buf[nat i := c]) else None)"

fun cstr :: "char list \<Rightarrow> char list option" where
  "cstr [] = None"
| "cstr (c # cs) = (if c = NUL then Some [] else map_option (Cons c) (cstr cs))"

subsection \<open>Operations\<close>

fun copy_loop :: "char list \<Rightarrow> char list \<Rightarrow> char list option" where
  "copy_loop s [] = None"
| "copy_loop [] (c # cs) = None"
| "copy_loop (d # ds) (c # cs) =
     (if c \<noteq> NUL then map_option (Cons c) (copy_loop ds cs) else Some (NUL # ds))"

fun strcat :: "char list \<Rightarrow> char list \<Rightarrow> char list option" where
  "strcat [] s2 = None"
| "strcat (c # cs) s2 =
     (if c \<noteq> NUL then map_option (Cons c) (strcat cs s2) else copy_loop (c # cs) s2)"

fun kstrcmp :: "char list \<Rightarrow> char list \<Rightarrow> int option" where
  "kstrcmp (c # cs) (d # ds) =
     (if c \<noteq> NUL \<and> d \<noteq> NUL \<and> c = d then kstrcmp cs ds else Some (schar c - schar d))"
| "kstrcmp _ _ = None"

text \<open>The loop of \<open>atoi\<close>: \<^term>\<open>Inl\<close> of the early return, \<^term>\<open>Inr\<close> of the accumulated value.\<close>

fun atoi_loop :: "u32 \<Rightarrow> char list \<Rightarrow> (unit + u32) option" where
  "atoi_loop ans [] = None"
| "atoi_loop ans (c # cs) =
     (if c = NUL then Some (Inr ans)
      else if schar c \<ge> 48 \<and> schar c \<le> 57
      then atoi_loop (ans * 10 + of_int (schar c) - 48) cs
      else Some (Inl ()))"

definition atoi_sign :: "char list \<Rightarrow> (u32 \<times> char list) option" where
  "atoi_sign str =
     (case str of [] \<Rightarrow> None
      | c # cs \<Rightarrow> Some (if c = CHR ''-'' then (- 1, cs) else if c = CHR ''+'' then (1, cs) else (1, str)))"

definition atoi :: "char list \<Rightarrow> int option" where
  "atoi str = do {
     (sign, str) \<leftarrow> atoi_sign str;
     r \<leftarrow> atoi_loop 0 str;
     Some (case r of Inl _ \<Rightarrow> 0 | Inr ans \<Rightarrow> sint (ans * sign))
   }"

fun n_digits :: "nat \<Rightarrow> nat" where
  "n_digits bkup = (if bkup = 0 then 0 else n_digits (bkup div 10) + 1)"

declare n_digits.simps [simp del]

fun put_digits :: "nat \<Rightarrow> int \<Rightarrow> char list \<Rightarrow> (int \<times> char list) option" where
  "put_digits numCopy i buf = do {
     buf \<leftarrow> buf_write buf i (char_of (48 + numCopy mod 10));
     if numCopy div 10 \<noteq> 0 then put_digits (numCopy div 10) (i - 1) buf else Some (i - 1, buf)
   }"

declare put_digits.simps [simp del]

definition itoa :: "char list \<Rightarrow> int \<Rightarrow> char list option" where
  "itoa buf val =
     (if val = 0 then Option.bind (buf_write buf 0 (CHR ''0'')) (\<lambda>buf. buf_write buf 1 NUL)
      else do {
        let i = int (n_digits (nat \<bar>val\<bar>)) + (if val < 0 then 1 else 0);
        buf \<leftarrow> buf_write buf i NUL;
        (i, buf) \<leftarrow> put_digits (nat \<bar>val\<bar>) (i - 1) buf;
        if val < 0 then buf_write buf i (CHR ''-'') else Some buf
      })"

primrec pow_loop :: "int \<Rightarrow> nat \<Rightarrow> u64 \<Rightarrow> u64" where
  "pow_loop a 0 ans = ans"
| "pow_loop a (Suc b) ans = pow_loop a b (ans * of_int a)"

definition pow :: "int \<Rightarrow> int \<Rightarrow> u64 option" where
  "pow a b = (if b < 0 then None else Some (pow_loop a (nat b) 1))"

fun o_to_d_loop :: "nat \<Rightarrow> nat \<Rightarrow> u32 \<Rightarrow> u32" where
  "o_to_d_loop n i ans =
     (if n > 0
      then o_to_d_loop (n div 10) (i + 1) (ucast (ucast ans + of_nat (n mod 10) * pow_loop 8 i 1))
      else ans)"

declare o_to_d_loop.simps [simp del]

definition o_to_d :: "int \<Rightarrow> int" where
  "o_to_d n = sint (o_to_d_loop (nat n) 0 0)"

fun strlen_loop :: "char list \<Rightarrow> u64 \<Rightarrow> u64 option" where
  "strlen_loop [] len = None"
| "strlen_loop (c # cs) len = (if c \<noteq> NUL then strlen_loop cs (len + 1) else Some len)"

text \<open>The argument is a pointer that may be \<open>NULL\<close>.\<close>

definition strlen :: "char list option \<Rightarrow> u64 option" where
  "strlen s = (case s of None \<Rightarrow> Some 0 | Some cs \<Rightarrow> strlen_loop cs 0)"

definition strcpy :: "char list \<Rightarrow> char list \<Rightarrow> char list option" where
  "strcpy dest src = copy_loop dest src"

fun memcpy :: "char list \<Rightarrow> char list \<Rightarrow> nat \<Rightarrow> char list option" where
  "memcpy dest src 0 = Some dest"
| "memcpy (d # ds) (c # cs) (Suc n) = map_option (Cons c) (memcpy ds cs n)"
| "memcpy _ _ (Suc n) = None"

subsection \<open>Strings in buffers\<close>

lemma cstr_append: "NUL \<notin> set xs \<Longrightarrow> cstr (xs @ NUL # ys) = Some xs"
  by (induction xs) auto

lemma cstr_SomeD: "cstr s = Some xs \<Longrightarrow> \<exists>ys. s = xs @ NUL # ys \<and> NUL \<notin> set xs"
  by (induction s arbitrary: xs) (auto split: if_splits)

lemma copy_loop_text:
  "NUL \<notin> set xs \<Longrightarrow> copy_loop dest (xs @ NUL # ys) =
     (if length xs < length dest then Some (xs @ NUL # drop (Suc (length xs)) dest) else None)"
proof (induction xs arbitrary: dest)
  case Nil
  then show ?case by (cases dest) auto
next
  case (Cons c xs)
  then show ?case by (cases dest) auto
qed

lemma strcat_text:
  "NUL \<notin> set xs \<Longrightarrow> strcat (xs @ NUL # r) s2 = map_option ((@) xs) (copy_loop (NUL # r) s2)"
  by (induction xs; cases "copy_loop (NUL # r) s2") auto

lemma strlen_loop_text: "NUL \<notin> set xs \<Longrightarrow> strlen_loop (xs @ NUL # r) n = Some (n + of_nat (length xs))"
  by (induction xs arbitrary: n) (auto simp: algebra_simps)

lemma of_char_bound: "of_char c < (256 :: nat)"
  using range_nat_of_char by (metis atLeastLessThan_iff rangeI)

lemma schar_inj: "schar c = schar d \<longleftrightarrow> c = d"
proof -
  have "int (of_char c) < 256" "int (of_char d) < 256"
    using of_char_bound [of c] of_char_bound [of d] by linarith+
  then have "schar c = schar d \<Longrightarrow> int (of_char c) = int (of_char d)"
    unfolding schar_def Let_def
    by (cases "int (of_char c) < 128"; cases "int (of_char d) < 128") (simp only: if_True if_False; linarith)+
  then show ?thesis by (auto simp: of_char_eq_iff)
qed

lemma schar_cases: "c \<noteq> d \<Longrightarrow> schar c < schar d \<or> schar d < schar c"
  using schar_inj [of c d] by linarith

lemma kstrcmp_text:
  "NUL \<notin> set xs \<Longrightarrow> NUL \<notin> set ys \<Longrightarrow> \<exists>r. kstrcmp (xs @ NUL # r1) (ys @ NUL # r2) = Some r \<and>
     (r = 0 \<longleftrightarrow> xs = ys) \<and>
     (r < 0 \<longleftrightarrow> ord_class.lexordp (map schar (xs @ [NUL])) (map schar (ys @ [NUL])))"
proof (induction xs arbitrary: ys)
  case Nil
  then show ?case by (cases ys) (auto simp: schar_inj dest: schar_cases)
next
  case (Cons c xs)
  then show ?case by (cases ys) (auto simp: schar_inj dest: schar_cases)
qed

subsection \<open>Decimal text\<close>

fun dec :: "nat \<Rightarrow> char list" where
  "dec n = (if n < 10 then [char_of (48 + n)] else dec (n div 10) @ [char_of (48 + n mod 10)])"

declare dec.simps [simp del]

definition int_text :: "int \<Rightarrow> char list" where
  "int_text v = (if v < 0 then CHR ''-'' # dec (nat \<bar>v\<bar>) else dec (nat \<bar>v\<bar>))"

lemma dec_not_empty [simp]: "dec n \<noteq> []"
  by (subst dec.simps) simp

lemma length_dec: "0 < n \<Longrightarrow> length (dec n) = n_digits n"
proof (induction n rule: dec.induct)
  case (1 n)
  then show ?case
    by (subst dec.simps, subst n_digits.simps) (auto simp: n_digits.simps [of 0])
qed

lemma put_digits_dec:
  "k < length buf \<Longrightarrow> length (dec n) \<le> Suc k \<Longrightarrow>
   put_digits n (int k) buf = Some (int k - int (length (dec n)),
     take (Suc k - length (dec n)) buf @ dec n @ drop (Suc k) buf)"
proof (induction n arbitrary: k buf rule: dec.induct)
  case (1 n)
  show ?case
  proof (cases "n < 10")
    case True
    with 1 show ?thesis
      by (subst put_digits.simps) (simp add: dec.simps [of n] buf_write_def upd_conv_take_nth_drop)
  next
    case False
    let ?c = "char_of (48 + n mod 10)"
    have d: "dec n = dec (n div 10) @ [?c]" using False by (subst dec.simps) simp
    have "0 < length (dec (n div 10))" by simp
    with 1(3) d obtain j where k: "k = Suc j" by (cases k) auto
    have "put_digits (n div 10) (int j) (buf[k := ?c]) = Some (int j - int (length (dec (n div 10))),
      take (Suc j - length (dec (n div 10))) (buf[k := ?c]) @ dec (n div 10) @ drop (Suc j) (buf[k := ?c]))"
      using 1 False d k by simp
    moreover have "drop (Suc j) (buf[k := ?c]) = ?c # drop (Suc k) buf"
      using 1(2) k by (simp add: upd_conv_take_nth_drop)
    ultimately show ?thesis
      using 1(2) False d k
      by (subst put_digits.simps) (simp add: buf_write_def nat_add_distrib div_greater_zero_iff)
  qed
qed

subsection \<open>Writing and reading decimal numbers\<close>

lemma char_of_48: "char_of (48 :: nat) = CHR ''0''"
  by code_simp

lemma itoa_text:
  "itoa buf v = (if length (int_text v) < length buf
     then Some (int_text v @ NUL # drop (Suc (length (int_text v))) buf) else None)"
proof (cases "v = 0")
  case True
  show ?thesis
  proof (cases buf)
    case (Cons a cs)
    then show ?thesis using True
      by (cases cs) (auto simp: itoa_def buf_write_def int_text_def dec.simps [of 0] char_of_48)
  qed (simp add: True itoa_def buf_write_def)
next
  case False
  let ?n = "nat \<bar>v\<bar>" and ?k = "length (int_text v)"
  have n: "length (dec ?n) = n_digits ?n" using False by (intro length_dec) simp
  then have k: "int (n_digits ?n) + (if v < 0 then 1 else 0) = int ?k"
    by (cases "v < 0") (simp_all add: int_text_def)
  show ?thesis
  proof (cases "?k < length buf")
    case True
    define j where "j = ?k - 1"
    have "0 < ?k" by (simp add: int_text_def)
    then have j: "int ?k - 1 = int j" "Suc j = ?k" unfolding j_def by linarith+
    let ?b = "buf[?k := NUL]"
    have "put_digits ?n (int j) ?b = Some (int j - int (length (dec ?n)),
        take (Suc j - length (dec ?n)) ?b @ dec ?n @ drop (Suc j) ?b)"
      using True j by (intro put_digits_dec) (auto simp: int_text_def split: if_splits)
    moreover have "drop ?k ?b = NUL # drop (Suc ?k) buf"
      using True by (simp add: upd_conv_take_nth_drop)
    ultimately show ?thesis
      using True False j k
      by (cases buf) (auto simp: itoa_def buf_write_def Let_def int_text_def)
  next
    case False
    then show ?thesis using \<open>v \<noteq> 0\<close> k by (simp add: itoa_def buf_write_def Let_def)
  qed
qed

lemma schar_digit: "d < 10 \<Longrightarrow> schar (char_of (48 + d)) = 48 + int d"
  by (simp add: schar_def of_char_of Let_def)

lemma digit_not_special:
  fixes d :: nat
  assumes "d < 10"
  shows "char_of (48 + d) \<noteq> NUL" "char_of (48 + d) \<noteq> CHR ''-''" "char_of (48 + d) \<noteq> CHR ''+''"
proof -
  have "schar NUL = 0" "schar CHR ''-'' = 45" "schar CHR ''+'' = 43" by (simp_all add: schar_def)
  then show "char_of (48 + d) \<noteq> NUL" "char_of (48 + d) \<noteq> CHR ''-''" "char_of (48 + d) \<noteq> CHR ''+''"
    using schar_digit [OF assms] by (metis add_nonneg_eq_0_iff of_nat_0_le_iff zero_le_numeral zero_neq_numeral,
      fastforce, fastforce)
qed

lemma atoi_loop_dec:
  "atoi_loop a (dec n @ r) = atoi_loop (a * 10 ^ length (dec n) + of_nat n) r"
proof (induction n arbitrary: a r rule: dec.induct)
  case (1 n)
  show ?case
  proof (cases "n < 10")
    case True
    then show ?thesis
      using digit_not_special [OF True] schar_digit [OF True]
      by (simp add: dec.simps [of n])
  next
    case False
    let ?c = "char_of (48 + n mod 10)"
    have d: "dec n = dec (n div 10) @ [?c]" using False by (subst dec.simps) simp
    have m: "n mod 10 < 10" "n mod 10 \<le> 9" by simp_all
    have "of_nat n = (of_nat (n div 10) * 10 + of_nat (n mod 10) :: u32)"
      by (metis div_mult_mod_eq of_nat_add of_nat_mult of_nat_numeral)
    then show ?thesis
      using digit_not_special [OF m(1)] schar_digit [OF m(1)] m(2) 1 [OF False, of a "?c # r"]
      by (simp add: d algebra_simps)
  qed
qed

lemma dec_first: "\<exists>(d :: nat) cs. d < 10 \<and> dec n = char_of (48 + d) # cs"
proof (induction n rule: dec.induct)
  case (1 n)
  show ?case
  proof (cases "n < 10")
    case True
    then show ?thesis by (subst dec.simps) auto
  next
    case False
    then show ?thesis using 1 [OF False] by (metis dec.simps append_Cons)
  qed
qed

lemma atoi_int_text:
  assumes "- (2 ^ 31) \<le> v" "v < 2 ^ 31"
  shows "atoi (int_text v @ NUL # r) = Some v"
proof -
  let ?n = "nat \<bar>v\<bar>"
  have l: "atoi_loop 0 (dec ?n @ NUL # r) = Some (Inr (of_nat ?n))" by (simp add: atoi_loop_dec)
  obtain d :: nat and cs where d: "d < 10" "dec ?n = char_of (48 + d) # cs" using dec_first by blast
  have "of_nat ?n * (if v < 0 then - 1 else 1) = (of_int v :: u32)" by (auto simp: of_nat_nat)
  moreover have "sint (of_int v :: u32) = v"
    using assms by (simp add: signed_of_int signed_take_bit_int_eq_self)
  moreover have "atoi_sign (int_text v @ NUL # r) = Some (if v < 0 then - 1 else 1, dec ?n @ NUL # r)"
    using digit_not_special [OF d(1)] d(2) by (cases "v < 0") (simp_all add: atoi_sign_def int_text_def)
  ultimately show ?thesis using l by (simp add: atoi_def split: if_splits)
qed

lemma length_dec_le: "n < 10 ^ Suc k \<Longrightarrow> length (dec n) \<le> Suc k"
proof (induction k arbitrary: n)
  case 0
  then show ?case by (simp add: dec.simps)
next
  case (Suc k)
  then have "n div 10 < 10 ^ Suc k" by (simp add: less_mult_imp_div_less mult.commute)
  from Suc.IH [OF this] show ?case by (subst dec.simps) simp
qed

subsection \<open>Octal numbers written in decimal\<close>

fun octval :: "nat \<Rightarrow> nat" where
  "octval n = (if n = 0 then 0 else n mod 10 + 8 * octval (n div 10))"

declare octval.simps [simp del]

lemma pow_loop_eq: "pow_loop a n ans = ans * of_int a ^ n"
  by (induction n arbitrary: ans) (simp_all add: algebra_simps)

lemma ucast_add_32: "(ucast (ucast a + of_nat m :: u64) :: u32) = a + of_nat m"
proof -
  have a: "unat (ucast a :: u64) = unat a"
    using unsigned_less [of a, where 'a = nat] by (simp add: unsigned_ucast_eq take_bit_nat_eq_self)
  have "unat (ucast a + of_nat m :: u64) = (unat a + m) mod 2 ^ 64"
    by (simp add: unat_word_ariths unat_of_nat a mod_simps)
  then have "unat (ucast (ucast a + of_nat m :: u64) :: u32) = (unat a + m) mod 2 ^ 64 mod 2 ^ 32"
    by (simp add: unsigned_ucast_eq take_bit_eq_mod)
  also have "\<dots> = (unat a + m) mod 2 ^ 32" by (rule mod_mod_cancel) simp
  also have "\<dots> = unat (a + of_nat m :: u32)" by (simp add: unat_word_ariths unat_of_nat mod_simps)
  finally show ?thesis by (simp add: word_unat_eq_iff)
qed

lemma o_to_d_loop_eq: "o_to_d_loop n i ans = ans + of_nat (8 ^ i * octval n)"
proof (induction n i ans rule: o_to_d_loop.induct)
  case (1 n i ans)
  show ?case
  proof (cases "n = 0")
    case True
    then show ?thesis by (simp add: o_to_d_loop.simps octval.simps)
  next
    case False
    have "ucast (ucast ans + of_nat (n mod 10) * pow_loop 8 i 1 :: u64) = (ans + of_nat (n mod 10 * 8 ^ i) :: u32)"
      using ucast_add_32 [of ans "n mod 10 * 8 ^ i"] by (simp add: pow_loop_eq)
    with False 1 show ?thesis
      by (simp add: o_to_d_loop.simps [of n] octval.simps [of n] algebra_simps)
  qed
qed

lemma octval_bound: "n < 10 ^ k \<Longrightarrow> 7 * octval n + 9 \<le> 9 * 8 ^ k"
proof (induction k arbitrary: n)
  case 0
  then show ?case by (simp add: octval.simps)
next
  case (Suc k)
  then have "n div 10 < 10 ^ k" by (simp add: less_mult_imp_div_less mult.commute)
  from Suc.IH [OF this] have "7 * octval (n div 10) + 9 \<le> 9 * 8 ^ k" .
  moreover have "n mod 10 \<le> 9" by simp
  ultimately show ?case by (subst octval.simps) simp
qed

subsection \<open>Properties\<close>

text \<open>On two strings, \<open>strcat\<close> appends the second to the first when the buffer has room for
  both and the terminator, and leaves the rest of the buffer as it was; otherwise it writes outside
  the buffer. \<open>strcpy\<close> and \<open>strlen\<close> agree with it.\<close>

theorem strcat_appends:
  assumes "cstr s1 = Some xs" "cstr s2 = Some ys"
  shows "strcat s1 s2 = (if length xs + length ys < length s1
       then Some (xs @ ys @ NUL # drop (Suc (length xs + length ys)) s1) else None) \<and>
     strcpy s1 s2 = (if length ys < length s1 then Some (ys @ NUL # drop (Suc (length ys)) s1) else None) \<and>
     strlen (Some s1) = Some (of_nat (length xs))"
proof -
  obtain r where r: "s1 = xs @ NUL # r" "NUL \<notin> set xs" using cstr_SomeD [OF assms(1)] by blast
  obtain q where q: "s2 = ys @ NUL # q" "NUL \<notin> set ys" using cstr_SomeD [OF assms(2)] by blast
  have "strcat s1 s2 = map_option ((@) xs) (copy_loop (NUL # r) s2)" using r strcat_text by simp
  moreover have "strcpy s1 s2 = (if length ys < length s1 then Some (ys @ NUL # drop (Suc (length ys)) s1) else None)"
    unfolding strcpy_def q(1) by (rule copy_loop_text [OF q(2)])
  ultimately show ?thesis
    using copy_loop_text [OF q(2), of "NUL # r" q] r q strlen_loop_text [OF r(2), of r 0]
    by (auto simp: strlen_def)
qed

theorem strcat_appends_witness:
  "strcat (''Input: '' @ replicate 8 NUL) (''F1'' @ [NUL]) = Some (''Input: F1'' @ replicate 6 NUL)"
proof -
  have "cstr (''Input: '' @ replicate 8 NUL) = Some ''Input: ''" "cstr (''F1'' @ [NUL]) = Some ''F1''"
    by (simp_all add: numeral_eq_Suc)
  from strcat_appends [OF this] show ?thesis by (simp add: numeral_eq_Suc)
qed

text \<open>C27. \<open>kstrcmp\<close> of two strings is 0 exactly on equal strings and negative exactly when the
  first, with its terminator, is before the second in the lexicographic order of signed
  characters.\<close>

theorem kstrcmp_order:
  assumes "cstr s1 = Some xs" "cstr s2 = Some ys"
  shows "\<exists>r. kstrcmp s1 s2 = Some r \<and> (r = 0 \<longleftrightarrow> xs = ys) \<and>
     (r < 0 \<longleftrightarrow> ord_class.lexordp (map schar (xs @ [NUL])) (map schar (ys @ [NUL])))"
  using cstr_SomeD [OF assms(1)] cstr_SomeD [OF assms(2)] kstrcmp_text by blast

theorem kstrcmp_order_witness:
  "\<exists>r. kstrcmp (''bin'' @ [NUL]) (''bin'' @ [NUL]) = Some r \<and> r = 0"
  using kstrcmp_order [of "''bin'' @ [NUL]" "''bin''" "''bin'' @ [NUL]" "''bin''"] by simp

text \<open>C18. Every \<open>int\<close> survives \<open>itoa\<close> followed by \<open>atoi\<close>, and a buffer of twelve
  characters is always enough.\<close>

theorem itoa_atoi_roundtrip:
  assumes "- (2 ^ 31) \<le> v" "v < 2 ^ 31" "12 \<le> length buf"
  shows "\<exists>b. itoa buf v = Some b \<and> length b = length buf \<and> atoi b = Some v"
proof -
  have "nat \<bar>v\<bar> < 10 ^ Suc 9" using assms by simp
  then have "length (dec (nat \<bar>v\<bar>)) \<le> Suc 9" by (rule length_dec_le)
  then have "length (int_text v) < length buf" using assms(3)
    by (cases "v < 0") (simp_all add: int_text_def)
  then show ?thesis using itoa_text [of buf v] atoi_int_text [OF assms(1,2)] by simp
qed

theorem itoa_atoi_roundtrip_witness:
  "\<exists>b. itoa (replicate 12 NUL) (- 2147483648) = Some b \<and> length b = 12 \<and> atoi b = Some (- 2147483648)"
  using itoa_atoi_roundtrip [of "- 2147483648" "replicate 12 NUL"] by simp

text \<open>\<open>o_to_d\<close> of a non-negative \<open>int\<close> is the number whose base 8 digits are its
  decimal digits: no intermediate value overflows.\<close>

theorem o_to_d_octal:
  assumes "0 \<le> n" "n < 2 ^ 31"
  shows "o_to_d n = int (octval (nat n))"
proof -
  have "nat n < 10 ^ 10" using assms by simp
  from octval_bound [OF this] have "int (octval (nat n)) < 2 ^ 31" by simp
  then show ?thesis
    by (simp add: o_to_d_def o_to_d_loop_eq signed_of_nat signed_take_bit_int_eq_self)
qed

theorem o_to_d_octal_witness: "o_to_d 1750 = 1000"
  using o_to_d_octal [of 1750] by (simp add: octval.simps)

end
