(* ===== verification/Console.thy ===== *)
theory Console
  imports C_String
begin

text \<open>
  The text console, \<^verbatim>\<open>sys/kprintf.c\<close>. The record \<open>console\<close> holds the bytes of the video
  memory by their offset from \<open>VIDEO_BASE_ADDRESS\<close> (a character and its colour per cell, 24 rows
  of 80 columns and a status row) and the cursor. A \<open>va_list\<close> is the list of the arguments
  still to be read; reading one at another type than it was passed with is \<^const>\<open>None\<close>.
\<close>

subsection \<open>State\<close>

definition VIDEO_MEM_ROWS :: nat where "VIDEO_MEM_ROWS = 24"

definition VIDEO_MEM_COLUMNS :: nat where "VIDEO_MEM_COLUMNS = 80"

definition DEFAULT_COLOR :: char where "DEFAULT_COLOR = CHR 0x07"

record console =
  vid :: "nat \<Rightarrow> char"
  currentRow :: nat
  currentColumn :: nat

datatype format_type = STRING | INT_FMT | HEX | VOID | CHAR_FMT

datatype vararg = VInt u32 | VLong u64 | VStr "char list"

definition getAddress :: "nat \<Rightarrow> nat \<Rightarrow> nat" where
  "getAddress row column = 2 * (VIDEO_MEM_COLUMNS * row + column)"

subsection \<open>Characters\<close>

primrec vid_memcpy :: "nat \<Rightarrow> nat \<Rightarrow> nat \<Rightarrow> (nat \<Rightarrow> char) \<Rightarrow> nat \<Rightarrow> char" where
  "vid_memcpy dest src 0 v = v"
| "vid_memcpy dest src (Suc n) v =
     (let w = vid_memcpy dest src n v in w(dest + n := w (src + n)))"

definition reset_cell :: "char \<Rightarrow> char \<Rightarrow> nat \<Rightarrow> nat \<Rightarrow> (nat \<Rightarrow> char) \<Rightarrow> nat \<Rightarrow> char" where
  "reset_cell initValue color i j v =
     (let address = getAddress i j in (v(address := initValue))(address + 1 := color))"

definition resetVideoMemory :: "char \<Rightarrow> char \<Rightarrow> 'a console_scheme \<Rightarrow> 'a console_scheme" where
  "resetVideoMemory initValue color s =
     s\<lparr>vid := fold (\<lambda>i. fold (reset_cell initValue color i) [0..<VIDEO_MEM_COLUMNS])
               [0..<VIDEO_MEM_ROWS] (vid s)\<rparr>"

definition next_row :: "'a console_scheme \<Rightarrow> 'a console_scheme" where
  "next_row s =
     (if currentRow s = VIDEO_MEM_ROWS - 1
      then resetVideoMemory (CHR '' '') DEFAULT_COLOR
             (s\<lparr>currentRow := 0,
               vid := vid_memcpy (getAddress 0 0) (getAddress (VIDEO_MEM_ROWS div 2) (VIDEO_MEM_COLUMNS div 2))
                        (VIDEO_MEM_ROWS * VIDEO_MEM_COLUMNS) (vid s)\<rparr>)
      else s\<lparr>currentRow := currentRow s + 1\<rparr>)"

definition printChar :: "char \<Rightarrow> 'a console_scheme \<Rightarrow> 'a console_scheme" where
  "printChar c s =
     (if c = CHR 0x0A then (next_row s)\<lparr>currentColumn := 0\<rparr>
      else let address = getAddress (currentRow s) (currentColumn s);
               s = s\<lparr>vid := (vid s)(address := c)\<rparr>
           in if currentColumn s = VIDEO_MEM_COLUMNS - 1 then (next_row s)\<lparr>currentColumn := 0\<rparr>
              else s\<lparr>currentColumn := currentColumn s + 1\<rparr>)"

fun printString :: "char list \<Rightarrow> 'a console_scheme \<Rightarrow> 'a console_scheme option" where
  "printString [] s = None"
| "printString (c # cs) s = (if c \<noteq> NUL then printString cs (printChar c s) else Some s)"

subsection \<open>Numbers\<close>

definition mod_u64 :: "u64 \<Rightarrow> u64" where
  "mod_u64 x = (if x > 0 then x else - x)"

text \<open>The text a number is formatted to, as the buffer from the first character on.\<close>

definition long_buf :: "u64 \<Rightarrow> char list option" where
  "long_buf x = do {
     buf \<leftarrow> buf_write (replicate 66 NUL) 65 NUL;
     (i, buf) \<leftarrow> put_digits (unat (mod_u64 x)) 64 buf;
     (i, buf) \<leftarrow> (if x < 0 then map_option (Pair i) (buf_write buf i (CHR ''-'')) else Some (i + 1, buf));
     Some (drop (nat i) buf)
   }"

definition printLong :: "u64 \<Rightarrow> 'a console_scheme \<Rightarrow> 'a console_scheme option" where
  "printLong x s = Option.bind (long_buf x) (\<lambda>b. printString b s)"

fun put_hex :: "nat \<Rightarrow> int \<Rightarrow> char list \<Rightarrow> (int \<times> char list) option" where
  "put_hex numCopy i buf =
     (let remain = numCopy mod 16
      in do {
        buf \<leftarrow> buf_write buf i (if remain < 10 then char_of (48 + remain) else char_of (65 + (remain - 10)));
        if numCopy div 16 \<noteq> 0 then put_hex (numCopy div 16) (i - 1) buf else Some (i - 1, buf)
      })"

declare put_hex.simps [simp del]

definition hex_buf :: "u64 \<Rightarrow> bool \<Rightarrow> char list option" where
  "hex_buf x include_prefix = do {
     buf \<leftarrow> buf_write (replicate 19 NUL) 18 NUL;
     (i, buf) \<leftarrow> put_hex (unat (mod_u64 x)) 17 buf;
     if \<not> include_prefix then Some (drop (nat (i + 1)) buf)
     else do {
       buf \<leftarrow> buf_write buf i (CHR ''x'');
       buf \<leftarrow> buf_write buf (i - 1) (CHR ''0'');
       Some (drop (nat (i - 1)) buf)
     }
   }"

definition printHex :: "u64 \<Rightarrow> bool \<Rightarrow> 'a console_scheme \<Rightarrow> 'a console_scheme option" where
  "printHex x include_prefix s = Option.bind (hex_buf x include_prefix) (\<lambda>b. printString b s)"

subsection \<open>Formatted output\<close>

definition printSpecial ::
    "format_type \<Rightarrow> vararg list \<Rightarrow> 'a console_scheme \<Rightarrow> (vararg list \<times> 'a console_scheme) option" where
  "printSpecial ft args s =
     (case args of [] \<Rightarrow> None
      | a # args \<Rightarrow> map_option (Pair args)
          (case (ft, a) of
             (STRING, VStr c) \<Rightarrow> printString c s
           | (INT_FMT, VInt n) \<Rightarrow> printLong (scast n) s
           | (HEX, VLong x) \<Rightarrow> printHex x False s
           | (VOID, VLong x) \<Rightarrow> printHex x True s
           | (CHAR_FMT, VInt n) \<Rightarrow> Some (printChar (char_of (unat n)) s)
           | _ \<Rightarrow> None))"

text \<open>The loop over the format string, for any way of printing one argument and one character:
  \<^verbatim>\<open>libc/printf.c\<close> repeats it.\<close>

definition format_of :: "char \<Rightarrow> format_type option" where
  "format_of c = (if c = CHR ''c'' then Some CHAR_FMT else if c = CHR ''s'' then Some STRING
     else if c = CHR ''d'' then Some INT_FMT else if c = CHR ''x'' then Some HEX
     else if c = CHR ''p'' then Some VOID else None)"

fun fmt_loop ::
    "(format_type \<Rightarrow> 'v list \<Rightarrow> 's \<Rightarrow> ('v list \<times> 's) option) \<Rightarrow> (char \<Rightarrow> 's \<Rightarrow> 's option) \<Rightarrow>
     char list \<Rightarrow> 'v list \<Rightarrow> 's \<Rightarrow> 's option" where
  "fmt_loop special put [] args s = None"
| "fmt_loop special put (c # cs) args s =
     (if c = NUL then Some s
      else if c = CHR ''%'' then
        (case cs of [] \<Rightarrow> None
         | d # ds \<Rightarrow>
            (case format_of d of
               Some ft \<Rightarrow> do {
                 (args, s) \<leftarrow> special ft args s;
                 fmt_loop special put ds args s
               }
             | None \<Rightarrow> fmt_loop special put cs args s))
      else Option.bind (put c s) (fmt_loop special put cs args))"

definition kprintf :: "char list \<Rightarrow> vararg list \<Rightarrow> 'a console_scheme \<Rightarrow> 'a console_scheme option" where
  "kprintf fmt args s = fmt_loop printSpecial (\<lambda>c s. Some (printChar c s)) fmt args s"

subsection \<open>The status row and backspace\<close>

fun put_status :: "char list \<Rightarrow> nat \<Rightarrow> (nat \<Rightarrow> char) \<Rightarrow> (nat \<times> (nat \<Rightarrow> char)) option" where
  "put_status [] a v = None"
| "put_status (c # cs) a v = (if c \<noteq> NUL then put_status cs (a + 2) (v(a := c)) else Some (a, v))"

definition clear_status :: "nat \<Rightarrow> nat \<Rightarrow> char \<Rightarrow> (nat \<Rightarrow> char) \<Rightarrow> nat \<Rightarrow> char" where
  "clear_status address cells color v =
     fold (\<lambda>j v. (v(address + 2 * j := CHR '' ''))(address + 2 * j + 1 := color)) [0..<cells] v"

definition put_text :: "char list \<Rightarrow> int \<times> char list \<Rightarrow> (int \<times> char list) option" where
  "put_text cs = foldM (\<lambda>c (i, buf). map_option (Pair (i - 1)) (buf_write buf i c)) cs"

text \<open>\<open>printTime\<close> fills its buffer downwards from index 0.\<close>

definition time_buf :: "u64 \<Rightarrow> (int \<times> char list) option" where
  "time_buf x =
     (let ss = unat (x mod 60); mm = unat (x div 60 mod 60); hh = unat (x div 3600)
      in do {
        (i, buf) \<leftarrow> put_text [NUL, CHR ''s''] (0, replicate 24 NUL);
        (i, buf) \<leftarrow> put_digits ss i buf;
        (i, buf) \<leftarrow> put_text '' : m'' (i, buf);
        (i, buf) \<leftarrow> put_digits mm i buf;
        (i, buf) \<leftarrow> put_text '' : h'' (i, buf);
        put_digits hh i buf
      })"

definition printTime :: "u64 \<Rightarrow> 'a console_scheme \<Rightarrow> 'a console_scheme option" where
  "printTime x s = do {
     let x = x div 100;
     let time_address = getAddress VIDEO_MEM_ROWS (VIDEO_MEM_COLUMNS - 40);
     let v = clear_status time_address 40 (CHR 0x07) (vid s);
     (i, buf) \<leftarrow> time_buf x;
     (a, v) \<leftarrow> put_status (''Time since boot: '' @ [NUL]) time_address v;
     (a, v) \<leftarrow> put_status (drop (nat (i + 1)) buf) a v;
     Some (s\<lparr>vid := v\<rparr>)
   }"

definition handle_video_mem_backspace :: "'a console_scheme \<Rightarrow> 'a console_scheme" where
  "handle_video_mem_backspace s =
     (if currentColumn s = 0 \<and> currentRow s = 0 then s
      else let s = (if currentColumn s = 0
                    then s\<lparr>currentColumn := VIDEO_MEM_COLUMNS - 1, currentRow := currentRow s - 1\<rparr>
                    else s\<lparr>currentColumn := currentColumn s - 1\<rparr>)
           in s\<lparr>vid := (vid s)(getAddress (currentRow s) (currentColumn s) := CHR '' '')\<rparr>)"

subsection \<open>Number texts\<close>

lemma mod_u64_id [simp]: "mod_u64 x = x"
  by (auto simp: mod_u64_def word_neq_0_conv [symmetric])

lemma dec_no_nul: "NUL \<notin> set (dec n)"
proof (induction n rule: dec.induct)
  case (1 n)
  then show ?case
    using digit_not_special(1) [of n] digit_not_special(1) [of "n mod 10"]
    by (subst dec.simps) (auto simp: eq_commute)
qed

lemma long_buf_text: "long_buf x = Some (dec (unat x) @ [NUL])"
proof -
  have "unat x < 10 ^ Suc 19" using unsigned_less [of x, where 'a = nat] by simp
  then have l: "length (dec (unat x)) \<le> 20" using length_dec_le by fastforce
  then have "put_digits (unat x) (int 64) (replicate 66 NUL) = Some (int 64 - int (length (dec (unat x))),
      take (Suc 64 - length (dec (unat x))) (replicate 66 NUL) @ dec (unat x) @ drop (Suc 64) (replicate 66 NUL))"
    by (intro put_digits_dec) simp_all
  moreover have "(replicate 66 NUL)[65 := NUL] = replicate 66 NUL"
    by (simp add: list_eq_iff_nth_eq nth_list_update)
  ultimately show ?thesis using l
    by (simp add: long_buf_def buf_write_def numeral_eq_Suc nat_diff_distrib)
qed

definition hexdig :: "nat \<Rightarrow> char" where
  "hexdig r = (if r < 10 then char_of (48 + r) else char_of (65 + (r - 10)))"

fun hexs :: "nat \<Rightarrow> char list" where
  "hexs n = (if n < 16 then [hexdig n] else hexs (n div 16) @ [hexdig (n mod 16)])"

declare hexs.simps [simp del]

lemma hexs_not_empty [simp]: "hexs n \<noteq> []"
  by (subst hexs.simps) simp

lemma length_hexs_le: "n < 16 ^ Suc k \<Longrightarrow> length (hexs n) \<le> Suc k"
proof (induction k arbitrary: n)
  case 0
  then show ?case by (simp add: hexs.simps)
next
  case (Suc k)
  then have "n div 16 < 16 ^ Suc k" by (simp add: less_mult_imp_div_less mult.commute)
  from Suc.IH [OF this] show ?case by (subst hexs.simps) simp
qed

lemma hexdig_not_nul: "r < 16 \<Longrightarrow> hexdig r \<noteq> NUL"
proof
  assume r: "r < 16" and "hexdig r = NUL"
  then have "of_char (hexdig r) = (0 :: nat)" by simp
  then show False using r by (auto simp: hexdig_def of_char_of split: if_splits)
qed

lemma hexs_no_nul: "NUL \<notin> set (hexs n)"
proof (induction n rule: hexs.induct)
  case (1 n)
  then show ?case
    using hexdig_not_nul [of n] hexdig_not_nul [of "n mod 16"]
    by (subst hexs.simps) (auto simp: eq_commute)
qed

lemma put_hex_hexs:
  "k < length buf \<Longrightarrow> length (hexs n) \<le> Suc k \<Longrightarrow>
   put_hex n (int k) buf = Some (int k - int (length (hexs n)),
     take (Suc k - length (hexs n)) buf @ hexs n @ drop (Suc k) buf)"
proof (induction n arbitrary: k buf rule: hexs.induct)
  case (1 n)
  show ?case
  proof (cases "n < 16")
    case True
    with 1 show ?thesis
      by (subst put_hex.simps)
        (simp add: hexs.simps [of n] hexdig_def buf_write_def upd_conv_take_nth_drop)
  next
    case False
    let ?c = "hexdig (n mod 16)"
    have d: "hexs n = hexs (n div 16) @ [?c]" using False by (subst hexs.simps) simp
    have "0 < length (hexs (n div 16))" by simp
    with 1(3) d obtain j where k: "k = Suc j" by (cases k) auto
    have "put_hex (n div 16) (int j) (buf[k := ?c]) = Some (int j - int (length (hexs (n div 16))),
      take (Suc j - length (hexs (n div 16))) (buf[k := ?c]) @ hexs (n div 16) @ drop (Suc j) (buf[k := ?c]))"
      using 1 False d k by simp
    moreover have "drop (Suc j) (buf[k := ?c]) = ?c # drop (Suc k) buf"
      using 1(2) k by (simp add: upd_conv_take_nth_drop)
    ultimately show ?thesis
      using 1(2) False d k
      by (subst put_hex.simps)
        (simp add: buf_write_def nat_add_distrib div_greater_zero_iff Let_def flip: hexdig_def)
  qed
qed

lemma hex_buf_text: "hex_buf x p = Some ((if p then ''0x'' else []) @ hexs (unat x) @ [NUL])"
proof -
  have "unat x < 16 ^ Suc 15" using unsigned_less [of x, where 'a = nat] by simp
  then have "length (hexs (unat x)) \<le> 16" using length_hexs_le by fastforce
  then obtain m where m: "length (hexs (unat x)) + m = 16" using le_Suc_ex by metis
  then have "put_hex (unat x) (int 17) (replicate 19 NUL) = Some (int 17 - int (length (hexs (unat x))),
      take (Suc 17 - length (hexs (unat x))) (replicate 19 NUL) @ hexs (unat x) @ drop (Suc 17) (replicate 19 NUL))"
    by (intro put_hex_hexs) simp_all
  moreover have "Suc 17 - length (hexs (unat x)) = m + 2" using m by simp
  moreover have "NUL # NUL # replicate k NUL = replicate k NUL @ [NUL, NUL]" for k
    by (induction k) simp_all
  ultimately have "put_hex (unat x) 17 (replicate 19 NUL) =
      Some (int m + 1, replicate m NUL @ [NUL, NUL] @ hexs (unat x) @ [NUL])"
    using m by (simp add: min_def)
  moreover have "(replicate 19 NUL)[18 := NUL] = replicate 19 NUL"
    by (simp add: list_eq_iff_nth_eq nth_list_update)
  ultimately show ?thesis using m
    by (simp add: hex_buf_def buf_write_def nat_add_distrib list_update_append)
qed

subsection \<open>Formatted text\<close>

definition special_text :: "format_type \<Rightarrow> vararg list \<Rightarrow> (vararg list \<times> char list) option" where
  "special_text ft args =
     (case args of [] \<Rightarrow> None
      | a # args \<Rightarrow> map_option (Pair args)
          (case (ft, a) of
             (STRING, VStr c) \<Rightarrow> cstr c
           | (INT_FMT, VInt n) \<Rightarrow> Some (dec (unat (scast n :: u64)))
           | (HEX, VLong x) \<Rightarrow> Some (hexs (unat x))
           | (VOID, VLong x) \<Rightarrow> Some (''0x'' @ hexs (unat x))
           | (CHAR_FMT, VInt n) \<Rightarrow> Some [char_of (unat n)]
           | _ \<Rightarrow> None))"

fun fmt_text :: "char list \<Rightarrow> vararg list \<Rightarrow> char list option" where
  "fmt_text [] args = None"
| "fmt_text (c # cs) args =
     (if c = NUL then Some []
      else if c = CHR ''%'' then
        (case cs of [] \<Rightarrow> None
         | d # ds \<Rightarrow>
            (case format_of d of
               Some ft \<Rightarrow> do {
                 (args, t) \<leftarrow> special_text ft args;
                 map_option (append t) (fmt_text ds args)
               }
             | None \<Rightarrow> fmt_text cs args))
      else map_option (Cons c) (fmt_text cs args))"

lemma special_text_args: "special_text ft args = Some (args', t) \<Longrightarrow> args' = tl args"
  by (cases args) (auto simp: special_text_def)

text \<open>The interface between the format loop and a device: on the arguments the device accepts
  (\<open>ok\<close>), an argument is printed as its text, character by character.\<close>

locale text_sink =
  fixes put :: "char \<Rightarrow> 's \<Rightarrow> 's option"
    and special :: "format_type \<Rightarrow> vararg list \<Rightarrow> 's \<Rightarrow> (vararg list \<times> 's) option"
    and emit :: "char \<Rightarrow> 's \<Rightarrow> 's"
    and ok :: "vararg \<Rightarrow> bool"
  assumes put_emit: "put c s = Some (emit c s)"
    and special_text: "list_all ok args \<Longrightarrow> special ft args s =
      map_option (\<lambda>(args', t). (args', fold emit t s)) (special_text ft args)"
begin

lemma fmt_loop_text:
  "list_all ok args \<Longrightarrow> fmt_loop special put fmt args s = map_option (\<lambda>t. fold emit t s) (fmt_text fmt args)"
proof (induction fmt args arbitrary: s rule: fmt_text.induct)
  case (2 c cs args)
  show ?case
  proof (cases "c = NUL \<or> c \<noteq> CHR ''%'' \<or> cs = []")
    case True
    with 2(3,4) show ?thesis by (auto simp: put_emit option.map_comp o_def)
  next
    case False
    then obtain d ds where cs: "c = CHR ''%''" "cs = d # ds" by (cases cs) auto
    show ?thesis
    proof (cases "format_of d")
      case None
      then have "fmt_loop special put (c # cs) args s = fmt_loop special put cs args s"
        "fmt_text (c # cs) args = fmt_text cs args" using cs by simp_all
      moreover have "fmt_loop special put cs args s = map_option (\<lambda>t. fold emit t s) (fmt_text cs args)"
        using 2(1,2,4) cs None by blast
      ultimately show ?thesis by (simp only:)
    next
      case (Some ft)
      show ?thesis
      proof (cases "special_text ft args")
        case None
        with Some cs special_text [OF 2(4), of ft s] show ?thesis by simp
      next
        case st: (Some r)
        obtain args' u where r: "r = (args', u)" by (cases r)
        have "list_all ok args'"
          using special_text_args [OF st [unfolded r]] 2(4) by (cases args) auto
        with 2(2) Some cs st r special_text [OF 2(4), of ft s] show ?thesis
          by (simp add: option.map_comp o_def)
      qed
    qed
  qed
qed simp

end

lemma printString_text: "printString cs s = map_option (\<lambda>t. fold printChar t s) (cstr cs)"
  by (induction cs arbitrary: s) (auto simp: option.map_comp o_def)

lemma printLong_text: "printLong x s = Some (fold printChar (dec (unat x)) s)"
  by (simp add: printLong_def long_buf_text printString_text cstr_append dec_no_nul)

lemma printHex_text: "printHex x p s = Some (fold printChar ((if p then ''0x'' else []) @ hexs (unat x)) s)"
proof -
  have "NUL \<notin> set ((if p then ''0x'' else []) @ hexs (unat x))" using hexs_no_nul by simp
  from cstr_append [OF this, of "[]"] show ?thesis
    by (simp add: printHex_def hex_buf_text printString_text)
qed

interpretation con: text_sink "\<lambda>c s. Some (printChar c s)" printSpecial printChar "\<lambda>_. True"
proof
  show "printSpecial ft args s =
      map_option (\<lambda>(args', t). (args', fold printChar t s)) (special_text ft args)" for ft args s
    by (auto simp: printSpecial_def special_text_def printString_text printLong_text printHex_text
        option.map_comp o_def split: list.splits format_type.splits vararg.splits)
qed simp

lemma kprintf_text: "kprintf fmt args s = map_option (\<lambda>t. fold printChar t s) (fmt_text fmt args)"
  using con.fmt_loop_text [of args fmt s] by (simp add: kprintf_def list.pred_True)

subsection \<open>The screen\<close>

definition con_ok :: "'a console_scheme \<Rightarrow> bool" where
  "con_ok s \<longleftrightarrow> currentRow s < 24 \<and> currentColumn s < 80"

lemmas con_dims = VIDEO_MEM_ROWS_def VIDEO_MEM_COLUMNS_def getAddress_def

lemma reset_row:
  "n \<le> 80 \<Longrightarrow> fold (reset_cell c k i) [0..<n] v x =
     (if 160 * i \<le> x \<and> x < 160 * i + 2 * n then if even x then c else k else v x)"
proof (induction n)
  case (Suc n)
  consider "x = 160 * i + 2 * n" | "x = 160 * i + 2 * n + 1"
    | "x < 160 * i + 2 * n" | "160 * i + 2 * n + 1 < x" by linarith
  then show ?case using Suc by cases (auto simp: reset_cell_def con_dims Let_def)
qed auto

lemma reset_rows:
  "fold (\<lambda>i. fold (reset_cell c k i) [0..<80]) [0..<n] v x =
     (if x < 160 * n then if even x then c else k else v x)"
  by (induction n) (auto simp: reset_row)

lemma resetVideoMemory_vid:
  "vid (resetVideoMemory c k s) x = (if x < 3840 then if even x then c else k else vid s x)"
  using reset_rows [of c k 24 "vid s" x] by (simp add: resetVideoMemory_def con_dims)

lemma resetVideoMemory_cursor [simp]:
  "currentRow (resetVideoMemory c k s) = currentRow s"
  "currentColumn (resetVideoMemory c k s) = currentColumn s"
  by (simp_all add: resetVideoMemory_def)

lemma vid_memcpy_outside: "x < dest \<or> dest + n \<le> x \<Longrightarrow> vid_memcpy dest src n v x = v x"
  by (induction n) (auto simp: Let_def)

lemma next_row_ok:
  assumes "currentRow s < 24"
  shows "currentRow (next_row s) < 24" "currentColumn (next_row s) = currentColumn s"
    "3840 \<le> x \<Longrightarrow> vid (next_row s) x = vid s x"
  using assms by (auto simp: next_row_def resetVideoMemory_vid vid_memcpy_outside con_dims)

lemma printChar_ok:
  assumes "con_ok s"
  shows "con_ok (printChar c s)" "3840 \<le> x \<Longrightarrow> vid (printChar c s) x = vid s x"
  using assms next_row_ok [of s] next_row_ok [of "s\<lparr>vid := (vid s)(getAddress (currentRow s) (currentColumn s) := c)\<rparr>"]
  by (auto simp: con_ok_def printChar_def Let_def con_dims)

lemma fold_printChar_ok:
  assumes "con_ok s"
  shows "con_ok (fold printChar t s)" "3840 \<le> x \<Longrightarrow> vid (fold printChar t s) x = vid s x"
proof -
  have "con_ok (fold printChar t s) \<and> (3840 \<le> x \<longrightarrow> vid (fold printChar t s) x = vid s x)"
    using assms by (induction t arbitrary: s) (auto simp: printChar_ok)
  then show "con_ok (fold printChar t s)" "3840 \<le> x \<Longrightarrow> vid (fold printChar t s) x = vid s x" by auto
qed

lemma fold_printChar_row:
  assumes "con_ok s" "CHR 0x0A \<notin> set t" "currentColumn s + length t < 80"
  shows "currentRow (fold printChar t s) = currentRow s"
    "currentColumn (fold printChar t s) = currentColumn s + length t"
    "i < length t \<Longrightarrow> vid (fold printChar t s) (getAddress (currentRow s) (currentColumn s + i)) = t ! i"
    "x < getAddress (currentRow s) (currentColumn s) \<Longrightarrow> vid (fold printChar t s) x = vid s x"
proof -
  have "currentRow (fold printChar t s) = currentRow s \<and>
    currentColumn (fold printChar t s) = currentColumn s + length t \<and>
    (\<forall>i < length t. vid (fold printChar t s) (getAddress (currentRow s) (currentColumn s + i)) = t ! i) \<and>
    (\<forall>x < getAddress (currentRow s) (currentColumn s). vid (fold printChar t s) x = vid s x)"
    using assms
  proof (induction t arbitrary: s)
    case (Cons c t)
    let ?s = "printChar c s"
    have s: "currentRow ?s = currentRow s" "currentColumn ?s = Suc (currentColumn s)"
      "vid ?s = (vid s)(getAddress (currentRow s) (currentColumn s) := c)"
      using Cons.prems by (auto simp: printChar_def con_dims Let_def)
    have IH: "currentRow (fold printChar t ?s) = currentRow ?s \<and>
      currentColumn (fold printChar t ?s) = currentColumn ?s + length t \<and>
      (\<forall>i < length t. vid (fold printChar t ?s) (getAddress (currentRow ?s) (currentColumn ?s + i)) = t ! i) \<and>
      (\<forall>x < getAddress (currentRow ?s) (currentColumn ?s). vid (fold printChar t ?s) x = vid ?s x)"
      using Cons.prems s by (intro Cons.IH) (auto simp: printChar_ok)
    have "getAddress (currentRow s) (currentColumn s) < getAddress (currentRow s) (Suc (currentColumn s))"
      by (simp add: con_dims)
    with IH s show ?case by (auto simp: nth_Cons split: nat.splits)
  qed simp
  then show "currentRow (fold printChar t s) = currentRow s"
    "currentColumn (fold printChar t s) = currentColumn s + length t"
    "i < length t \<Longrightarrow> vid (fold printChar t s) (getAddress (currentRow s) (currentColumn s + i)) = t ! i"
    "x < getAddress (currentRow s) (currentColumn s) \<Longrightarrow> vid (fold printChar t s) x = vid s x" by auto
qed

subsection \<open>Properties\<close>

definition con_boot :: console where
  "con_boot = \<lparr>vid = (\<lambda>_. CHR '' ''), currentRow = 0, currentColumn = 0\<rparr>"


text \<open>C29. Printing keeps the cursor on the 24 by 80 screen and never touches the status row or
  anything behind it; a text without line breaks that fits the row appears there, and the cursor stops
  behind it.\<close>

theorem kprintf_screen:
  assumes "con_ok s" "fmt_text fmt args = Some t"
  shows "\<exists>s'. kprintf fmt args s = Some s' \<and> con_ok s' \<and> (\<forall>x \<ge> 3840. vid s' x = vid s x) \<and>
     (CHR 0x0A \<notin> set t \<longrightarrow> currentColumn s + length t < 80 \<longrightarrow>
        currentRow s' = currentRow s \<and> currentColumn s' = currentColumn s + length t \<and>
        (\<forall>i < length t. vid s' (getAddress (currentRow s) (currentColumn s + i)) = t ! i))"
proof -
  have "kprintf fmt args s = Some (fold printChar t s)"
    using assms(2) by (simp add: kprintf_text)
  then show ?thesis
    using fold_printChar_ok [OF assms(1)] fold_printChar_row [OF assms(1), of t] by simp
qed

theorem kprintf_screen_witness:
  "\<exists>s'. kprintf (''pid %d'' @ [NUL]) [VInt 42] con_boot = Some s' \<and> con_ok s' \<and> currentColumn s' = 6"
proof -
  have d: "dec 42 = ''42''" by code_simp
  have t: "fmt_text (''pid %d'' @ [NUL]) [VInt 42] = Some ''pid 42''"
    by (simp add: format_of_def special_text_def d)
  have ok: "con_ok con_boot" by (simp add: con_ok_def con_boot_def)
  show ?thesis using kprintf_screen [OF ok t] by (elim ex_forward) (simp add: con_boot_def)
qed

text \<open>A negative argument of \<open>%d\<close> is printed as an unsigned 64-bit number: the test for
  the sign in \<open>printLong\<close> is on an unsigned value.\<close>

theorem kprintf_negative_unsigned:
  assumes "sint n < 0"
  shows "kprintf (''%d'' @ [NUL]) [VInt n] s = Some (fold printChar (dec (nat (2 ^ 64 + sint n))) s)"
proof -
  have n: "- (2 ^ 31) \<le> sint n" using sint_ge [of n] by simp
  have "uint (scast n :: u64) = uint (of_int (sint n) :: u64)" by (rule arg_cong [OF of_int_sint [symmetric]])
  also have "\<dots> = sint n mod 2 ^ 64" by (simp only: unsigned_of_int take_bit_eq_mod) simp
  also have "\<dots> = (2 ^ 64 + sint n) mod 2 ^ 64" by (simp only: mod_add_self1)
  also have "\<dots> = 2 ^ 64 + sint n" 
    by (rule mod_pos_pos_trivial) (use assms n in simp_all)
  finally have "unat (scast n :: u64) = nat (2 ^ 64 + sint n)" by (simp only: unat_eq_nat_uint)
  then show ?thesis by (simp add: kprintf_text format_of_def special_text_def)
qed

theorem kprintf_negative_unsigned_witness:
  "kprintf (''%d'' @ [NUL]) [VInt (- 1)] con_boot = Some (fold printChar (dec 18446744073709551615) con_boot)"
  using kprintf_negative_unsigned [of "- 1" con_boot] by simp

text \<open>\<open>printTime\<close> writes below its buffer on every call: it starts at index 0 and counts
  down.\<close>

theorem printTime_underruns: "printTime x s = None"
  by (simp add: printTime_def time_buf_def put_text_def buf_write_def Let_def)

text \<open>Backspace after a printed character takes the cursor back and blanks the cell, unless the
  character was a line break or scrolled the screen.\<close>

theorem backspace_after_printChar:
  assumes "con_ok s" "c \<noteq> CHR 0x0A" "\<not> (currentRow s = 23 \<and> currentColumn s = 79)"
  shows "handle_video_mem_backspace (printChar c s) =
     s\<lparr>vid := (vid s)(getAddress (currentRow s) (currentColumn s) := CHR '' '')\<rparr>"
  using assms
  by (cases s) (auto simp: con_ok_def printChar_def handle_video_mem_backspace_def next_row_def con_dims Let_def)

theorem backspace_after_printChar_witness:
  "handle_video_mem_backspace (printChar (CHR ''x'') con_boot) = con_boot"
  using backspace_after_printChar [of con_boot "CHR ''x''"] by (simp add: con_ok_def con_boot_def fun_upd_idem)

end
