(* ===== verification/Terminal.thy ===== *)
theory Terminal
  imports Console
begin

text \<open>
  The terminal device, \<^verbatim>\<open>sys/terminal.c\<close>, and the keyboard, \<^verbatim>\<open>sys/keyboard.c\<close>, with the
  status line \<open>printInputChar\<close> of \<^verbatim>\<open>sys/kprintf.c\<close>. The record \<open>tty\<close> adds the input buffer
  and its index to the console, \<open>kbd\<close> the modifier bits to that.

  \<open>terminal_read\<close> polls an index that the keyboard interrupt advances. Its model takes the
  sequence of strings the interrupt handler delivers while it polls, each one seen by the loop before
  the next arrives; it is \<^const>\<open>None\<close> while the call has not returned.
\<close>

subsection \<open>State\<close>

definition TERM_BUF_SIZE :: nat where "TERM_BUF_SIZE = 256"

record tty = console +
  term_buf :: "char list"
  index :: u16

record kbd = tty +
  specialChars :: u8

datatype special_key = CAPS | LSHIFT | RSHIFT | LCNTRL | RCNTRL | NUMLOCK

subsection \<open>The terminal\<close>

definition buf_read :: "char list \<Rightarrow> int \<Rightarrow> char option" where
  "buf_read buf i = (if 0 \<le> i \<and> i < int (length buf) then Some (buf ! nat i) else None)"

definition reset_term_inp_buffer :: "'a tty_scheme \<Rightarrow> 'a tty_scheme" where
  "reset_term_inp_buffer s = s\<lparr>term_buf := replicate TERM_BUF_SIZE NUL, index := 0\<rparr>"

definition on_new_char_recvd :: "char list \<Rightarrow> 'a tty_scheme \<Rightarrow> 'a tty_scheme option" where
  "on_new_char_recvd ctrs s = do {
     c1 \<leftarrow> buf_read ctrs 1;
     c0 \<leftarrow> buf_read ctrs 0;
     if c1 = CHR ''H'' \<and> c0 = CHR ''^'' then
       (if index s = 0 then Some s
        else do {
          b \<leftarrow> buf_write (term_buf s) (uint (index s)) NUL;
          Some (handle_video_mem_backspace (s\<lparr>term_buf := b, index := index s - 1\<rparr>))
        })
     else if c1 = CHR ''r'' \<and> c0 = CHR 0x5C then do {
       b \<leftarrow> buf_write (term_buf s) (uint (index s)) (CHR 0x0A);
       kprintf [CHR 0x0A, NUL] [] (s\<lparr>term_buf := b, index := index s + 1\<rparr>)
     }
     else do {
       b \<leftarrow> buf_write (term_buf s) (uint (index s)) c0;
       kprintf (''%c'' @ [NUL]) [VInt (of_int (schar c0))] (s\<lparr>term_buf := b, index := index s + 1\<rparr>)
     }
   }"

fun terminal_read_loop ::
    "int \<Rightarrow> char list list \<Rightarrow> u16 \<Rightarrow> char list \<Rightarrow> 'a tty_scheme \<Rightarrow>
     (int \<times> char list \<times> 'a tty_scheme) option" where
  "terminal_read_loop len [] last_index buf s = None"
| "terminal_read_loop len (e # es) last_index buf s = do {
     s \<leftarrow> on_new_char_recvd e s;
     if last_index = index s then terminal_read_loop len es last_index buf s
     else do {
       c \<leftarrow> buf_read (term_buf s) (uint (index s) - 1);
       if c = CHR 0x0A then Some (uint (index s) - 1, buf, reset_term_inp_buffer s)
       else do {
         buf \<leftarrow> buf_write buf (uint (index s) - 1) c;
         if uint (index s) = len then Some (len, buf, reset_term_inp_buffer s)
         else terminal_read_loop len es (index s) buf s
       }
     }
   }"

definition terminal_read ::
    "char list \<Rightarrow> int \<Rightarrow> char list list \<Rightarrow> 'a tty_scheme \<Rightarrow> (int \<times> char list \<times> 'a tty_scheme) option" where
  "terminal_read buf len events s =
     (if len = 0 then Some (0, buf, s)
      else let s = reset_term_inp_buffer s in terminal_read_loop len events (index s) buf s)"

definition terminal_write :: "char list \<Rightarrow> int \<Rightarrow> 'a tty_scheme \<Rightarrow> (int \<times> 'a tty_scheme) option" where
  "terminal_write str len s =
     (if len \<le> 0 then Some (0, s)
      else map_option (Pair len)
        (foldM (\<lambda>i s. Option.bind (buf_read str (int i))
            (\<lambda>c. kprintf (''%c'' @ [NUL]) [VInt (of_int (schar c))] s)) [0..<nat len] s))"

subsection \<open>The status line\<close>

definition printInputChar :: "char list \<Rightarrow> 'a tty_scheme \<Rightarrow> 'a tty_scheme option" where
  "printInputChar c s = do {
     s \<leftarrow> on_new_char_recvd c s;
     let address = getAddress VIDEO_MEM_ROWS 0;
     let v = clear_status address 15 (CHR 0x02) (vid s);
     str \<leftarrow> strcat (''Input: '' @ replicate 8 NUL) c;
     (a, v) \<leftarrow> put_status str address v;
     Some (s\<lparr>vid := v\<rparr>)
   }"

subsection \<open>The keyboard\<close>

definition getBitmask :: "special_key \<Rightarrow> u8" where
  "getBitmask sk = (case sk of CAPS \<Rightarrow> 1 | LSHIFT \<Rightarrow> 2 | RSHIFT \<Rightarrow> 4 | LCNTRL \<Rightarrow> 8 | RCNTRL \<Rightarrow> 16 | NUMLOCK \<Rightarrow> 32)"

definition clearKey :: "special_key \<Rightarrow> 'a kbd_scheme \<Rightarrow> 'a kbd_scheme" where
  "clearKey sk s = s\<lparr>specialChars := specialChars s AND NOT (getBitmask sk)\<rparr>"

definition setKey :: "special_key \<Rightarrow> 'a kbd_scheme \<Rightarrow> 'a kbd_scheme" where
  "setKey sk s = s\<lparr>specialChars := specialChars s OR getBitmask sk\<rparr>"

definition isKey :: "special_key \<Rightarrow> u8 \<Rightarrow> u8" where
  "isKey sk special = special AND getBitmask sk"

definition isShiftEnabled :: "u8 \<Rightarrow> u8" where
  "isShiftEnabled special = isKey LSHIFT special OR isKey RSHIFT special"

definition shouldCapitalizeLetters :: "u8 \<Rightarrow> u8" where
  "shouldCapitalizeLetters special = isKey CAPS special XOR isShiftEnabled special"

text \<open>The cases of the scan code switch, by what decides between their characters: the shift keys
  (shifted, plain), capital letters, the number lock, and keys with more than one character.\<close>

definition shift_keys :: "(u8 \<times> char \<times> char) list" where
  "shift_keys =
     [(0x02, CHR ''!'', CHR ''1''), (0x03, CHR ''@'', CHR ''2''), (0x04, CHR ''#'', CHR ''3''),
      (0x05, CHR ''$'', CHR ''4''), (0x06, CHR ''%'', CHR ''5''), (0x07, CHR ''^'', CHR ''6''),
      (0x08, CHR ''&'', CHR ''7''), (0x09, CHR ''*'', CHR ''8''), (0x0A, CHR ''('', CHR ''9''),
      (0x0B, CHR '')'', CHR ''0''), (0x0C, CHR ''_'', CHR ''-''), (0x0D, CHR ''+'', CHR ''=''),
      (0x1A, CHR ''{'', CHR ''[''), (0x1B, CHR ''}'', CHR '']''), (0x27, CHR '':'', CHR '';''),
      (0x28, CHR 0x27, CHR 0x22), (0x29, CHR ''~'', CHR 0x60), (0x2B, CHR ''|'', CHR 0x5C),
      (0x33, CHR ''<'', CHR '',''), (0x34, CHR ''>'', CHR ''.''), (0x35, CHR ''?'', CHR ''/'')]"

definition letter_keys :: "(u8 \<times> char \<times> char) list" where
  "letter_keys =
     [(0x10, CHR ''Q'', CHR ''q''), (0x11, CHR ''W'', CHR ''w''), (0x12, CHR ''E'', CHR ''e''),
      (0x13, CHR ''R'', CHR ''r''), (0x14, CHR ''T'', CHR ''t''), (0x15, CHR ''Y'', CHR ''y''),
      (0x16, CHR ''U'', CHR ''u''), (0x17, CHR ''I'', CHR ''i''), (0x18, CHR ''O'', CHR ''o''),
      (0x19, CHR ''P'', CHR ''p''), (0x1E, CHR ''A'', CHR ''a''), (0x1F, CHR ''S'', CHR ''s''),
      (0x20, CHR ''D'', CHR ''d''), (0x21, CHR ''F'', CHR ''f''), (0x22, CHR ''G'', CHR ''g''),
      (0x23, CHR ''H'', CHR ''h''), (0x24, CHR ''J'', CHR ''j''), (0x25, CHR ''K'', CHR ''k''),
      (0x26, CHR ''L'', CHR ''l''), (0x2C, CHR ''Z'', CHR ''z''), (0x2D, CHR ''X'', CHR ''x''),
      (0x2E, CHR ''C'', CHR ''c''), (0x2F, CHR ''V'', CHR ''v''), (0x30, CHR ''B'', CHR ''b''),
      (0x31, CHR ''N'', CHR ''n''), (0x32, CHR ''M'', CHR ''m'')]"

definition keypad_keys :: "(u8 \<times> char) list" where
  "keypad_keys =
     [(0x37, CHR ''*''), (0x47, CHR ''7''), (0x48, CHR ''8''), (0x49, CHR ''9''), (0x4A, CHR ''-''),
      (0x4B, CHR ''4''), (0x4C, CHR ''5''), (0x4D, CHR ''6''), (0x4E, CHR ''+''), (0x4F, CHR ''1''),
      (0x50, CHR ''2''), (0x51, CHR ''3''), (0x52, CHR ''0''), (0x53, CHR ''.'')]"

definition fixed_keys :: "(u8 \<times> char \<times> char \<times> char) list" where
  "fixed_keys =
     [(0x0E, CHR ''H'', CHR ''^'', NUL), (0x0F, CHR ''t'', CHR 0x5C, NUL), (0x1C, CHR ''r'', CHR 0x5C, NUL),
      (0x39, CHR '' '', NUL, NUL), (0x3B, CHR ''1'', CHR ''F'', NUL), (0x3C, CHR ''2'', CHR ''F'', NUL),
      (0x3D, CHR ''3'', CHR ''F'', NUL), (0x3E, CHR ''4'', CHR ''F'', NUL), (0x3F, CHR ''5'', CHR ''F'', NUL),
      (0x40, CHR ''6'', CHR ''F'', NUL), (0x41, CHR ''7'', CHR ''F'', NUL), (0x42, CHR ''8'', CHR ''F'', NUL),
      (0x43, CHR ''9'', CHR ''F'', NUL), (0x44, CHR ''0'', CHR ''1'', CHR ''F''),
      (0x57, CHR ''1'', CHR ''1'', CHR ''F''), (0x58, CHR ''2'', CHR ''1'', CHR ''F'')]"

definition key_chars :: "u8 \<Rightarrow> u8 \<Rightarrow> char \<times> char \<times> char" where
  "key_chars special sc =
     (case map_of shift_keys sc of
        Some (u, l) \<Rightarrow> (if isShiftEnabled special \<noteq> 0 then u else l, NUL, NUL)
      | None \<Rightarrow>
     (case map_of letter_keys sc of
        Some (u, l) \<Rightarrow> (if shouldCapitalizeLetters special \<noteq> 0 then u else l, NUL, NUL)
      | None \<Rightarrow>
     (case map_of keypad_keys sc of
        Some c \<Rightarrow> (if isKey NUMLOCK special \<noteq> 0 then c else NUL, NUL, NUL)
      | None \<Rightarrow>
     (case map_of fixed_keys sc of Some t \<Rightarrow> t | None \<Rightarrow> (NUL, NUL, NUL)))))"

text \<open>The string the switch builds from the right in \<open>str\<close>, with a \<open>^\<close> before it when a
  control key is down.\<close>

definition key_text :: "u8 \<Rightarrow> char \<times> char \<times> char \<Rightarrow> char list" where
  "key_text special t =
     (let (c, p, pp) = t;
          str = [c, NUL];
          str = (if p \<noteq> NUL then p # str else str);
          str = (if pp \<noteq> NUL then pp # str else str)
      in if isKey RCNTRL special OR isKey LCNTRL special \<noteq> 0 \<and> hd str \<noteq> CHR ''^'' then CHR ''^'' # str else str)"

definition handleNormalScanCodes :: "u8 \<Rightarrow> 'a kbd_scheme \<Rightarrow> (int \<times> 'a kbd_scheme) option" where
  "handleNormalScanCodes sc s =
     (let t = key_chars (specialChars s) sc
      in if fst t = NUL then Some (0, s)
         else map_option (Pair 1) (printInputChar (key_text (specialChars s) t) s))"

definition printAscii :: "u8 \<Rightarrow> 'a kbd_scheme \<Rightarrow> 'a kbd_scheme option" where
  "printAscii sc s =
     (if sc = 0x2A then Some (setKey LSHIFT s)
      else if sc = 0xAA then Some (clearKey LSHIFT s)
      else if sc = 0x36 then Some (setKey RSHIFT s)
      else if sc = 0xB6 then Some (clearKey RSHIFT s)
      else if sc = 0x1D then Some (setKey RCNTRL (setKey LCNTRL s))
      else if sc = 0x9D then Some (clearKey RCNTRL (clearKey LCNTRL s))
      else if sc = 0x3A then
        Some (if isKey CAPS (specialChars s) \<noteq> 0 then clearKey CAPS s else setKey CAPS s)
      else if sc = 0x45 then
        Some (if isKey NUMLOCK (specialChars s) \<noteq> 0 then clearKey NUMLOCK s else setKey NUMLOCK s)
      else map_option snd (handleNormalScanCodes sc s))"

text \<open>The interrupt handler, given the scan code the keyboard controller delivers.\<close>

definition keyboard_intr_handler :: "u8 \<Rightarrow> 'a kbd_scheme \<Rightarrow> 'a kbd_scheme option" where
  "keyboard_intr_handler scancode s = printAscii scancode s"

subsection \<open>Printing one character\<close>

lemma char_of_schar: "char_of (unat (of_int (schar c) :: u32)) = c"
proof -
  have n: "unat (of_int k :: u32) = nat (k mod 2 ^ 32)" for k
    by (simp add: unat_eq_nat_uint uint_word_of_int)
  have "nat (schar c mod 2 ^ 32) mod 256 = nat (schar c mod 2 ^ 32 mod 256)"
    by (simp add: nat_mod_distrib)
  also have "schar c mod 2 ^ 32 mod 256 = schar c mod 256" by (rule mod_mod_cancel) simp
  also have "nat (schar c mod 256) = of_char c"
    using of_char_bound [of c] by (auto simp: schar_def Let_def)
  finally have "of_char (char_of (unat (of_int (schar c) :: u32))) = (of_char c :: nat)"
    by (simp add: of_char_of n)
  then show ?thesis by (simp only: of_char_eq_iff)
qed

lemma kprintf_char: "kprintf (''%c'' @ [NUL]) [VInt (of_int (schar c))] s = Some (printChar c s)"
  by (simp add: kprintf_text format_of_def special_text_def char_of_schar)

lemma kprintf_newline: "kprintf [CHR 0x0A, NUL] [] s = Some (printChar (CHR 0x0A) s)"
  by (simp add: kprintf_text)

lemma printChar_term [simp]:
  "term_buf (printChar c s) = term_buf s" "index (printChar c s) = index s"
  "printChar c (s\<lparr>term_buf := b\<rparr>) = (printChar c s)\<lparr>term_buf := b\<rparr>"
  "printChar c (s\<lparr>index := i\<rparr>) = (printChar c s)\<lparr>index := i\<rparr>"
  by (cases s; simp add: printChar_def next_row_def resetVideoMemory_def Let_def)+

lemma on_new_char_plain:
  assumes "index s = of_nat k" "k < length (term_buf s)" "length (term_buf s) = 256"
  shows "on_new_char_recvd [c, NUL] s =
     Some ((printChar c s)\<lparr>term_buf := (term_buf s)[k := c], index := of_nat (Suc k)\<rparr>)"
proof -
  have "uint (index s) = int k" using assms by (simp add: uint_nat unat_of_nat)
  then show ?thesis
    using assms by (simp add: on_new_char_recvd_def buf_read_def buf_write_def kprintf_char [simplified] add.commute)
qed

lemma on_new_char_enter:
  assumes "index s = of_nat k" "k < length (term_buf s)" "length (term_buf s) = 256"
  shows "on_new_char_recvd [CHR 0x5C, CHR ''r'', NUL] s =
     Some ((printChar (CHR 0x0A) s)\<lparr>term_buf := (term_buf s)[k := CHR 0x0A], index := of_nat (Suc k)\<rparr>)"
proof -
  have "uint (index s) = int k" using assms by (simp add: uint_nat unat_of_nat)
  then show ?thesis
    using assms by (simp add: on_new_char_recvd_def buf_read_def buf_write_def kprintf_newline)
qed

subsection \<open>Reading a line\<close>

lemma fold_printChar_fields [simp]:
  "term_buf (fold printChar t s) = term_buf s" "index (fold printChar t s) = index s"
  by (induction t arbitrary: s) simp_all

lemma fold_printChar_term_buf: "fold printChar t (s\<lparr>term_buf := b\<rparr>) = (fold printChar t s)\<lparr>term_buf := b\<rparr>"
  by (induction t arbitrary: s) simp_all

lemma fold_printChar_index: "fold printChar t (s\<lparr>index := i\<rparr>) = (fold printChar t s)\<lparr>index := i\<rparr>"
  by (induction t arbitrary: s) (simp_all only: fold_simps printChar_term)

lemmas fold_printChar_term = fold_printChar_term_buf fold_printChar_index

lemma u16_index:
  assumes "k < 256"
  shows "uint (of_nat (Suc k) :: u16) = int k + 1" "(of_nat k :: u16) \<noteq> of_nat (Suc k)"
proof -
  have n: "unat (of_nat j :: u16) = j" if "j \<le> 256" for j
    using that by (simp only: unat_of_nat) simp
  show "uint (of_nat (Suc k) :: u16) = int k + 1"
    using n [of "Suc k"] assms by (simp add: uint_nat)
  show "(of_nat k :: u16) \<noteq> of_nat (Suc k)"
    using n [of k] n [of "Suc k"] assms by (metis less_imp_le n_not_Suc_n Suc_leI)
qed

lemma terminal_read_loop_line:
  assumes "index s = of_nat k" "length (term_buf s) = 256" "CHR 0x0A \<notin> set cs"
    and "k + length cs < 256" "int (k + length cs) < len" "k + length cs \<le> length buf"
  shows "terminal_read_loop len (map (\<lambda>c. [c, NUL]) cs @ [[CHR 0x5C, CHR ''r'', NUL]]) (of_nat k) buf s =
     Some (int (k + length cs), take k buf @ cs @ drop (k + length cs) buf,
       reset_term_inp_buffer (fold printChar (cs @ [CHR 0x0A]) s))"
  using assms
proof (induction cs arbitrary: k buf s)
  case Nil
  have u: "uint (of_nat (Suc k) :: u16) = int k + 1" "of_nat k \<noteq> (of_nat (Suc k) :: u16)"
    using Nil by (intro u16_index; simp)+
  from Nil show ?case
    using on_new_char_enter [of s k] u
    by (simp add: buf_read_def reset_term_inp_buffer_def del: of_nat_Suc)
next
  case (Cons c cs)
  let ?s = "(printChar c s)\<lparr>term_buf := (term_buf s)[k := c], index := of_nat (Suc k)\<rparr>"
  have u: "uint (of_nat (Suc k) :: u16) = int k + 1" "of_nat k \<noteq> (of_nat (Suc k) :: u16)"
    using Cons.prems by (intro u16_index; simp)+
  have c: "c \<noteq> CHR 0x0A" using Cons.prems by auto
  have "terminal_read_loop len (map (\<lambda>c. [c, NUL]) (c # cs) @ [[CHR 0x5C, CHR ''r'', NUL]]) (of_nat k) buf s =
      terminal_read_loop len (map (\<lambda>c. [c, NUL]) cs @ [[CHR 0x5C, CHR ''r'', NUL]]) (of_nat (Suc k)) (buf[k := c]) ?s"
    using Cons.prems on_new_char_plain [of s k c] u c
    by (simp add: buf_read_def buf_write_def del: of_nat_Suc)
  also have "\<dots> = Some (int (Suc k + length cs), take (Suc k) (buf[k := c]) @ cs @ drop (Suc k + length cs) (buf[k := c]),
       reset_term_inp_buffer (fold printChar (cs @ [CHR 0x0A]) ?s))"
    using Cons.prems by (intro Cons.IH) (simp_all del: of_nat_Suc)
  also have "take (Suc k) (buf[k := c]) = take k buf @ [c]"
    using Cons.prems by (simp add: take_Suc_conv_app_nth)
  finally show ?case by (simp add: reset_term_inp_buffer_def fold_printChar_term)
qed

subsection \<open>Modifier keys\<close>

definition key_bit :: "special_key \<Rightarrow> nat" where
  "key_bit sk = (case sk of CAPS \<Rightarrow> 0 | LSHIFT \<Rightarrow> 1 | RSHIFT \<Rightarrow> 2 | LCNTRL \<Rightarrow> 3 | RCNTRL \<Rightarrow> 4 | NUMLOCK \<Rightarrow> 5)"

lemma bit_getBitmask: "bit (getBitmask sk) n \<longleftrightarrow> n = key_bit sk"
proof -
  have "getBitmask sk = 2 ^ key_bit sk" by (cases sk) (simp_all add: getBitmask_def key_bit_def)
  moreover have "key_bit sk < 8" by (cases sk) (simp_all add: key_bit_def)
  ultimately show ?thesis by (auto simp: bit_exp_iff)
qed

lemma word_nonzero_bit: "(w :: u8) \<noteq> 0 \<longleftrightarrow> (\<exists>n. bit w n)"
proof
  assume "w \<noteq> 0"
  moreover have "w = 0" if "\<not> (\<exists>n. bit w n)" using that by (intro bit_word_eqI) simp
  ultimately show "\<exists>n. bit w n" by blast
qed auto

lemma isKey_iff: "isKey sk special \<noteq> 0 \<longleftrightarrow> bit special (key_bit sk)"
  unfolding word_nonzero_bit by (auto simp: isKey_def bit_and_iff bit_getBitmask)

lemma bit_isShiftEnabled: "bit (isShiftEnabled special) n \<longleftrightarrow> (n = 1 \<or> n = 2) \<and> bit special n"
  by (auto simp: isShiftEnabled_def isKey_def bit_and_iff bit_or_iff bit_getBitmask key_bit_def)

lemma isShift_iff: "isShiftEnabled special \<noteq> 0 \<longleftrightarrow> bit special 1 \<or> bit special 2"
  unfolding word_nonzero_bit bit_isShiftEnabled by auto

lemma bit_shouldCapitalizeLetters:
  "bit (shouldCapitalizeLetters special) n \<longleftrightarrow> (n = 0 \<or> n = 1 \<or> n = 2) \<and> bit special n"
  by (auto simp: shouldCapitalizeLetters_def bit_isShiftEnabled isKey_def bit_and_iff bit_xor_iff
      bit_getBitmask key_bit_def)

lemma capital_iff: "shouldCapitalizeLetters special \<noteq> 0 \<longleftrightarrow> bit special 0 \<or> bit special 1 \<or> bit special 2"
  unfolding word_nonzero_bit bit_shouldCapitalizeLetters by auto

lemma set_clear_key:
  "\<not> bit (specialChars s) (key_bit sk) \<Longrightarrow> clearKey sk (setKey sk s) = s"
  "bit (specialChars s) (key_bit sk) \<Longrightarrow> setKey sk (clearKey sk s) = s"
proof -
  have "(specialChars s OR getBitmask sk) AND NOT (getBitmask sk) = specialChars s"
    if "\<not> bit (specialChars s) (key_bit sk)"
    using that by (intro bit_word_eqI) (auto simp: bit_and_iff bit_or_iff bit_not_iff bit_getBitmask)
  moreover have "(specialChars s AND NOT (getBitmask sk)) OR getBitmask sk = specialChars s"
    if "bit (specialChars s) (key_bit sk)"
    using that by (intro bit_word_eqI) (auto simp: bit_and_iff bit_or_iff bit_not_iff bit_getBitmask)
  ultimately show "\<not> bit (specialChars s) (key_bit sk) \<Longrightarrow> clearKey sk (setKey sk s) = s"
    "bit (specialChars s) (key_bit sk) \<Longrightarrow> setKey sk (clearKey sk s) = s"
    by (simp_all add: clearKey_def setKey_def)
qed

subsection \<open>Ordinary keys\<close>

lemma key_tables:
  "list_all (\<lambda>(sc, u, l). u \<noteq> NUL \<and> l \<noteq> NUL) shift_keys"
  "list_all (\<lambda>(sc, u, l). u \<noteq> NUL \<and> l \<noteq> NUL) letter_keys"
  "list_all (\<lambda>(sc, c). c \<noteq> NUL) keypad_keys"
  "list_all (\<lambda>(sc, c, p, pp). c \<noteq> NUL \<and> (p = NUL \<longrightarrow> pp = NUL)) fixed_keys"
  by (simp_all add: shift_keys_def letter_keys_def keypad_keys_def fixed_keys_def)

lemma key_text_shape:
  assumes "key_chars special sc = (c, p, pp)" "c \<noteq> NUL"
  shows "\<exists>t. key_text special (c, p, pp) = t @ [NUL] \<and> NUL \<notin> set t \<and> 0 < length t \<and> length t \<le> 4"
  using assms(2) by (auto simp: key_text_def Let_def)

lemma put_status_text: "NUL \<notin> set t \<Longrightarrow> \<exists>a' v'. put_status (t @ NUL # r) a v = Some (a', v')"
  by (induction t arbitrary: a v) auto

lemma backspace_ok:
  "con_ok s \<Longrightarrow> con_ok (handle_video_mem_backspace s)"
  "term_buf (handle_video_mem_backspace t) = term_buf t" "index (handle_video_mem_backspace t) = index t"
  by (auto simp: handle_video_mem_backspace_def con_ok_def con_dims Let_def)

lemma con_ok_term [simp]:
  "con_ok (s\<lparr>term_buf := b\<rparr>) = con_ok s" "con_ok (s\<lparr>index := i\<rparr>) = con_ok s"
  "con_ok (s\<lparr>vid := v\<rparr>) = con_ok s"
  by (simp_all add: con_ok_def)

definition term_ok :: "'a tty_scheme \<Rightarrow> bool" where
  "term_ok s \<longleftrightarrow> con_ok s \<and> length (term_buf s) = 256 \<and> unat (index s) \<le> 256"

lemma on_new_char_total:
  assumes "2 \<le> length ctrs" "term_ok s" "unat (index s) < 256"
  shows "\<exists>s'. on_new_char_recvd ctrs s = Some s' \<and> term_ok s'"
proof -
  obtain c0 c1 r where c: "ctrs = c0 # c1 # r" using assms(1) by (cases ctrs; cases "tl ctrs") auto
  have u: "uint (index s) = int (unat (index s))" by (rule uint_nat)
  have w: "buf_write (term_buf s) (uint (index s)) x = Some ((term_buf s)[unat (index s) := x])" for x
  proof -
    have "uint (index s) < 256" using assms(3) unfolding u by linarith
    moreover have "nat (uint (index s)) = unat (index s)" by (simp only: u nat_int)
    ultimately show ?thesis using assms(2) by (simp add: buf_write_def term_ok_def)
  qed
  have r: "buf_read ctrs 0 = Some c0" "buf_read ctrs 1 = Some c1" by (simp_all add: c buf_read_def)
  have i: "unat (index s + 1) = unat (index s) + 1" using assms(3) by (simp add: unat_word_ariths)
  have d: "unat (index s - 1) \<le> 256" if "index s \<noteq> 0" using unat_minus_one [OF that] assms(3) by linarith
  show ?thesis
  proof (cases "c1 = CHR ''H'' \<and> c0 = CHR ''^''")
    case True
    then show ?thesis
      using assms d by (simp add: on_new_char_recvd_def r w term_ok_def backspace_ok)
  next
    case False
    then show ?thesis
      using assms i
      by (auto simp: on_new_char_recvd_def r w term_ok_def kprintf_char [simplified] kprintf_newline printChar_ok)
  qed
qed

lemma printInputChar_total:
  assumes "NUL \<notin> set t" "0 < length t" "length t \<le> 7" "term_ok s" "unat (index s) < 256"
  shows "\<exists>s'. printInputChar (t @ [NUL]) s = Some s' \<and> term_ok s'"
proof -
  obtain s1 where s1: "on_new_char_recvd (t @ [NUL]) s = Some s1" "term_ok s1"
    using on_new_char_total [of "t @ [NUL]" s] assms by (cases t) auto
  have "strcat (''Input: '' @ NUL # replicate 7 NUL) (t @ [NUL]) =
      map_option ((@) ''Input: '') (copy_loop (NUL # replicate 7 NUL) (t @ [NUL]))"
    by (rule strcat_text) simp
  moreover have "copy_loop (NUL # replicate 7 NUL) (t @ [NUL]) = Some (t @ NUL # drop (length t) (replicate 7 NUL))"
    using copy_loop_text [OF assms(1), of "NUL # replicate 7 NUL" "[]"] assms(3) by simp
  moreover have "replicate 8 NUL = NUL # replicate 7 NUL" by (simp add: numeral_eq_Suc)
  ultimately have cat: "strcat (''Input: '' @ replicate 8 NUL) (t @ [NUL]) =
      Some ((''Input: '' @ t) @ NUL # drop (length t) (replicate 7 NUL))" by simp
  have "NUL \<notin> set (''Input: '' @ t)" using assms(1) by simp
  from put_status_text [OF this] obtain a' v' where
    "put_status ((''Input: '' @ t) @ NUL # drop (length t) (replicate 7 NUL)) (getAddress VIDEO_MEM_ROWS 0)
       (clear_status (getAddress VIDEO_MEM_ROWS 0) 15 (CHR 0x02) (vid s1)) = Some (a', v')" by blast
  then show ?thesis
    using s1 cat by (simp add: printInputChar_def Let_def term_ok_def)
qed

subsection \<open>Properties\<close>

definition kbd_boot :: kbd where
  "kbd_boot = \<lparr>vid = (\<lambda>_. CHR '' ''), currentRow = 0, currentColumn = 0,
     term_buf = replicate 256 NUL, index = 0, specialChars = 0\<rparr>"

text \<open>C16. Reading a line: when the keys of a line shorter than the request and than the input
  buffer arrive, followed by Enter, \<open>terminal_read\<close> returns their number, has them at the front of
  the caller's buffer and leaves the rest of it alone, the keys and a line break have been echoed, and
  the input buffer is empty again.\<close>

theorem terminal_read_line:
  assumes "CHR 0x0A \<notin> set cs" "length cs < 256" "int (length cs) < len" "length cs \<le> length buf"
  shows "terminal_read buf len (map (\<lambda>c. [c, NUL]) cs @ [[CHR 0x5C, CHR ''r'', NUL]]) s =
     Some (int (length cs), cs @ drop (length cs) buf,
       reset_term_inp_buffer (fold printChar (cs @ [CHR 0x0A]) s))"
proof -
  let ?s = "reset_term_inp_buffer s"
  have s: "index ?s = of_nat 0" "length (term_buf ?s) = 256"
    by (simp_all add: reset_term_inp_buffer_def TERM_BUF_SIZE_def)
  show ?thesis
    using terminal_read_loop_line [OF s assms(1), of len buf] assms
    by (simp add: terminal_read_def reset_term_inp_buffer_def Let_def fold_printChar_term)
qed

theorem terminal_read_line_witness:
  "\<exists>s'. terminal_read (replicate 4 NUL) 4 [[CHR ''l'', NUL], [CHR ''s'', NUL], [CHR 0x5C, CHR ''r'', NUL]] kbd_boot =
     Some (2, ''ls'' @ [NUL, NUL], s')"
  using terminal_read_line [of "''ls''" 4 "replicate 4 NUL" kbd_boot] by (simp add: numeral_eq_Suc)



text \<open>C19. Every scan code is handled as long as the input buffer has room: no key name overruns
  the status line's buffer, and cursor and index stay in range.\<close>

theorem printAscii_total:
  assumes "term_ok s" "unat (index s) < 256"
  shows "\<exists>s'. printAscii sc s = Some s' \<and> term_ok s'"
proof -
  obtain c p pp where k: "key_chars (specialChars s) sc = (c, p, pp)" by (metis prod_cases3)
  have "\<exists>s'. handleNormalScanCodes sc s = Some s' \<and> term_ok (snd s')"
  proof (cases "c = NUL")
    case True
    then show ?thesis using assms k by (simp add: handleNormalScanCodes_def)
  next
    case False
    from key_text_shape [OF k this] obtain t where
      t: "key_text (specialChars s) (c, p, pp) = t @ [NUL]" "NUL \<notin> set t" "0 < length t" "length t \<le> 7" by auto
    from printInputChar_total [OF t(2-4) assms] False k t(1) show ?thesis
      by (auto simp: handleNormalScanCodes_def)
  qed
  moreover have "term_ok (setKey sk s') = term_ok s'" "term_ok (clearKey sk s') = term_ok s'" for sk and s' :: "'a kbd_scheme"
    by (simp_all add: setKey_def clearKey_def term_ok_def con_ok_def)
  ultimately show ?thesis using assms(1) by (auto simp: printAscii_def)
qed

theorem printAscii_total_witness: "\<exists>s'. printAscii 0x44 kbd_boot = Some s' \<and> term_ok s'"
  by (rule printAscii_total) (simp_all add: term_ok_def con_ok_def kbd_boot_def)

text \<open>When the input buffer is full, the next ordinary key is stored behind it: the index is
  never compared with \<open>TERM_BUF_SIZE\<close>.\<close>

theorem term_buf_overflow:
  assumes "length (term_buf s) = 256" "index s = 256"
  shows "on_new_char_recvd [c, NUL] s = None"
  using assms by (simp add: on_new_char_recvd_def buf_read_def buf_write_def)

theorem term_buf_overflow_witness:
  "on_new_char_recvd [CHR ''a'', NUL] (kbd_boot\<lparr>index := 256\<rparr>) = None"
  by (rule term_buf_overflow) (simp_all add: kbd_boot_def)

text \<open>A letter key yields the capital when caps lock is on or a shift key is down, also when
  both hold: the exclusive or of the two masks is zero only when both are.\<close>

theorem letter_key_case:
  assumes "(sc, u, l) \<in> set letter_keys"
  shows "key_chars special sc =
     (if bit special 0 \<or> bit special 1 \<or> bit special 2 then u else l, NUL, NUL)"
proof -
  have "distinct (map fst letter_keys)" by (simp add: letter_keys_def)
  then have "map_of letter_keys sc = Some (u, l)" using assms by (simp add: map_of_eq_Some_iff)
  moreover have "map_of shift_keys sc = None"
    using assms by (auto simp: letter_keys_def shift_keys_def)
  ultimately show ?thesis by (simp only: key_chars_def option.case prod.case capital_iff)
qed

theorem letter_key_case_witness: "key_chars 3 0x1E = (CHR ''A'', NUL, NUL)"
  using letter_key_case [of "0x1E" "CHR ''A''" "CHR ''a''" 3] by (simp add: letter_keys_def bit_0)

text \<open>Pressing and releasing a shift key, and pressing caps lock or number lock twice, leave the
  state as it was.\<close>

theorem modifier_keys_roundtrip:
  assumes "\<not> bit (specialChars s) 1" "\<not> bit (specialChars s) 2"
  shows "Option.bind (printAscii 0x2A s) (printAscii 0xAA) = Some s \<and>
     Option.bind (printAscii 0x36 s) (printAscii 0xB6) = Some s \<and>
     Option.bind (printAscii 0x3A s) (printAscii 0x3A) = Some s \<and>
     Option.bind (printAscii 0x45 s) (printAscii 0x45) = Some s"
proof -
  have "bit (specialChars (setKey sk s)) (key_bit sk)" "\<not> bit (specialChars (clearKey sk s)) (key_bit sk)" for sk
    using bit_getBitmask [of sk] by (simp_all add: setKey_def clearKey_def bit_or_iff bit_and_iff bit_not_iff)
  then show ?thesis
    using assms set_clear_key [of s LSHIFT] set_clear_key [of s RSHIFT] set_clear_key [of s CAPS]
      set_clear_key [of s NUMLOCK]
    by (auto simp: printAscii_def isKey_iff) (simp_all add: key_bit_def)
qed

theorem modifier_keys_roundtrip_witness:
  "Option.bind (printAscii 0x2A kbd_boot) (printAscii 0xAA) = Some kbd_boot"
  using modifier_keys_roundtrip [of kbd_boot] by (simp add: kbd_boot_def)

end
