(* ===== verification/Tarfs.thy ===== *)
theory Tarfs
  imports Console
begin

text \<open>
  The archive file system, \<^verbatim>\<open>sys/tarfs.c\<close>. The archive linked into the kernel is the list of its
  bytes; a header pointer is the number of its 512-byte block, a pointer to contents the offset of its
  first byte. A read outside the archive is \<^const>\<open>None\<close>; a \<open>NULL\<close> result is \<open>Some None\<close>.

  The functions that scan the archive share the loop \<open>tar_walk\<close>; each gives it the part of its
  loop body between reading the header's size and advancing to the next header.
\<close>

subsection \<open>Headers\<close>

definition BUF_SIZE :: nat where "BUF_SIZE = 128"

definition FILES_ALLOWED :: nat where "FILES_ALLOWED = 64"

definition hdr_name :: "char list \<Rightarrow> nat \<Rightarrow> char list" where
  "hdr_name img b = drop (512 * b) img"

definition hdr_size :: "char list \<Rightarrow> nat \<Rightarrow> int option" where
  "hdr_size img b = map_option o_to_d (atoi (drop (512 * b + 124) img))"

definition hdr_typeflag :: "char list \<Rightarrow> nat \<Rightarrow> char list" where
  "hdr_typeflag img b = drop (512 * b + 156) img"

definition next_header :: "nat \<Rightarrow> int \<Rightarrow> nat" where
  "next_header b file_size = (if file_size > 0 then b + (nat file_size div 512 + 2) else b + 1)"

lemma next_header_less [simp]: "b < next_header b n" by (simp add: next_header_def)

function tar_walk :: "char list \<Rightarrow> (nat \<Rightarrow> int \<Rightarrow> 's \<Rightarrow> ('r + 's) option) \<Rightarrow> nat \<Rightarrow> 's \<Rightarrow> ('r + 's) option" where
  "tar_walk img body b s =
     (case hdr_name img b of [] \<Rightarrow> None
      | c # _ \<Rightarrow>
        if c = NUL then Some (Inr s)
        else do {
          file_size \<leftarrow> hdr_size img b;
          r \<leftarrow> body b file_size s;
          case r of Inl x \<Rightarrow> Some (Inl x)
          | Inr s \<Rightarrow>
             (if 512 * next_header b file_size < length img
              then tar_walk img body (next_header b file_size) s else Some (Inr s))
        })"
  by pat_completeness auto
termination
proof (relation "measure (\<lambda>(img, body, b, s). length img - b)", goal_cases)
  case (2 img body b s c cs file_size r s')
  then have "next_header b file_size < length img" by simp
  then show ?case using less_trans [OF next_header_less] by (simp add: diff_less_mono2)
qed simp

declare tar_walk.simps [simp del]

subsection \<open>Files\<close>

definition print_all_files :: "char list \<Rightarrow> 'a console_scheme \<Rightarrow> 'a console_scheme option" where
  "print_all_files img s = do {
     s \<leftarrow> kprintf (''Printing all available files in the tarfs:'' @ [CHR 0x0A, NUL]) [] s;
     r \<leftarrow> tar_walk img (\<lambda>b file_size s.
            map_option Inr (kprintf (''Name: %s, Size: %d bytes, Type: %s'' @ [CHR 0x0A, NUL])
              [VStr (hdr_name img b), VInt (of_int file_size), VStr (hdr_typeflag img b)] s)) 0 s;
     Some (case r of Inl s \<Rightarrow> s | Inr s \<Rightarrow> s)
   }"

definition get_file :: "char list \<Rightarrow> char list \<Rightarrow> 'a console_scheme \<Rightarrow> (nat option \<times> 'a console_scheme) option" where
  "get_file img filename s = do {
     r \<leftarrow> tar_walk img (\<lambda>b file_size u. do {
            c \<leftarrow> kstrcmp filename (hdr_name img b);
            Some (if c = 0 then Inl (512 * (b + 1)) else Inr u) }) 0 ();
     case r of Inl file \<Rightarrow> Some (Some file, s)
     | Inr _ \<Rightarrow> map_option (Pair None) (kprintf (''File not found.'' @ [CHR 0x0A, NUL]) [] s)
   }"

text \<open>The second operand of a conjunction is evaluated only when the first holds.\<close>

definition hdr_matches :: "char list \<Rightarrow> char list \<Rightarrow> int \<Rightarrow> nat \<Rightarrow> bool option" where
  "hdr_matches img filename flag b = do {
     c \<leftarrow> kstrcmp filename (hdr_name img b);
     if c = 0 then map_option (\<lambda>t. t = flag) (atoi (hdr_typeflag img b)) else Some False
   }"

definition get_file_binary :: "char list \<Rightarrow> char list \<Rightarrow> nat option option" where
  "get_file_binary img filename = do {
     r \<leftarrow> tar_walk img (\<lambda>b file_size u.
            map_option (\<lambda>m. if m then Inl (512 * (b + 1)) else Inr u) (hdr_matches img filename 0 b)) 0 ();
     Some (case r of Inl file \<Rightarrow> Some file | Inr _ \<Rightarrow> None)
   }"

definition dir_exists :: "char list \<Rightarrow> char list \<Rightarrow> int option" where
  "dir_exists img filename = do {
     r \<leftarrow> tar_walk img (\<lambda>b file_size u.
            map_option (\<lambda>m. if m then Inl 0 else Inr u) (hdr_matches img filename 5 b)) 0 ();
     Some (case r of Inl x \<Rightarrow> x | Inr _ \<Rightarrow> - 1)
   }"

text \<open>\<open>tarfs_read\<close>: the bytes from \<open>file + offset\<close> are the first argument.\<close>

fun tarfs_read_loop :: "char list \<Rightarrow> int \<Rightarrow> int \<Rightarrow> char list \<Rightarrow> (int \<times> char list) option" where
  "tarfs_read_loop [] len i buf = (if i < len then None else Some (len, buf))"
| "tarfs_read_loop (c # cs) len i buf =
     (if i < len then
        if c = NUL \<or> schar c = - 1 then Some (i, buf)
        else Option.bind (buf_write buf i c) (tarfs_read_loop cs len (i + 1))
      else Some (len, buf))"

definition tarfs_read :: "char list \<Rightarrow> char list \<Rightarrow> int \<Rightarrow> nat \<Rightarrow> nat \<Rightarrow> (int \<times> char list) option" where
  "tarfs_read img buf len file offset = tarfs_read_loop (drop (file + offset) img) len 0 buf"

subsection \<open>Directories\<close>

fun substr :: "char list \<Rightarrow> char list \<Rightarrow> int option" where
  "substr (c # cs) (d # ds) =
     (if c \<noteq> NUL \<and> d \<noteq> NUL then if c \<noteq> d then Some 0 else substr cs ds else Some 1)"
| "substr (c # cs) [] = (if c \<noteq> NUL then None else Some 1)"
| "substr [] ds = None"

record dir_header =
  current_point :: int
  file_count :: int
  files :: "char list list"
  dir_exists_flag :: int

text \<open>\<open>kmalloc\<close> returns cleared memory.\<close>

definition dir_new :: dir_header where
  "dir_new = \<lparr>current_point = 0, file_count = 0,
     files = replicate FILES_ALLOWED (replicate BUF_SIZE NUL), dir_exists_flag = 0\<rparr>"

definition folder_path :: "char list \<Rightarrow> char list option" where
  "folder_path name = do {
     n \<leftarrow> cstr name;
     if length n + 2 \<le> 256 then Some (n @ [CHR ''/'', NUL]) else None
   }"

definition add_file :: "char list \<Rightarrow> dir_header \<Rightarrow> dir_header option" where
  "add_file name d =
     (if 0 \<le> file_count d \<and> file_count d < int (length (files d)) then do {
        row \<leftarrow> copy_loop (files d ! nat (file_count d)) name;
        Some (d\<lparr>files := (files d)[nat (file_count d) := row], file_count := file_count d + 1,
                dir_exists_flag := 1\<rparr>)
      }
      else None)"

definition folder_step :: "char list \<Rightarrow> char list \<Rightarrow> nat \<Rightarrow> dir_header \<Rightarrow> dir_header option" where
  "folder_step img name b d = do {
     tmp_copy \<leftarrow> folder_path name;
     m \<leftarrow> substr name (hdr_name img b);
     c \<leftarrow> kstrcmp tmp_copy (hdr_name img b);
     if m \<noteq> 0 \<and> c \<noteq> 0 then add_file (hdr_name img b) d
     else if c = 0 then Some (d\<lparr>dir_exists_flag := 1\<rparr>)
     else Some d
   }"

definition scan_folder :: "char list \<Rightarrow> char list \<Rightarrow> dir_header option" where
  "scan_folder img name = do {
     r \<leftarrow> tar_walk img (\<lambda>b file_size d. map_option Inr (folder_step img name b d)) 0 dir_new;
     Some (case r of Inl d \<Rightarrow> d | Inr d \<Rightarrow> d)
   }"

definition read_dir_header :: "dir_header \<Rightarrow> char list \<Rightarrow> (int \<times> char list \<times> dir_header) option" where
  "read_dir_header d filename =
     (if current_point d \<ge> file_count d then Some (- 1, filename, d)
      else if 0 \<le> current_point d \<and> nat (current_point d) < length (files d) \<and> BUF_SIZE \<le> length filename
      then Some (0, take BUF_SIZE (files d ! nat (current_point d)) @ drop BUF_SIZE filename,
                 d\<lparr>current_point := current_point d + 1\<rparr>)
      else None)"

subsection \<open>Archives\<close>

text \<open>What the bytes of an archive say, by the format's own rule for the next header: contents are
  padded to whole blocks, and an empty header ends the archive.\<close>

record tar_entry =
  e_name :: "char list"
  e_type :: int
  e_size :: nat
  e_block :: nat

definition next_block :: "nat \<Rightarrow> nat \<Rightarrow> nat" where
  "next_block b n = b + 1 + (n + 511) div 512"

definition entry_at :: "char list \<Rightarrow> nat \<Rightarrow> tar_entry \<Rightarrow> bool" where
  "entry_at img b e \<longleftrightarrow> e_block e = b \<and> cstr (hdr_name img b) = Some (e_name e) \<and> e_name e \<noteq> [] \<and>
     hdr_size img b = Some (int (e_size e)) \<and> atoi (hdr_typeflag img b) = Some (e_type e)"

fun archive :: "char list \<Rightarrow> nat \<Rightarrow> tar_entry list \<Rightarrow> bool" where
  "archive img b [] \<longleftrightarrow> cstr (hdr_name img b) = Some []"
| "archive img b (e # es) \<longleftrightarrow> entry_at img b e \<and> archive img (next_block b (e_size e)) es"

text \<open>The scan follows the format except behind contents that fill their last block.\<close>

definition scan_follows :: "tar_entry \<Rightarrow> bool" where
  "scan_follows e \<longleftrightarrow> e_size e = 0 \<or> e_size e mod 512 \<noteq> 0"

lemma ceil_512: "(n + 511) div 512 = n div 512 + (if n mod 512 = 0 then 0 else 1 :: nat)"
proof -
  have "(n + 511) div 512 = (512 * (n div 512) + (n mod 512 + 511)) div 512"
    by (rule arg_cong [where f = "\<lambda>x. x div 512"]) (simp only: add.assoc [symmetric] mult_div_mod_eq)
  also have "\<dots> = n div 512 + (n mod 512 + 511) div 512" by (rule div_mult_self4) simp
  also have "(n mod 512 + 511) div 512 = (if n mod 512 = 0 then 0 else 1)"
  proof (cases "n mod 512 = 0")
    case False
    moreover have "n mod 512 < 512" by simp
    ultimately show ?thesis by (simp only: if_False)
  qed simp
  finally show ?thesis .
qed

lemma next_header_block: "next_header b (int n) = next_block b n + (if n \<noteq> 0 \<and> n mod 512 = 0 then 1 else 0)"
  unfolding next_header_def next_block_def ceil_512 by (cases "n = 0") simp_all

fun walk_entries :: "(nat \<Rightarrow> int \<Rightarrow> 's \<Rightarrow> ('r + 's) option) \<Rightarrow> tar_entry list \<Rightarrow> 's \<Rightarrow> ('r + 's) option" where
  "walk_entries body [] s = Some (Inr s)"
| "walk_entries body (e # es) s = do {
     r \<leftarrow> body (e_block e) (int (e_size e)) s;
     case r of Inl x \<Rightarrow> Some (Inl x) | Inr s \<Rightarrow> walk_entries body es s
   }"

lemma archive_inside: "archive img b es \<Longrightarrow> 512 * b < length img"
  by (cases es) (auto simp: entry_at_def hdr_name_def dest!: cstr_SomeD intro: ccontr)

lemma tar_walk_archive:
  assumes "archive img b es" "list_all scan_follows es"
  shows "tar_walk img body b s = walk_entries body es s"
  using assms
proof (induction es arbitrary: b s)
  case Nil
  then obtain ys where "hdr_name img b = NUL # ys" using cstr_SomeD by fastforce
  then show ?case by (subst tar_walk.simps) simp
next
  case (Cons e es)
  have e: "e_block e = b" "hdr_size img b = Some (int (e_size e))" "cstr (hdr_name img b) = Some (e_name e)" "e_name e \<noteq> []"
    and n: "next_header b (int (e_size e)) = next_block b (e_size e)"
    using Cons.prems by (auto simp: entry_at_def scan_follows_def next_header_block)
  obtain ys where "hdr_name img b = e_name e @ NUL # ys" "NUL \<notin> set (e_name e)" using cstr_SomeD [OF e(3)] by blast
  then obtain c cs where c: "hdr_name img b = c # cs" "c \<noteq> NUL" using e(4) by (cases "e_name e") auto
  have i: "512 * next_block b (e_size e) < length img" using Cons.prems archive_inside [of img _ es] by auto
  have "tar_walk img body (next_block b (e_size e)) s' = walk_entries body es s'" for s'
    using Cons.IH Cons.prems by simp
  with e c n i show ?case by (subst tar_walk.simps) (auto intro!: Option.bind_cong split: sum.splits)
qed

lemma hdr_matches_entry:
  assumes "entry_at img b e" "cstr filename = Some f"
  shows "hdr_matches img filename flag b = Some (e_name e = f \<and> e_type e = flag)"
proof -
  have "\<exists>d. kstrcmp filename (hdr_name img b) = Some d \<and> (d = 0 \<longleftrightarrow> f = e_name e)"
  proof -
    obtain r1 where r1: "filename = f @ NUL # r1" "NUL \<notin> set f" using cstr_SomeD [OF assms(2)] by blast
    obtain r2 where r2: "hdr_name img b = e_name e @ NUL # r2" "NUL \<notin> set (e_name e)"
      using assms(1) cstr_SomeD by (auto simp: entry_at_def)
    show ?thesis using kstrcmp_text [OF r1(2) r2(2), of r1 r2] unfolding r1(1) r2(1) by blast
  qed
  then show ?thesis using assms by (auto simp: hdr_matches_def entry_at_def)
qed

lemma archive_entries: "archive img b es \<Longrightarrow> e \<in> set es \<Longrightarrow> entry_at img (e_block e) e"
  by (induction es arbitrary: b) (auto simp: entry_at_def)

lemma walk_find:
  assumes "\<forall>e \<in> set es. entry_at img (e_block e) e" "cstr filename = Some f"
  shows "walk_entries (\<lambda>b file_size u. map_option (\<lambda>m. if m then Inl (g b) else Inr u)
        (hdr_matches img filename flag b)) es () =
     Some (case find (\<lambda>e. e_name e = f \<and> e_type e = flag) es of Some e \<Rightarrow> Inl (g (e_block e)) | None \<Rightarrow> Inr ())"
  using assms by (induction es) (auto simp: hdr_matches_entry)

subsection \<open>Reading\<close>

lemma tarfs_read_loop_text:
  assumes "nat i + n \<le> length buf" "0 \<le> i"
    and "t = takeWhile (\<lambda>c. c \<noteq> NUL \<and> schar c \<noteq> - 1) (take n cs)" "length t = n \<or> length t < length cs"
  shows "tarfs_read_loop cs (i + int n) i buf = Some (i + int (length t), take (nat i) buf @ t @ drop (nat i + length t) buf)"
  using assms
proof (induction cs arbitrary: i n buf t)
  case (Cons c cs)
  show ?case
  proof (cases n)
    case 0
    then show ?thesis using Cons.prems by simp
  next
    case (Suc m)
    show ?thesis
    proof (cases "c = NUL \<or> schar c = - 1")
      case True
      then show ?thesis using Cons.prems Suc by auto
    next
      case False
      let ?t = "takeWhile (\<lambda>c. c \<noteq> NUL \<and> schar c \<noteq> - 1) (take m cs)"
      have t: "t = c # ?t" using False Cons.prems Suc by simp
      have w: "buf_write buf i c = Some (buf[nat i := c])" using Cons.prems Suc by (simp add: buf_write_def)
      have "tarfs_read_loop cs ((i + 1) + int m) (i + 1) (buf[nat i := c]) =
          Some ((i + 1) + int (length ?t), take (nat (i + 1)) (buf[nat i := c]) @ ?t @ drop (nat (i + 1) + length ?t) (buf[nat i := c]))"
        using Cons.prems Suc t by (intro Cons.IH) auto
      moreover have "take (nat (i + 1)) (buf[nat i := c]) = take (nat i) buf @ [c]"
        using Cons.prems Suc by (simp add: nat_add_distrib take_Suc_conv_app_nth)
      moreover have "drop (nat (i + 1) + length ?t) (buf[nat i := c]) = drop (nat i + Suc (length ?t)) buf"
        using Cons.prems by (simp add: nat_add_distrib)
      ultimately show ?thesis using False w Suc t by (simp add: algebra_simps)
    qed
  qed
qed simp

subsection \<open>Properties\<close>

text \<open>C35. Looking a file up: on an archive in which no contents fill their last block,
  \<open>get_file_binary\<close> returns the address of the contents of the first regular file with the name, and
  \<open>NULL\<close> exactly when there is none; \<open>dir_exists\<close> answers 0 exactly for the names of directories.\<close>

theorem get_file_binary_finds:
  assumes "archive img 0 es" "list_all scan_follows es" "cstr filename = Some f"
  shows "get_file_binary img filename =
       Some (map_option (\<lambda>e. 512 * (e_block e + 1)) (find (\<lambda>e. e_name e = f \<and> e_type e = 0) es)) \<and>
     dir_exists img filename = Some (if \<exists>e \<in> set es. e_name e = f \<and> e_type e = 5 then 0 else - 1)"
proof -
  have e: "\<forall>e \<in> set es. entry_at img (e_block e) e" using archive_entries [OF assms(1)] by blast
  have "get_file_binary img filename =
      Some (map_option (\<lambda>e. 512 * (e_block e + 1)) (find (\<lambda>e. e_name e = f \<and> e_type e = 0) es))"
    unfolding get_file_binary_def tar_walk_archive [OF assms(1,2)] walk_find [OF e assms(3)]
    by (cases "find (\<lambda>e. e_name e = f \<and> e_type e = 0) es") simp_all
  moreover have "dir_exists img filename =
      Some (if find (\<lambda>e. e_name e = f \<and> e_type e = 5) es \<noteq> None then 0 else - 1)"
    unfolding dir_exists_def tar_walk_archive [OF assms(1,2)] walk_find [OF e assms(3)]
    by (cases "find (\<lambda>e. e_name e = f \<and> e_type e = 5) es") simp_all
  moreover have "find (\<lambda>e. e_name e = f \<and> e_type e = 5) es \<noteq> None \<longleftrightarrow> (\<exists>e \<in> set es. e_name e = f \<and> e_type e = 5)"
    by (auto simp: find_None_iff)
  ultimately show ?thesis by (simp only: simp_thms)
qed

definition img_small :: "char list" where
  "img_small = ''bin/ls'' @ NUL # replicate 117 NUL @ ''00000000003'' @ NUL # replicate 20 NUL @
     ''0'' @ NUL # replicate 354 NUL @ ''ELF'' @ NUL # replicate 508 NUL @ NUL # replicate 511 NUL"

lemma img_small_archive: "archive img_small 0 [\<lparr>e_name = ''bin/ls'', e_type = 0, e_size = 3, e_block = 0\<rparr>]"
proof -
  have d: "hdr_name img_small 0 = ''bin/ls'' @ NUL # drop 7 img_small" "hdr_name img_small 2 = [] @ NUL # replicate 511 NUL"
    "drop 124 img_small = ''00000000003'' @ NUL # drop 136 img_small"
    "hdr_typeflag img_small 0 = ''0'' @ NUL # drop 158 img_small"
    by (simp_all add: img_small_def hdr_name_def hdr_typeflag_def)
  have "atoi (''00000000003'' @ NUL # r) = Some 3" "atoi (''0'' @ NUL # r) = Some 0" for r
    by (simp_all add: atoi_def atoi_sign_def schar_def)
  moreover have "o_to_d 3 = 3" by code_simp
  moreover have "cstr (''bin/ls'' @ NUL # r) = Some ''bin/ls''" for r by (rule cstr_append) simp
  moreover have "cstr ([] @ NUL # r) = Some []" for r by simp
  moreover have "next_block 0 3 = 2" by (simp add: next_block_def)
  ultimately show ?thesis
    by (simp only: archive.simps entry_at_def hdr_size_def d tar_entry.simps) (simp add: d [simplified])
qed

theorem get_file_binary_finds_witness: "get_file_binary img_small (''bin/ls'' @ [NUL]) = Some (Some 512)"
proof -
  have "cstr (''bin/ls'' @ [NUL]) = Some ''bin/ls''" by simp
  from get_file_binary_finds [OF img_small_archive _ this] show ?thesis by (simp add: scan_follows_def)
qed

text \<open>C36. Reading a file copies its bytes up to the first NUL or \<open>0xFF\<close> byte, at most \<open>len\<close> of them,
  returns their number and leaves the rest of the caller's buffer alone; it never reads behind the
  archive when the contents end in such a byte.\<close>

theorem tarfs_read_prefix:
  assumes "n \<le> length buf" "t = takeWhile (\<lambda>c. c \<noteq> NUL \<and> schar c \<noteq> - 1) (take n (drop (file + offset) img))"
    and "length t = n \<or> length t < length (drop (file + offset) img)"
  shows "tarfs_read img buf (int n) file offset = Some (int (length t), t @ drop (length t) buf)"
  using tarfs_read_loop_text [of 0 n buf t "drop (file + offset) img"] assms by (simp add: tarfs_read_def)

theorem tarfs_read_prefix_witness:
  "tarfs_read (''xxhello'' @ [NUL]) (replicate 8 NUL) 8 2 0 = Some (5, ''hello'' @ replicate 3 NUL)"
  using tarfs_read_prefix [of 8 "replicate 8 NUL" "''hello''" 2 0 "''xxhello'' @ [NUL]"]
  by (simp add: schar_def numeral_eq_Suc)

text \<open>The scan reaches the header the format puts behind a file's contents exactly when the
  contents are empty or do not fill their last block; otherwise it goes one block too far.\<close>

theorem next_header_follows_format:
  "(next_header b (int n) = next_block b n \<longleftrightarrow> n = 0 \<or> n mod 512 \<noteq> 0) \<and>
   (next_header b (int n) = next_block b n + 1 \<longleftrightarrow> n \<noteq> 0 \<and> n mod 512 = 0)"
  by (simp add: next_header_block)

theorem next_header_follows_format_witness: "next_header 0 1024 = next_block 0 1024 + 1"
  using next_header_follows_format [of 0 1024] by simp

end
