(* ===== verification/Kernel_State.thy ===== *)
theory Kernel_State
  imports Cow Terminal Tarfs
begin

text \<open>
  The state of the whole kernel and its file objects (\<^verbatim>\<open>sys/vfs.c\<close>). The record \<open>kernel\<close> adds
  to the machine of \<open>Paging\<close> the device state, the archive, the table of process identifiers and
  one typed heap for each structure the kernel allocates: \<open>kmalloc\<close> returns cleared pages of its
  own (\<open>Kernel_Heap\<close>), so the structures at two of its results never overlap, and \<open>kfree\<close> leaves
  their contents alone. An absent address is a \<open>NULL\<close> or wild pointer.

  Kernel stacks, \<open>rsp_val\<close> and the names of processes are not part of \<open>kthread\<close>: what runs
  next is told by \<open>current_process\<close>, which the assembly routine \<open>switch_to\<close> sets. The theory \<open>Context\<close> has
  the stacks.
\<close>

subsection \<open>Structures\<close>

datatype process_state = RUNNING | ZOMBIE | QUEUED

record kthread =
  rsp_user :: u64
  pid :: int
  t_cr3 :: u64
  process_mm :: u64
  rip :: u64
  ppid :: int
  num_child :: int
  t_next :: u64
  fds :: "u64 list"
  cwd :: "char list"
  p_state :: process_state

record vma_struct =
  vm_start :: u64
  vm_end :: u64
  vm_type :: u64
  vm_flags :: u64
  vm_next :: u64

record mm_struct =
  vma_map :: u64
  vma_map_iter :: u64
  vma_stack :: u64
  vma_heap :: u64

datatype file_sys_impl = TERMINAL_FS | TARFS_IMPL

record file_object =
  file_path :: u64
  fo_impl :: "file_sys_impl option"
  fo_ref_count :: u16
  content_start :: nat
  fo_offset :: u32

record kernel = vm +
  con :: kbd
  tarfs :: "char list"
  processes :: "int list"
  threads :: "u64 \<Rightarrow> kthread option"
  mms :: "u64 \<Rightarrow> mm_struct option"
  vmas :: "u64 \<Rightarrow> vma_struct option"
  fos :: "u64 \<Rightarrow> file_object option"
  dirs :: "u64 \<Rightarrow> dir_header option"
  current_process :: u64
  stdin_fo :: u64
  stdout_fo :: u64
  tarfs_impl :: u64
  tss_rsp0 :: u64
  sleep_val :: u32
  time_since_boot :: u64

definition NUM_FDS :: nat where "NUM_FDS = 16"

definition MAX_P :: nat where "MAX_P = 1000"

definition HEAP_START :: u64 where "HEAP_START = 0x08000000"

definition STACK_START :: u64 where "STACK_START = 0xF0000000"

text \<open>Cleared memory of each type.\<close>

definition kthread_zero :: kthread where
  "kthread_zero = \<lparr>rsp_user = 0, pid = 0, t_cr3 = 0, process_mm = 0, rip = 0, ppid = 0, num_child = 0,
     t_next = 0, fds = replicate NUM_FDS 0, cwd = replicate BUF_SIZE NUL, p_state = RUNNING\<rparr>"

definition vma_zero :: vma_struct where
  "vma_zero = \<lparr>vm_start = 0, vm_end = 0, vm_type = 0, vm_flags = 0, vm_next = 0\<rparr>"

definition mm_zero :: mm_struct where
  "mm_zero = \<lparr>vma_map = 0, vma_map_iter = 0, vma_stack = 0, vma_heap = 0\<rparr>"

definition fo_zero :: file_object where
  "fo_zero = \<lparr>file_path = 0, fo_impl = None, fo_ref_count = 0, content_start = 0, fo_offset = 0\<rparr>"

subsection \<open>Access through pointers\<close>

definition upd_thread :: "u64 \<Rightarrow> (kthread \<Rightarrow> kthread) \<Rightarrow> 'a kernel_scheme \<Rightarrow> 'a kernel_scheme option" where
  "upd_thread p f k = map_option (\<lambda>t. k\<lparr>threads := (threads k)(p \<mapsto> f t)\<rparr>) (threads k p)"

definition upd_vma :: "u64 \<Rightarrow> (vma_struct \<Rightarrow> vma_struct) \<Rightarrow> 'a kernel_scheme \<Rightarrow> 'a kernel_scheme option" where
  "upd_vma p f k = map_option (\<lambda>t. k\<lparr>vmas := (vmas k)(p \<mapsto> f t)\<rparr>) (vmas k p)"

definition upd_mm :: "u64 \<Rightarrow> (mm_struct \<Rightarrow> mm_struct) \<Rightarrow> 'a kernel_scheme \<Rightarrow> 'a kernel_scheme option" where
  "upd_mm p f k = map_option (\<lambda>t. k\<lparr>mms := (mms k)(p \<mapsto> f t)\<rparr>) (mms k p)"

definition upd_fo :: "u64 \<Rightarrow> (file_object \<Rightarrow> file_object) \<Rightarrow> 'a kernel_scheme \<Rightarrow> 'a kernel_scheme option" where
  "upd_fo p f k = map_option (\<lambda>t. k\<lparr>fos := (fos k)(p \<mapsto> f t)\<rparr>) (fos k p)"

definition on_con :: "(kbd \<Rightarrow> kbd option) \<Rightarrow> 'a kernel_scheme \<Rightarrow> 'a kernel_scheme option" where
  "on_con f k = map_option (\<lambda>c. k\<lparr>con := c\<rparr>) (f (con k))"

definition kputs :: "char list \<Rightarrow> vararg list \<Rightarrow> 'a kernel_scheme \<Rightarrow> 'a kernel_scheme option" where
  "kputs fmt args = on_con (kprintf (fmt @ [NUL]) args)"

definition alloc_thread :: "'a kernel_scheme \<Rightarrow> (u64 \<times> 'a kernel_scheme) option" where
  "alloc_thread k = map_option (\<lambda>(p, k). (p, k\<lparr>threads := (threads k)(p \<mapsto> kthread_zero)\<rparr>)) (kmalloc 33096 k)"

definition alloc_vma :: "'a kernel_scheme \<Rightarrow> (u64 \<times> 'a kernel_scheme) option" where
  "alloc_vma k = map_option (\<lambda>(p, k). (p, k\<lparr>vmas := (vmas k)(p \<mapsto> vma_zero)\<rparr>)) (kmalloc 40 k)"

definition alloc_mm :: "'a kernel_scheme \<Rightarrow> (u64 \<times> 'a kernel_scheme) option" where
  "alloc_mm k = map_option (\<lambda>(p, k). (p, k\<lparr>mms := (mms k)(p \<mapsto> mm_zero)\<rparr>)) (kmalloc 32 k)"

definition alloc_fo :: "'a kernel_scheme \<Rightarrow> (u64 \<times> 'a kernel_scheme) option" where
  "alloc_fo k = map_option (\<lambda>(p, k). (p, k\<lparr>fos := (fos k)(p \<mapsto> fo_zero)\<rparr>)) (kmalloc 40 k)"

definition set_tss_rsp :: "u64 \<Rightarrow> 'a kernel_scheme \<Rightarrow> 'a kernel_scheme" where
  "set_tss_rsp rsp k = k\<lparr>tss_rsp0 := rsp\<rparr>"

subsection \<open>File objects of the terminal\<close>

text \<open>The path is the address of a string constant, which nothing reads.\<close>

definition create_terminal_fo :: "u64 \<Rightarrow> 'a kernel_scheme \<Rightarrow> (u64 \<times> 'a kernel_scheme) option" where
  "create_terminal_fo name k = do {
     (fo, k) \<leftarrow> alloc_fo k;
     k \<leftarrow> upd_fo fo (\<lambda>f. f\<lparr>file_path := name, fo_offset := 0, fo_impl := Some TERMINAL_FS, fo_ref_count := 0\<rparr>) k;
     Some (fo, k)
   }"

definition get_stdin_fo :: "'a kernel_scheme \<Rightarrow> (u64 \<times> 'a kernel_scheme) option" where
  "get_stdin_fo k =
     (if stdin_fo k = 0 then do {
        (fo, k) \<leftarrow> create_terminal_fo 0 k;
        Some (fo, k\<lparr>stdin_fo := fo\<rparr>)
      }
      else Some (stdin_fo k, k))"

definition get_stdout_fo :: "'a kernel_scheme \<Rightarrow> (u64 \<times> 'a kernel_scheme) option" where
  "get_stdout_fo k =
     (if stdout_fo k = 0 then do {
        (fo, k) \<leftarrow> create_terminal_fo 0 k;
        Some (fo, k\<lparr>stdout_fo := fo\<rparr>)
      }
      else Some (stdout_fo k, k))"

text \<open>The standard descriptors of a thread, as the process functions set them up.\<close>

definition set_std_fds :: "u64 \<Rightarrow> 'a kernel_scheme \<Rightarrow> 'a kernel_scheme option" where
  "set_std_fds p k = do {
     (i, k) \<leftarrow> get_stdin_fo k;
     k \<leftarrow> upd_fo i (\<lambda>f. f\<lparr>fo_ref_count := fo_ref_count f + 1\<rparr>) k;
     k \<leftarrow> upd_thread p (\<lambda>t. t\<lparr>fds := (fds t)[0 := i]\<rparr>) k;
     (out, k) \<leftarrow> get_stdout_fo k;
     k \<leftarrow> upd_fo out (\<lambda>f. f\<lparr>fo_ref_count := fo_ref_count f + 1\<rparr>) k;
     upd_thread p (\<lambda>t. t\<lparr>fds := (fds t)[1 := out, 2 := out]\<rparr>) k
   }"

end
