(* ===== verification/Elf.thy ===== *)
theory Elf
  imports Kernel_State
begin

text \<open>
  The program loader, \<^verbatim>\<open>sys/elf64.c\<close>: it reads the program headers from the archive, maps fresh
  pages for every loadable segment, the heap and the stack, copies the segments' contents through the
  page tables and links the memory areas of the process.
\<close>

subsection \<open>Reading the image\<close>

text \<open>A little-endian number of \<open>n\<close> bytes at an offset of the archive.\<close>

fun le_val :: "char list \<Rightarrow> nat" where
  "le_val [] = 0"
| "le_val (c # cs) = of_char c + 256 * le_val cs"

definition img_num :: "char list \<Rightarrow> nat \<Rightarrow> nat \<Rightarrow> u64 option" where
  "img_num img off n = (if off + n \<le> length img then Some (of_nat (le_val (take n (drop off img)))) else None)"

record elf_phdr =
  p_type :: u64
  p_flags :: u64
  p_offset :: u64
  p_vaddr :: u64
  p_filesz :: u64
  p_memsz :: u64

definition read_phdr :: "char list \<Rightarrow> nat \<Rightarrow> elf_phdr option" where
  "read_phdr img phdr = do {
     ty \<leftarrow> img_num img phdr 4;
     fl \<leftarrow> img_num img (phdr + 4) 4;
     off \<leftarrow> img_num img (phdr + 8) 8;
     va \<leftarrow> img_num img (phdr + 16) 8;
     fs \<leftarrow> img_num img (phdr + 32) 8;
     ms \<leftarrow> img_num img (phdr + 40) 8;
     Some \<lparr>p_type = ty, p_flags = fl, p_offset = off, p_vaddr = va, p_filesz = fs, p_memsz = ms\<rparr>
   }"

subsection \<open>Loading\<close>

definition map_user_page :: "nat \<Rightarrow> u64 \<times> 'a kernel_scheme \<Rightarrow> (u64 \<times> 'a kernel_scheme) option" where
  "map_user_page i vk = do {
     let (v_addr, k) = vk;
     (page, k) \<leftarrow> get_free_page k;
     k \<leftarrow> update_page_tables v_addr page PAGING_USER_R_W_FLAGS k;
     Some (v_addr + PAGE_SIZE, k)
   }"

text \<open>\<open>memcpy\<close> from the archive to virtual memory; the length is converted to \<open>int\<close>.\<close>

definition copy_segment :: "u64 \<Rightarrow> nat \<Rightarrow> u64 \<Rightarrow> 'a kernel_scheme \<Rightarrow> 'a kernel_scheme option" where
  "copy_segment dest src bytes k =
     foldM (\<lambda>i k. if src + i < length (tarfs k)
              then vstore8 (dest + of_nat i) (of_nat (of_char (tarfs k ! (src + i)))) k else None)
       [0..<nat (sint (ucast bytes :: u32))] k"

text \<open>Appends a memory area to the list that ends in \<open>iter\<close>.\<close>

definition link_vma :: "u64 \<Rightarrow> u64 \<times> u64 \<Rightarrow> 'a kernel_scheme \<Rightarrow> ((u64 \<times> u64) \<times> 'a kernel_scheme) option" where
  "link_vma vma mi k =
     (if snd mi \<noteq> 0
      then map_option (Pair (fst mi, vma)) (upd_vma (snd mi) (\<lambda>v. v\<lparr>vm_next := vma\<rparr>) k)
      else Some ((vma, vma), k))"

definition segment_pages :: "u64 \<Rightarrow> u64 \<Rightarrow> u64" where
  "segment_pages start end =
     ((end div PAGE_SIZE + 1) * PAGE_SIZE - (start div PAGE_SIZE) * PAGE_SIZE) div PAGE_SIZE"

definition load_segment ::
    "nat \<Rightarrow> elf_phdr \<Rightarrow> (u64 \<times> u64) \<times> 'a kernel_scheme \<Rightarrow> ((u64 \<times> u64) \<times> 'a kernel_scheme) option" where
  "load_segment ehdr ph mik =
     (let (mi, k) = mik
      in if p_type ph = 1 then do {
           (vma, k) \<leftarrow> alloc_vma k;
           let start = p_vaddr ph;
           let end = p_vaddr ph + p_memsz ph;
           k \<leftarrow> upd_vma vma (\<lambda>v. v\<lparr>vm_start := start, vm_end := end\<rparr>) k;
           let pages = segment_pages start end + 1;
           (v_addr, k) \<leftarrow> foldM map_user_page [0..<unat pages] ((p_vaddr ph div PAGE_SIZE) * PAGE_SIZE, k);
           k \<leftarrow> upd_vma vma (\<lambda>v. v\<lparr>vm_flags := p_flags ph, vm_type := 5, vm_next := 0\<rparr>) k;
           k \<leftarrow> copy_segment start (ehdr + unat (p_offset ph)) (p_filesz ph) k;
           k \<leftarrow> (if p_flags ph = 5 then upd_vma vma (\<lambda>v. v\<lparr>vm_type := 1\<rparr>) k
                 else if p_flags ph = 6 then upd_vma vma (\<lambda>v. v\<lparr>vm_type := 2\<rparr>) k
                 else Some k);
           link_vma vma mi k
         }
         else Some (mi, k))"

definition load_segments ::
    "nat \<Rightarrow> nat \<Rightarrow> nat \<Rightarrow> (u64 \<times> u64) \<times> 'a kernel_scheme \<Rightarrow> ((u64 \<times> u64) \<times> 'a kernel_scheme) option" where
  "load_segments ehdr phdr phnum =
     foldM (\<lambda>i (mi, k). Option.bind (read_phdr (tarfs k) (phdr + 56 * i))
         (\<lambda>ph. load_segment ehdr ph (mi, k))) [0..<phnum]"

definition load_heap_stack :: "u64 \<Rightarrow> (u64 \<times> u64) \<times> 'a kernel_scheme \<Rightarrow> 'a kernel_scheme option" where
  "load_heap_stack new_process mik = do {
     let (mi, k) = mik;
     (heap, k) \<leftarrow> alloc_vma k;
     k \<leftarrow> upd_vma heap (\<lambda>v. v\<lparr>vm_start := HEAP_START, vm_end := HEAP_START + PAGE_SIZE, vm_type := 3,
           vm_flags := 6, vm_next := 0\<rparr>) k;
     (mi, k) \<leftarrow> link_vma heap mi k;
     (page, k) \<leftarrow> get_free_page k;
     k \<leftarrow> update_page_tables HEAP_START page PAGING_USER_R_W_FLAGS k;
     (stack, k) \<leftarrow> alloc_vma k;
     (page, k) \<leftarrow> get_free_page k;
     k \<leftarrow> update_page_tables STACK_START page PAGING_USER_R_W_FLAGS k;
     k \<leftarrow> upd_vma stack (\<lambda>v. v\<lparr>vm_start := STACK_START + PAGE_SIZE - 16, vm_end := STACK_START, vm_type := 4,
           vm_flags := 6, vm_next := 0\<rparr>) k;
     t \<leftarrow> threads k new_process;
     k \<leftarrow> upd_mm (process_mm t) (\<lambda>m. m\<lparr>vma_map := fst mi, vma_map_iter := snd mi, vma_stack := stack, vma_heap := heap\<rparr>) k;
     upd_thread new_process (\<lambda>t. t\<lparr>rsp_user := STACK_START + 4096 - 16\<rparr>) k
   }"

definition load_file :: "u64 \<Rightarrow> char list \<Rightarrow> 'a kernel_scheme \<Rightarrow> (int \<times> 'a kernel_scheme) option" where
  "load_file new_process filename k = do {
     location \<leftarrow> get_file_binary (tarfs k) filename;
     case location of None \<Rightarrow> Some (- 1, k)
     | Some ehdr \<Rightarrow> do {
         e_entry \<leftarrow> img_num (tarfs k) (ehdr + 24) 8;
         e_phoff \<leftarrow> img_num (tarfs k) (ehdr + 32) 8;
         e_phnum \<leftarrow> img_num (tarfs k) (ehdr + 56) 2;
         k \<leftarrow> upd_thread new_process (\<lambda>t. t\<lparr>rip := e_entry\<rparr>) k;
         mik \<leftarrow> load_segments ehdr (ehdr + unat e_phoff) (unat e_phnum) ((0, 0), k);
         map_option (Pair 0) (load_heap_stack new_process mik)
       }
   }"

end
