(* ===== verification/Process.thy ===== *)
theory Process
  imports Elf
begin

text \<open>
  Processes, \<^verbatim>\<open>sys/process.c\<close>: identifiers, creation, fork and exec, the scheduler over the ring of
  threads, user memory, waiting, reaping and killing.

  The loops over the ring follow \<open>next\<close> pointers for as long as the source does; where the ring is
  broken they do not end, which is \<^const>\<open>None\<close>. A function that gives up the processor
  (\<open>switch_to\<close>) leaves the state in which the next process runs. Control transfers to ring 3 end
  the operation.
\<close>

subsection \<open>Identifiers\<close>

definition getPID :: "'a kernel_scheme \<Rightarrow> int \<times> 'a kernel_scheme" where
  "getPID k =
     (case find (\<lambda>i. processes k ! i = 0) [1..<MAX_P] of
        Some i \<Rightarrow> (int i, k\<lparr>processes := (processes k)[i := 1]\<rparr>)
      | None \<Rightarrow> (- 1, k))"

definition get_process_pid :: "'a kernel_scheme \<Rightarrow> int option" where
  "get_process_pid k = map_option pid (threads k (current_process k))"

definition get_process_ppid :: "'a kernel_scheme \<Rightarrow> int option" where
  "get_process_ppid k = map_option ppid (threads k (current_process k))"

definition init_processes :: "'a kernel_scheme \<Rightarrow> 'a kernel_scheme" where
  "init_processes k = k\<lparr>processes := fold (\<lambda>i ps. ps[i := 0]) [0..<MAX_P] (processes k)\<rparr>"

subsection \<open>Creation\<close>

text \<open>The address of the code of \<open>init_scheduler\<close> is an argument.\<close>

definition init_idle_process :: "u64 \<Rightarrow> 'a kernel_scheme \<Rightarrow> (u64 \<times> 'a kernel_scheme) option" where
  "init_idle_process init_scheduler k = do {
     (idle, k) \<leftarrow> alloc_thread k;
     let (p, k) = getPID k;
     k \<leftarrow> upd_thread idle (\<lambda>t. t\<lparr>pid := p, ppid := 0, process_mm := 0, t_cr3 := get_cr3 k,
           rip := init_scheduler, t_next := idle, num_child := 0\<rparr>) k;
     let k = k\<lparr>current_process := idle\<rparr>;
     k \<leftarrow> set_std_fds idle k;
     k \<leftarrow> upd_thread idle (\<lambda>t. t\<lparr>p_state := RUNNING\<rparr>) k;
     Some (idle, k)
   }"

text \<open>The directory of a path, up to and including its last slash; without one the search runs off
  the front of the string.\<close>

definition dir_of :: "char list \<Rightarrow> char list option" where
  "dir_of f = (if CHR ''/'' \<in> set f then Some (rev (dropWhile (\<lambda>c. c \<noteq> CHR ''/'') (rev f))) else None)"

definition create_process :: "char list \<Rightarrow> 'a kernel_scheme \<Rightarrow> (u64 \<times> 'a kernel_scheme) option" where
  "create_process filename k = do {
     (new, k) \<leftarrow> alloc_thread k;
     let (p, k) = getPID k;
     k \<leftarrow> upd_thread new (\<lambda>t. t\<lparr>pid := p, t_next := 0, num_child := 0\<rparr>) k;
     f \<leftarrow> cstr filename;
     dir \<leftarrow> dir_of f;
     if length f < BUF_SIZE then do {
       k \<leftarrow> upd_thread new (\<lambda>t. t\<lparr>cwd := dir @ NUL # drop (length dir + 1) (cwd t)\<rparr>) k;
       (root, k) \<leftarrow> setup_user_page_tables k;
       k \<leftarrow> upd_thread new (\<lambda>t. t\<lparr>t_cr3 := root\<rparr>) k;
       let current_cr3 = get_cr3 k;
       let k = set_new_cr3 root k;
       (mm, k) \<leftarrow> alloc_mm k;
       k \<leftarrow> upd_thread new (\<lambda>t. t\<lparr>process_mm := mm\<rparr>) k;
       k \<leftarrow> set_std_fds new k;
       (r, k) \<leftarrow> load_file new filename k;
       let k = set_new_cr3 current_cr3 k;
       k \<leftarrow> upd_thread new (\<lambda>t. t\<lparr>p_state := QUEUED\<rparr>) k;
       k \<leftarrow> upd_thread (current_process k) (\<lambda>t. t\<lparr>t_next := new\<rparr>) k;
       k \<leftarrow> upd_thread new (\<lambda>t. t\<lparr>t_next := current_process k\<rparr>) k;
       Some (new, k)
     }
     else None
   }"

subsection \<open>User memory\<close>

definition user_malloc_end :: "u64 \<Rightarrow> u64 \<Rightarrow> u64" where
  "user_malloc_end start_alloc bytes =
     (if bytes mod PAGE_SIZE = 0 then start_alloc + bytes
      else start_alloc + (bytes div PAGE_SIZE + 1) * PAGE_SIZE)"

partial_function (option) map_range :: "u64 \<Rightarrow> u64 \<Rightarrow> 'a kernel_scheme \<Rightarrow> 'a kernel_scheme option" where
  "map_range start_alloc end_alloc k =
     (if start_alloc < end_alloc then do {
        (page, k) \<leftarrow> get_free_page k;
        k \<leftarrow> update_page_tables start_alloc page PAGING_USER_R_W_FLAGS k;
        map_range (start_alloc + PAGE_SIZE) end_alloc k
      }
      else Some k)"

definition current_mm :: "'a kernel_scheme \<Rightarrow> (u64 \<times> mm_struct) option" where
  "current_mm k = do {
     t \<leftarrow> threads k (current_process k);
     m \<leftarrow> mms k (process_mm t);
     Some (process_mm t, m)
   }"

definition user_malloc :: "u64 \<Rightarrow> 'a kernel_scheme \<Rightarrow> (u64 \<times> 'a kernel_scheme) option" where
  "user_malloc bytes k = do {
     (mm, m) \<leftarrow> current_mm k;
     last \<leftarrow> vmas k (vma_map_iter m);
     let start_alloc = vm_end last;
     let end_alloc = user_malloc_end start_alloc bytes;
     (vma, k) \<leftarrow> alloc_vma k;
     k \<leftarrow> upd_vma vma (\<lambda>v. v\<lparr>vm_start := start_alloc, vm_end := end_alloc, vm_next := 0\<rparr>) k;
     k \<leftarrow> upd_vma (vma_map_iter m) (\<lambda>v. v\<lparr>vm_next := vma\<rparr>) k;
     k \<leftarrow> upd_mm mm (\<lambda>m. m\<lparr>vma_map_iter := vma\<rparr>) k;
     k \<leftarrow> map_range start_alloc end_alloc k;
     v \<leftarrow> vmas k vma;
     Some (vm_start v, k)
   }"

partial_function (option) free_range :: "u64 \<Rightarrow> u64 \<Rightarrow> 'a kernel_scheme \<Rightarrow> 'a kernel_scheme option" where
  "free_range tmp end_addr k =
     (if tmp < end_addr then Option.bind (kfree tmp k) (free_range (tmp + PAGE_SIZE) end_addr) else Some k)"

partial_function (option) user_free_loop :: "u64 \<Rightarrow> u64 \<Rightarrow> 'a kernel_scheme \<Rightarrow> 'a kernel_scheme option" where
  "user_free_loop addr iter k =
     (if iter = 0 then Some k
      else do {
        v \<leftarrow> vmas k iter;
        if vm_start v = addr then free_range addr (vm_end v) k
        else user_free_loop addr (vm_next v) k
      })"

definition user_free :: "u64 \<Rightarrow> 'a kernel_scheme \<Rightarrow> 'a kernel_scheme option" where
  "user_free addr k = do {
     (mm, m) \<leftarrow> current_mm k;
     user_free_loop addr (vma_heap m) k
   }"

subsection \<open>The working directory\<close>

text \<open>\<open>get_cwd\<close> copies \<open>size\<close> characters from the start of the thread's directory, whatever its
  length: behind the directory lie the thread's state and the rest of its nine pages, which nothing
  writes. \<open>ch_dir\<close> copies the path with its terminator.\<close>

definition state_code :: "process_state \<Rightarrow> nat" where
  "state_code st = (case st of RUNNING \<Rightarrow> 0 | ZOMBIE \<Rightarrow> 1 | QUEUED \<Rightarrow> 2)"

definition cwd_memory :: "kthread \<Rightarrow> char list" where
  "cwd_memory t = cwd t @ char_of (state_code (p_state t)) # replicate (3 + 3768) NUL"

definition get_cwd :: "char list \<Rightarrow> nat \<Rightarrow> 'a kernel_scheme \<Rightarrow> (int \<times> char list) option" where
  "get_cwd buf sz k = do {
     t \<leftarrow> threads k (current_process k);
     if sz \<le> length buf \<and> sz \<le> length (cwd_memory t) then Some (0, take sz (cwd_memory t) @ drop sz buf) else None
   }"

definition ch_dir :: "char list \<Rightarrow> 'a kernel_scheme \<Rightarrow> (int \<times> 'a kernel_scheme) option" where
  "ch_dir filename k = do {
     d \<leftarrow> dir_exists (tarfs k) filename;
     if d = - 1 then Some (- 1, k)
     else do {
       t \<leftarrow> threads k (current_process k);
       c \<leftarrow> copy_loop (cwd t) filename;
       k \<leftarrow> upd_thread (current_process k) (\<lambda>t. t\<lparr>cwd := c\<rparr>) k;
       Some (0, k)
     }
   }"

subsection \<open>Fork\<close>

text \<open>Copies a list of memory areas up to \<open>stop\<close>. The result is the head of the copy and its last
  area. The second loop of \<open>copy_process\<close> clears \<open>next\<close> before the copy, so that the last area
  keeps the parent's \<open>NULL\<close>.\<close>

partial_function (option) copy_vmas ::
    "u64 \<Rightarrow> u64 \<Rightarrow> u64 \<times> u64 \<Rightarrow> 'a kernel_scheme \<Rightarrow> ((u64 \<times> u64) \<times> 'a kernel_scheme) option" where
  "copy_vmas p_vma stop mi k =
     (if p_vma = 0 \<or> p_vma = stop then Some (mi, k)
      else do {
        (c_vma, k) \<leftarrow> alloc_vma k;
        v \<leftarrow> vmas k p_vma;
        k \<leftarrow> upd_vma c_vma (\<lambda>_. v\<lparr>vm_next := 0\<rparr>) k;
        (mi, k) \<leftarrow> link_vma c_vma mi k;
        copy_vmas (vm_next v) stop mi k
      })"

partial_function (option) copy_heap_vmas ::
    "u64 \<Rightarrow> u64 \<times> u64 \<Rightarrow> 'a kernel_scheme \<Rightarrow> ((u64 \<times> u64) \<times> 'a kernel_scheme) option" where
  "copy_heap_vmas p_vma mi k =
     (if p_vma = 0 then Some (mi, k)
      else do {
        (c_vma, k) \<leftarrow> alloc_vma k;
        v \<leftarrow> vmas k p_vma;
        k \<leftarrow> upd_vma c_vma (\<lambda>_. v) k;
        (mi, k) \<leftarrow> link_vma c_vma mi k;
        copy_heap_vmas (vm_next v) mi k
      })"

definition copy_mm :: "u64 \<Rightarrow> u64 \<Rightarrow> 'a kernel_scheme \<Rightarrow> 'a kernel_scheme option" where
  "copy_mm child parent_task k = do {
     (mm, k) \<leftarrow> alloc_mm k;
     k \<leftarrow> upd_thread child (\<lambda>t. t\<lparr>process_mm := mm\<rparr>) k;
     pt \<leftarrow> threads k parent_task;
     pm \<leftarrow> mms k (process_mm pt);
     k \<leftarrow> upd_mm mm (\<lambda>_. pm) k;
     ((c_map, c_iter), k) \<leftarrow> copy_vmas (vma_map pm) (vma_heap pm) (0, 0) k;
     k \<leftarrow> upd_mm mm (\<lambda>m. m\<lparr>vma_map := c_map, vma_map_iter := c_iter\<rparr>) k;
     ((c_heap, c_heap_iter), k) \<leftarrow> copy_heap_vmas (vma_heap pm) (0, 0) k;
     k \<leftarrow> upd_mm mm (\<lambda>m. m\<lparr>vma_heap := c_heap\<rparr>) k;
     (c_stack, k) \<leftarrow> alloc_vma k;
     v \<leftarrow> vmas k (vma_stack pm);
     k \<leftarrow> upd_vma c_stack (\<lambda>_. v) k;
     upd_mm mm (\<lambda>m. m\<lparr>vma_stack := c_stack\<rparr>) k
   }"

definition copy_process :: "u64 \<Rightarrow> 'a kernel_scheme \<Rightarrow> (u64 \<times> 'a kernel_scheme) option" where
  "copy_process parent_task k = do {
     (child, k) \<leftarrow> alloc_thread k;
     pt \<leftarrow> threads k parent_task;
     let (p, k) = getPID k;
     k \<leftarrow> upd_thread child (\<lambda>t. t\<lparr>rsp_user := rsp_user pt, pid := p, ppid := pid pt, process_mm := 0,
           t_next := 0, num_child := 0, cwd := cwd pt\<rparr>) k;
     k \<leftarrow> set_std_fds child k;
     k \<leftarrow> upd_thread parent_task (\<lambda>t. t\<lparr>num_child := num_child t + 1\<rparr>) k;
     (root, k) \<leftarrow> cow_page_tables k;
     k \<leftarrow> upd_thread child (\<lambda>t. t\<lparr>t_cr3 := root\<rparr>) k;
     let k = set_new_cr3 root k;
     k \<leftarrow> copy_mm child parent_task k;
     Some (child, k)
   }"

text \<open>The parent's result is the child's identifier.\<close>

definition fork :: "'a kernel_scheme \<Rightarrow> (int \<times> 'a kernel_scheme) option" where
  "fork k = do {
     let parent_task = current_process k;
     (child_task, k) \<leftarrow> copy_process parent_task k;
     pt \<leftarrow> threads k parent_task;
     let last = t_next pt;
     k \<leftarrow> upd_thread parent_task (\<lambda>t. t\<lparr>t_next := child_task\<rparr>) k;
     k \<leftarrow> upd_thread child_task (\<lambda>t. t\<lparr>t_next := last, p_state := QUEUED\<rparr>) k;
     let k = set_new_cr3 (t_cr3 pt) k;
     ct \<leftarrow> threads k child_task;
     Some (pid ct, k)
   }"

subsection \<open>Ending processes\<close>

partial_function (option) ring_prev :: "u64 \<Rightarrow> u64 \<Rightarrow> u64 \<Rightarrow> 'a kernel_scheme \<Rightarrow> u64 option" where
  "ring_prev process prev it k =
     (if it = process then Some prev
      else Option.bind (threads k it) (\<lambda>t. ring_prev process it (t_next t) k))"

definition reap_process :: "u64 \<Rightarrow> 'a kernel_scheme \<Rightarrow> 'a kernel_scheme option" where
  "reap_process process k =
     (if process = current_process k then kputs (''Can't reap the only process!'' @ [CHR 0x0A]) [] k
      else do {
        ct \<leftarrow> threads k (current_process k);
        prev \<leftarrow> ring_prev process (current_process k) (t_next ct) k;
        t \<leftarrow> threads k process;
        k \<leftarrow> upd_thread prev (\<lambda>p. p\<lparr>t_next := t_next t\<rparr>) k;
        k \<leftarrow> clean_page_tables (t_cr3 t) k;
        if 0 \<le> pid t \<and> pid t < int MAX_P
        then kfree process (k\<lparr>processes := (processes k)[nat (pid t) := 0]\<rparr>)
        else None
      })"

partial_function (option) wait_all_loop :: "u64 \<Rightarrow> u64 \<Rightarrow> 'a kernel_scheme \<Rightarrow> 'a kernel_scheme option" where
  "wait_all_loop it prev k =
     (if it = current_process k then Some k
      else do {
        t \<leftarrow> threads k it;
        if p_state t = ZOMBIE then do {
          k \<leftarrow> reap_process it k;
          p \<leftarrow> threads k prev;
          wait_all_loop (t_next p) prev k
        }
        else wait_all_loop (t_next t) it k
      })"

definition wait_all :: "'a kernel_scheme \<Rightarrow> 'a kernel_scheme option" where
  "wait_all k = do {
     ct \<leftarrow> threads k (current_process k);
     wait_all_loop (t_next ct) (current_process k) k
   }"

partial_function (option) find_queued :: "u64 \<Rightarrow> 'a kernel_scheme \<Rightarrow> u64 option" where
  "find_queued cand k =
     (if cand = current_process k then Some cand
      else Option.bind (threads k cand)
        (\<lambda>t. if p_state t = QUEUED then Some cand else find_queued (t_next t) k))"

definition state_num :: "process_state \<Rightarrow> u32" where
  "state_num st = (case st of RUNNING \<Rightarrow> 0 | ZOMBIE \<Rightarrow> 1 | QUEUED \<Rightarrow> 2)"

definition switch_to :: "u64 \<Rightarrow> 'a kernel_scheme \<Rightarrow> 'a kernel_scheme" where
  "switch_to next_task k = k\<lparr>current_process := next_task\<rparr>"

definition switch_process :: "'a kernel_scheme \<Rightarrow> 'a kernel_scheme option" where
  "switch_process k = do {
     ct \<leftarrow> threads k (current_process k);
     if current_process k = t_next ct then Some k
     else do {
       cand \<leftarrow> find_queued (t_next ct) k;
       if cand = current_process k then do {
         k \<leftarrow> kputs (''No process found for running. Restarting shell!'' @ [CHR 0x0A]) [] k;
         map_option snd (create_process (''bin/sbush'' @ [NUL]) k)
       }
       else if p_state ct = QUEUED then
         kputs (''Some problem with process states: %d!! '' @ [CHR 0x0A]) [VInt (state_num (p_state ct))] k
       else do {
         k \<leftarrow> (if p_state ct = RUNNING then upd_thread (current_process k) (\<lambda>t. t\<lparr>p_state := QUEUED\<rparr>) k else Some k);
         k \<leftarrow> upd_thread cand (\<lambda>t. t\<lparr>p_state := RUNNING\<rparr>) k;
         nt \<leftarrow> threads k cand;
         let k = set_new_cr3 (t_cr3 nt) k;
         let k = set_tss_rsp (cand + 16 + 8 * 4095) k;
         Some (switch_to cand k)
       }
     }
   }"

definition scheduler :: "'a kernel_scheme \<Rightarrow> 'a kernel_scheme option" where
  "scheduler k = Option.bind (wait_all k) switch_process"

subsection \<open>Waiting\<close>

text \<open>One pass over the ring from \<open>it\<close>: the identifier of the zombie child it reaped, or whether
  it saw a child. \<open>wanted\<close> is the test of \<open>wait\<close> or of \<open>wait_pid\<close>. After a full pass \<open>it\<close> is
  the current process.\<close>

partial_function (option) wait_scan ::
    "(kthread \<Rightarrow> bool) \<Rightarrow> u64 \<Rightarrow> bool \<Rightarrow> 'a kernel_scheme \<Rightarrow> ((int + bool) \<times> 'a kernel_scheme) option" where
  "wait_scan wanted it child_exists k =
     (if it = current_process k then Some (Inr child_exists, k)
      else do {
        t \<leftarrow> threads k it;
        if wanted t \<and> p_state t = ZOMBIE then do {
          k \<leftarrow> reap_process it k;
          Some (Inl (pid t), k)
        }
        else wait_scan wanted (t_next t) (child_exists \<or> wanted t) k
      })"

text \<open>The outer loop. \<open>others\<close> is what the other processes do from the moment this one gives up the
  processor until it runs again. Between two passes \<open>it\<close> is not set back: it still is the current
  process.\<close>

partial_function (option) wait_loop ::
    "(kthread \<Rightarrow> bool) \<Rightarrow> ('a kernel_scheme \<Rightarrow> 'a kernel_scheme option) \<Rightarrow> u64 \<Rightarrow> u64 \<Rightarrow> 'a kernel_scheme \<Rightarrow>
     (int \<times> 'a kernel_scheme) option" where
  "wait_loop wanted others me it k = do {
     (r, k) \<leftarrow> wait_scan wanted it False k;
     case r of Inl p \<Rightarrow> Some (p, k)
     | Inr child_exists \<Rightarrow>
         if child_exists then do {
           k \<leftarrow> scheduler k;
           k \<leftarrow> others k;
           wait_loop wanted others me me k
         }
         else Some (- 1, k)
   }"

definition wait_for ::
    "(kthread \<Rightarrow> kthread \<Rightarrow> bool) \<Rightarrow> ('a kernel_scheme \<Rightarrow> 'a kernel_scheme option) \<Rightarrow> 'a kernel_scheme \<Rightarrow>
     (int \<times> 'a kernel_scheme) option" where
  "wait_for child others k = do {
     ct \<leftarrow> threads k (current_process k);
     wait_loop (child ct) others (current_process k) (t_next ct) k
   }"

definition wait :: "('a kernel_scheme \<Rightarrow> 'a kernel_scheme option) \<Rightarrow> 'a kernel_scheme \<Rightarrow> (int \<times> 'a kernel_scheme) option" where
  "wait others k = wait_for (\<lambda>ct t. ppid t = pid ct) others k"

definition wait_pid ::
    "('a kernel_scheme \<Rightarrow> 'a kernel_scheme option) \<Rightarrow> int \<Rightarrow> 'a kernel_scheme \<Rightarrow> (int \<times> 'a kernel_scheme) option" where
  "wait_pid others p k = wait_for (\<lambda>ct t. pid t = p \<and> ppid t = pid ct) others k"

subsection \<open>Killing\<close>

partial_function (option) cleanup_vmas :: "u64 \<Rightarrow> 'a kernel_scheme \<Rightarrow> 'a kernel_scheme option" where
  "cleanup_vmas v_map k =
     (if v_map = 0 then Some k
      else do {
        v \<leftarrow> vmas k v_map;
        k \<leftarrow> free_range (vm_start v) (vm_end v) k;
        k \<leftarrow> kfree v_map k;
        cleanup_vmas (vm_next v) k
      })"

definition shallow_cleanup :: "u64 \<Rightarrow> 'a kernel_scheme \<Rightarrow> 'a kernel_scheme option" where
  "shallow_cleanup process k = do {
     t \<leftarrow> threads k process;
     m \<leftarrow> mms k (process_mm t);
     k \<leftarrow> cleanup_vmas (vma_map m) k;
     v \<leftarrow> vmas k (vma_stack m);
     k \<leftarrow> free_range (vm_end v) (vm_start v) k;
     k \<leftarrow> kfree (vma_stack m) k;
     kfree (process_mm t) k
   }"

partial_function (option) orphan :: "u64 \<Rightarrow> int \<Rightarrow> u64 \<Rightarrow> 'a kernel_scheme \<Rightarrow> 'a kernel_scheme option" where
  "orphan cur cur_pid it k =
     (if it = cur then Some k
      else do {
        t \<leftarrow> threads k it;
        k \<leftarrow> (if ppid t = cur_pid then upd_thread it (\<lambda>t. t\<lparr>ppid := 1\<rparr>) k else Some k);
        orphan cur cur_pid (t_next t) k
      })"

definition kill_process :: "u64 \<Rightarrow> 'a kernel_scheme \<Rightarrow> 'a kernel_scheme option" where
  "kill_process process k = do {
     t \<leftarrow> threads k process;
     if t_next t = process then kputs (''Can't exit the only process!'' @ [CHR 0x0A]) [] k
     else do {
       k \<leftarrow> orphan process (pid t) (t_next t) k;
       k \<leftarrow> upd_thread (current_process k) (\<lambda>t. t\<lparr>p_state := ZOMBIE\<rparr>) k;
       shallow_cleanup (current_process k) k
     }
   }"

text \<open>The search of \<open>kill_kern\<close>: whether another process of the ring has the identifier.\<close>

partial_function (option) ring_has_pid :: "int \<Rightarrow> u64 \<Rightarrow> 'a kernel_scheme \<Rightarrow> bool option" where
  "ring_has_pid p it k =
     (if it = current_process k then Some False
      else Option.bind (threads k it) (\<lambda>t. if pid t = p then Some True else ring_has_pid p (t_next t) k))"

definition kill_kern :: "int \<Rightarrow> 'a kernel_scheme \<Rightarrow> (int \<times> 'a kernel_scheme) option" where
  "kill_kern p k =
     (if p \<le> 0 then map_option (Pair (- 1)) (kputs (''Invalid pid <= 0'' @ [CHR 0x0A]) [] k)
      else if p \<ge> int MAX_P then
        map_option (Pair (- 1)) (kputs (''Pid %d out of range'' @ [CHR 0x0A]) [VInt (of_int p)] k)
      else if p = 1 then
        map_option (Pair (- 1)) (kputs (''Can't kill pid 1: kernel idle process'' @ [CHR 0x0A]) [] k)
      else if processes k ! nat p = 0 then
        map_option (Pair (- 1)) (kputs (''No process exists with pid: %d'' @ [CHR 0x0A]) [VInt (of_int p)] k)
      else do {
        ct \<leftarrow> threads k (current_process k);
        if current_process k = t_next ct \<and> pid ct = p then
          map_option (Pair (- 1)) (kputs (''Can't kill the only process! pid: %d'' @ [CHR 0x0A]) [VInt (of_int p)] k)
        else do {
          other \<leftarrow> ring_has_pid p (t_next ct) k;
          if other then Some (- 1, k)
          else if pid ct \<noteq> p then
            map_option (Pair (- 1)) (kputs (''No process exists with pid: %d'' @ [CHR 0x0A]) [VInt (of_int p)] k)
          else map_option (Pair 0) (kill_process (current_process k) k)
        }
      })"

definition exit_current_process :: "int \<Rightarrow> 'a kernel_scheme \<Rightarrow> 'a kernel_scheme option" where
  "exit_current_process status k = Option.bind (kill_process (current_process k) k) scheduler"

subsection \<open>The process list\<close>

text \<open>One line of \<open>get_process_state\<close>, appended to the caller's buffer; \<open>name\<close> is what the
  thread's \<open>process_name\<close> points to.\<close>

definition state_text :: "process_state \<Rightarrow> char list" where
  "state_text st = (case st of RUNNING \<Rightarrow> ''Running'' | QUEUED \<Rightarrow> ''Queued'' | ZOMBIE \<Rightarrow> ''Zombie'')"

definition ps_line :: "char list \<Rightarrow> kthread \<Rightarrow> char list \<Rightarrow> char list option" where
  "ps_line name t s = do {
     s \<leftarrow> strcat s (''pid: '' @ [NUL]);
     num \<leftarrow> itoa (replicate 10 NUL) (pid t);
     s \<leftarrow> strcat s num;
     s \<leftarrow> strcat s ('', ppid: '' @ [NUL]);
     num \<leftarrow> itoa (replicate 10 NUL) (ppid t);
     s \<leftarrow> strcat s num;
     s \<leftarrow> strcat s ('', name: '' @ [NUL]);
     s \<leftarrow> strcat s name;
     s \<leftarrow> strcat s ('', status: '' @ [NUL]);
     s \<leftarrow> strcat s (state_text (p_state t) @ [NUL]);
     strcat s [CHR 0x0A, NUL]
   }"

partial_function (option) ps_loop :: "(u64 \<Rightarrow> char list) \<Rightarrow> u64 \<Rightarrow> u64 \<Rightarrow> char list \<Rightarrow> 'a kernel_scheme \<Rightarrow> char list option" where
  "ps_loop names start it s k = do {
     t \<leftarrow> threads k it;
     s \<leftarrow> ps_line (names it) t s;
     if t_next t = start then Some s else ps_loop names start (t_next t) s k
   }"

definition get_process_state :: "(u64 \<Rightarrow> char list) \<Rightarrow> char list \<Rightarrow> 'a kernel_scheme \<Rightarrow> char list option" where
  "get_process_state names buf k = ps_loop names (current_process k) (current_process k) buf k"

subsection \<open>The ring of threads\<close>

abbreviation nxt :: "'a kernel_scheme \<Rightarrow> u64 \<Rightarrow> u64 option" where
  "nxt k p \<equiv> map_option t_next (threads k p)"

abbreviation status :: "'a kernel_scheme \<Rightarrow> u64 \<Rightarrow> process_state option" where
  "status k p \<equiv> map_option p_state (threads k p)"

fun chain :: "(u64 \<Rightarrow> u64 option) \<Rightarrow> u64 \<Rightarrow> u64 list \<Rightarrow> u64 \<Rightarrow> bool" where
  "chain nx a [] b \<longleftrightarrow> a = b"
| "chain nx a (p # ps) b \<longleftrightarrow> a = p \<and> (\<exists>q. nx p = Some q \<and> chain nx q ps b)"

definition ring :: "'a kernel_scheme \<Rightarrow> u64 list \<Rightarrow> bool" where
  "ring k ps \<longleftrightarrow> ps \<noteq> [] \<and> distinct ps \<and> hd ps = current_process k \<and>
     chain (nxt k) (current_process k) ps (current_process k)"

lemma chain_append: "chain nx a (xs @ ys) c \<longleftrightarrow> (\<exists>b. chain nx a xs b \<and> chain nx b ys c)"
  by (induction xs arbitrary: a) auto

lemma chain_hd: "chain nx a ps b \<Longrightarrow> ps \<noteq> [] \<Longrightarrow> a = hd ps"
  by (cases ps) auto

lemma chain_rotate:
  assumes "chain nx a (xs @ ys) a" "ys \<noteq> []"
  shows "chain nx (hd ys) (ys @ xs) (hd ys)"
proof -
  obtain b where b: "chain nx a xs b" "chain nx b ys a" using assms by (auto simp: chain_append)
  moreover have "b = hd ys" using chain_hd [OF b(2) assms(2)] .
  ultimately show ?thesis by (auto simp: chain_append)
qed

lemma ringE:
  assumes "ring k (c # qs)"
  obtains t where "c = current_process k" "threads k c = Some t" "chain (nxt k) (t_next t) qs c"
    "c \<notin> set qs" "distinct qs"
proof -
  have c: "c = current_process k" "c \<notin> set qs" "distinct qs" using assms unfolding ring_def list.sel distinct.simps by blast+
  have "chain (nxt k) c (c # qs) c" using assms c(1) unfolding ring_def by metis
  then obtain q where "nxt k c = Some q" "chain (nxt k) q qs c" by (simp only: chain.simps) blast
  then obtain t where "threads k c = Some t" "chain (nxt k) (t_next t) qs c" by (cases "threads k c") auto
  then show thesis using that c by blast
qed

lemma find_queued_ring:
  assumes "chain (nxt k) a qs (current_process k)" "current_process k \<notin> set qs"
  shows "find_queued a k =
     Some (case find (\<lambda>p. status k p = Some QUEUED) qs of Some p \<Rightarrow> p | None \<Rightarrow> current_process k)"
  using assms
proof (induction qs arbitrary: a)
  case Nil
  then show ?case by (subst find_queued.simps) simp
next
  case (Cons q qs)
  then obtain t where t: "a = q" "threads k q = Some t" "chain (nxt k) (t_next t) qs (current_process k)"
    by auto
  with Cons have "find_queued (t_next t) k =
      Some (case find (\<lambda>p. status k p = Some QUEUED) qs of Some p \<Rightarrow> p | None \<Rightarrow> current_process k)"
    by simp
  then show ?case using t Cons.prems by (subst find_queued.simps) auto
qed

subsection \<open>Round robin\<close>

text \<open>The scheduler's contract: the threads in ring order with their states, the running one first.\<close>

fun round_robin :: "(u64 \<times> process_state) list \<Rightarrow> (u64 \<times> process_state) list" where
  "round_robin [] = []"
| "round_robin ((c, s) # qs) =
     (case dropWhile (\<lambda>q. snd q \<noteq> QUEUED) qs of
        [] \<Rightarrow> (c, s) # qs
      | (p, _) # post \<Rightarrow>
          (p, RUNNING) # post @ (c, if s = RUNNING then QUEUED else s) # takeWhile (\<lambda>q. snd q \<noteq> QUEUED) qs)"

definition ring_view :: "'a kernel_scheme \<Rightarrow> u64 list \<Rightarrow> (u64 \<times> process_state) list" where
  "ring_view k ps = map (\<lambda>p. (p, the (status k p))) ps"

lemma chain_threads: "chain (nxt k) a ps b \<Longrightarrow> p \<in> set ps \<Longrightarrow> \<exists>t. threads k p = Some t"
  by (induction ps arbitrary: a) auto

lemma find_first:
  "find P (xs @ p # ys) = Some p" if "\<forall>x \<in> set xs. \<not> P x" "P p"
  using that by (induction xs) auto

lemma switch_process_step:
  assumes r: "ring k (c # pre @ p # post)" and c: "status k c = Some s" "s \<noteq> QUEUED"
    and pre: "\<forall>q \<in> set pre. status k q \<noteq> Some QUEUED" and p: "status k p = Some QUEUED"
  shows "\<exists>k'. switch_process k = Some k' \<and> ring k' (p # post @ c # pre) \<and>
     (\<forall>q. status k' q = (if q = p then Some RUNNING else if q = c then Some (if s = RUNNING then QUEUED else s) else status k q)) \<and>
     Some (cr3 k') = map_option t_cr3 (threads k p) \<and> tss_rsp0 k' = p + 32776"
proof -
  from r obtain t where t: "c = current_process k" "threads k c = Some t"
    "chain (nxt k) (t_next t) (pre @ p # post) c" "c \<notin> set (pre @ p # post)" by (rule ringE)
  have d: "p \<noteq> c" using t(4) by auto
  have n: "t_next t \<noteq> c" using t(3,4) by (cases "pre @ p # post") auto
  have f: "find_queued (t_next t) k = Some p"
    using find_queued_ring [of k "t_next t" "pre @ p # post"] t find_first [of pre "\<lambda>q. status k q = Some QUEUED" p post] pre p
    by simp
  obtain u where u: "threads k p = Some u" using p by auto
  define k' where "k' = k\<lparr>threads := (threads k)(c \<mapsto> t\<lparr>p_state := (if s = RUNNING then QUEUED else s)\<rparr>,
      p \<mapsto> u\<lparr>p_state := RUNNING\<rparr>), cr3 := t_cr3 u, tss_rsp0 := p + 32776, current_process := p\<rparr>"
  have ps: "p_state t = s" using c t by simp
  have tt: "(threads k)(c \<mapsto> t\<lparr>p_state := s\<rparr>) = threads k" using t ps by (auto simp: fun_eq_iff)
  have "switch_process k = Some k'"
    using t n f u d c ps tt
    by (cases k) (auto simp: switch_process_def upd_thread_def k'_def set_new_cr3_def set_tss_rsp_def switch_to_def
        Let_def add.assoc)
  moreover have nx: "nxt k' = nxt k" using t u by (auto simp: k'_def fun_eq_iff)
  have "chain (nxt k) c ((c # pre) @ p # post) c" using r t(1) unfolding ring_def by (metis append_Cons)
  from chain_rotate [OF this] have "chain (nxt k) p (p # post @ c # pre) p" by simp
  then have "ring k' (p # post @ c # pre)"
    using r nx unfolding ring_def by (auto simp: k'_def simp del: chain.simps)
  moreover have "status k' q = (if q = p then Some RUNNING else if q = c then Some (if s = RUNNING then QUEUED else s) else status k q)" for q
    by (simp add: k'_def)
  ultimately show ?thesis using u by (auto simp: k'_def)
qed

text \<open>One thread is the current one and does not wait for the processor; no other one is running.\<close>

definition sched_ok :: "'a kernel_scheme \<Rightarrow> u64 list \<Rightarrow> bool" where
  "sched_ok k ps \<longleftrightarrow> ring k ps \<and> status k (hd ps) \<noteq> Some QUEUED \<and>
     (\<forall>q \<in> set (tl ps). status k q \<noteq> Some RUNNING)"

lemma ring_view_status: "ring k ps \<Longrightarrow> p \<in> set ps \<Longrightarrow> status k p = Some (the (status k p))"
  using chain_threads [of k "current_process k" ps "current_process k" p] by (auto simp: ring_def simp del: chain.simps)

lemma switch_process_refines:
  assumes ok: "sched_ok k ps" and q: "\<exists>p \<in> set ps. status k p = Some QUEUED"
  shows "\<exists>k' ps'. switch_process k = Some k' \<and> sched_ok k' ps' \<and> set ps' = set ps \<and>
     ring_view k' ps' = round_robin (ring_view k ps) \<and>
     Some (cr3 k') = map_option t_cr3 (threads k (current_process k')) \<and> tss_rsp0 k' = current_process k' + 32776"
proof -
  obtain c qs where ps: "ps = c # qs" using ok by (cases ps) (auto simp: sched_ok_def ring_def simp del: chain.simps)
  have r: "ring k (c # qs)" and c: "status k c \<noteq> Some QUEUED" and o: "\<forall>q \<in> set qs. status k q \<noteq> Some RUNNING"
    using ok by (simp_all add: sched_ok_def ps)
  have "\<exists>p \<in> set qs. status k p = Some QUEUED" using q c by (auto simp: ps)
  then obtain pre p post where sp: "qs = pre @ p # post" "status k p = Some QUEUED"
    "\<forall>q \<in> set pre. status k q \<noteq> Some QUEUED" by (rule split_list_first_propE) blast
  obtain s where s: "status k c = Some s" using ring_view_status [OF r, of c] by auto
  have sq: "s \<noteq> QUEUED" using c s by simp
  from switch_process_step [OF r [unfolded sp(1)] s sq sp(3,2)] obtain k' where
    k': "switch_process k = Some k'" "ring k' (p # post @ c # pre)"
      "\<forall>q. status k' q = (if q = p then Some RUNNING else if q = c then Some (if s = RUNNING then QUEUED else s) else status k q)"
      "Some (cr3 k') = map_option t_cr3 (threads k p)" "tss_rsp0 k' = p + 32776" by blast
  have d: "c \<notin> set pre" "c \<notin> set post" "p \<notin> set pre" "p \<notin> set post" "p \<noteq> c"
    using r by (auto simp: ring_def sp(1) simp del: chain.simps)
  have cur: "current_process k' = p" using k'(2) by (simp add: ring_def del: chain.simps)
  have "sched_ok k' (p # post @ c # pre)"
    using k'(2,3) d o by (auto simp: sched_ok_def sp(1))
  moreover have "ring_view k' (p # post @ c # pre) = round_robin (ring_view k ps)"
  proof -
    have "\<forall>x \<in> set pre. the (status k x) \<noteq> QUEUED"
      using sp(3) ring_view_status [OF r] sp(1) by (metis Un_iff list.set_intros(2) set_append)
    then have "dropWhile (\<lambda>q. snd q \<noteq> QUEUED) (ring_view k qs) = ring_view k (p # post)"
      "takeWhile (\<lambda>q. snd q \<noteq> QUEUED) (ring_view k qs) = ring_view k pre"
      using sp(1,2) by (auto simp: ring_view_def dropWhile_append takeWhile_append)
    moreover have "ring_view k' post = ring_view k post" "ring_view k' pre = ring_view k pre"
      using k'(3) d unfolding ring_view_def by (auto intro!: map_cong)
    moreover have "ring_view k' (p # post @ c # pre) =
        (p, the (status k' p)) # ring_view k' post @ (c, the (status k' c)) # ring_view k' pre"
      "ring_view k ps = (c, s) # ring_view k qs" "ring_view k (p # post) = (p, QUEUED) # ring_view k post"
      using s sp(2) by (auto simp: ring_view_def ps)
    moreover have "the (status k' p) = RUNNING" "the (status k' c) = (if s = RUNNING then QUEUED else s)"
      using k'(3) d(5) by simp_all
    ultimately show ?thesis by (simp only: round_robin.simps list.case prod.case)
  qed
  ultimately show ?thesis
    using k'(1,4,5) cur by (intro exI [of _ k'] exI [of _ "p # post @ c # pre"]) (auto simp: ps sp(1))
qed

subsection \<open>Every waiting process runs\<close>

primrec yields :: "nat \<Rightarrow> 'a kernel_scheme \<Rightarrow> 'a kernel_scheme option" where
  "yields 0 k = Some k"
| "yields (Suc n) k = Option.bind (switch_process k) (yields n)"

lemma round_robin_nearer:
  assumes "map fst vs = c # xs @ p # ys" "distinct (map fst vs)" "(p, QUEUED) \<in> set vs"
  shows "(\<exists>zs. map fst (round_robin vs) = p # zs) \<or>
     (\<exists>c' xs' ys'. map fst (round_robin vs) = c' # xs' @ p # ys' \<and> length xs' < length xs \<and>
        (p, QUEUED) \<in> set (round_robin vs))"
proof -
  obtain s vx r vy where vs: "vs = (c, s) # vx @ (p, r) # vy" "map fst vx = xs" "map fst vy = ys"
    using assms(1) by (cases vs) (auto simp: map_eq_append_conv map_eq_Cons_conv)
  have r: "r = QUEUED" using assms(2,3) vs by (force simp: image_iff)
  show ?thesis
  proof (cases "\<exists>q \<in> set vx. snd q = QUEUED")
    case False
    then have "dropWhile (\<lambda>q. snd q \<noteq> QUEUED) (vx @ (p, r) # vy) = (p, r) # vy"
      using r by (auto simp: dropWhile_append)
    then show ?thesis using vs by simp
  next
    case True
    then obtain us q ws where q: "vx = us @ q # ws" "snd q = QUEUED" "\<forall>x \<in> set us. snd x \<noteq> QUEUED"
      by (rule split_list_first_propE) blast
    obtain w where w: "q = (w, QUEUED)" using q(2) by (cases q) auto
    have "dropWhile (\<lambda>q. snd q \<noteq> QUEUED) (vx @ (p, r) # vy) = (w, QUEUED) # ws @ (p, r) # vy"
      using q w by (auto simp: dropWhile_append)
    then have rr: "round_robin vs = (w, RUNNING) # (ws @ (p, QUEUED) # vy) @ (c, if s = RUNNING then QUEUED else s) #
        takeWhile (\<lambda>q. snd q \<noteq> QUEUED) (vx @ (p, r) # vy)" using vs r by simp
    show ?thesis
      unfolding rr using vs q
      by (intro disjI2 exI [of _ w] exI [of _ "map fst ws"]
          exI [of _ "ys @ c # map fst (takeWhile (\<lambda>q. snd q \<noteq> QUEUED) (vx @ (p, r) # vy))"]) auto
  qed
qed

lemma waiting_runs:
  assumes "sched_ok k ps" "ps = c # xs @ p # ys" "status k p = Some QUEUED"
  shows "\<exists>n k'. n \<le> Suc (length xs) \<and> yields n k = Some k' \<and> current_process k' = p \<and> status k' p = Some RUNNING"
  using assms
proof (induction "length xs" arbitrary: k ps c xs ys rule: less_induct)
  case less
  have "\<exists>p \<in> set ps. status k p = Some QUEUED" using less.prems by auto
  from switch_process_refines [OF less.prems(1) this] obtain k' ps' where
    k': "switch_process k = Some k'" "sched_ok k' ps'" "ring_view k' ps' = round_robin (ring_view k ps)" by blast
  have f: "map fst (ring_view j qs) = qs" for j :: "'a kernel_scheme" and qs by (simp add: ring_view_def comp_def)
  have "distinct ps" using less.prems(1) by (simp add: sched_ok_def ring_def del: chain.simps)
  moreover have "(p, QUEUED) \<in> set (ring_view k ps)" using less.prems by (auto simp: ring_view_def)
  ultimately consider (now) zs where "ps' = p # zs" |
    (later) c' xs' ys' where "ps' = c' # xs' @ p # ys'" "length xs' < length xs" "(p, QUEUED) \<in> set (ring_view k' ps')"
    using round_robin_nearer [of "ring_view k ps" c xs p ys] k'(3) less.prems(2) f by metis
  then show ?case
  proof cases
    case now
    have "p \<in> set ps'" using now by simp
    then obtain st where st: "status k' p = Some st" using k'(2) ring_view_status [of k' ps' p] by (auto simp: sched_ok_def)
    have "hd (round_robin (ring_view k ps)) = (p, the (status k' p))"
      using now k'(3) by (metis (no_types, lifting) ring_view_def list.sel(1) list.simps(9))
    moreover have "snd (hd (round_robin (ring_view k ps))) = RUNNING"
      using less.prems by (auto simp: ring_view_def dropWhile_append split: list.splits)
    moreover have "current_process k' = p" using k'(2) now by (simp add: sched_ok_def ring_def del: chain.simps)
    ultimately show ?thesis using k'(1) st by (intro exI [of _ "Suc 0"] exI [of _ k']) simp
  next
    case later
    have "status k' p = Some QUEUED"
    proof -
      have "p \<in> set ps'" using later by simp
      then have "status k' p = Some (the (status k' p))" using k'(2) ring_view_status unfolding sched_ok_def by blast
      moreover have "the (status k' p) = QUEUED" using later(3) by (auto simp: ring_view_def)
      ultimately show ?thesis by (simp only:)
    qed
    from less.hyps [OF later(2) k'(2) later(1) this] obtain n k2 where
      "n \<le> Suc (length xs')" "yields n k' = Some k2" "current_process k2 = p" "status k2 p = Some RUNNING" by blast
    with later(2) k'(1) show ?thesis by (intro exI [of _ "Suc n"] exI [of _ k2]) simp
  qed
qed

subsection \<open>Searching the ring\<close>

lemma ring_has_pid_ring:
  assumes "chain (nxt k) a qs (current_process k)" "current_process k \<notin> set qs"
  shows "ring_has_pid x a k = Some (\<exists>q \<in> set qs. map_option pid (threads k q) = Some x)"
  using assms
proof (induction qs arbitrary: a)
  case Nil
  then show ?case by (subst ring_has_pid.simps) simp
next
  case (Cons q qs)
  then obtain t where t: "a = q" "threads k q = Some t" "chain (nxt k) (t_next t) qs (current_process k)"
    by auto
  with Cons have "ring_has_pid x (t_next t) k = Some (\<exists>q \<in> set qs. map_option pid (threads k q) = Some x)" by simp
  then show ?case using t Cons.prems by (subst ring_has_pid.simps) auto
qed

lemma wait_scan_ring:
  assumes "chain (nxt k) a qs (current_process k)" "current_process k \<notin> set qs"
    and "\<forall>q \<in> set qs. \<forall>t. threads k q = Some t \<longrightarrow> \<not> (wanted t \<and> p_state t = ZOMBIE)"
  shows "wait_scan wanted a b k = Some (Inr (b \<or> (\<exists>q \<in> set qs. map_option wanted (threads k q) = Some True)), k)"
  using assms
proof (induction qs arbitrary: a b)
  case Nil
  then show ?case by (subst wait_scan.simps) simp
next
  case (Cons q qs)
  then obtain t where t: "a = q" "threads k q = Some t" "chain (nxt k) (t_next t) qs (current_process k)"
    by auto
  with Cons have "wait_scan wanted (t_next t) (b \<or> wanted t) k =
      Some (Inr ((b \<or> wanted t) \<or> (\<exists>q \<in> set qs. map_option wanted (threads k q) = Some True)), k)" by simp
  then show ?case using t Cons.prems by (subst wait_scan.simps) auto
qed

lemma wait_all_ring:
  assumes "ring k (c # qs)" "\<forall>q \<in> set qs. status k q \<noteq> Some ZOMBIE"
  shows "wait_all k = Some k"
proof -
  have l: "wait_all_loop a b k = Some k"
    if "chain (nxt k) a qs (current_process k)" "current_process k \<notin> set qs" "\<forall>q \<in> set qs. status k q \<noteq> Some ZOMBIE" for a b qs
    using that
  proof (induction qs arbitrary: a b)
    case Nil
    then show ?case by (subst wait_all_loop.simps) simp
  next
    case (Cons q qs)
    then obtain t where t: "a = q" "threads k q = Some t" "chain (nxt k) (t_next t) qs (current_process k)"
      by auto
    with Cons have "wait_all_loop (t_next t) q k = Some k" by simp
    then show ?case using t Cons.prems by (subst wait_all_loop.simps) auto
  qed
  from assms(1) obtain t where t: "c = current_process k" "threads k c = Some t" "chain (nxt k) (t_next t) qs c" "c \<notin> set qs"
    by (rule ringE)
  with l [of "t_next t" qs] assms(2) show ?thesis by (simp add: wait_all_def)
qed

subsection \<open>A small machine\<close>

definition thread_small :: "int \<Rightarrow> int \<Rightarrow> u64 \<Rightarrow> process_state \<Rightarrow> kthread" where
  "thread_small i pp n st = kthread_zero\<lparr>pid := i, ppid := pp, t_next := n, p_state := st\<rparr>"

definition kernel_small :: kernel where
  "kernel_small = vm.extend vm_small (kernel.fields kbd_boot [] ((replicate 1000 0)[1 := 1, 2 := 1, 3 := 1])
     [10 \<mapsto> thread_small 1 0 20 RUNNING, 20 \<mapsto> thread_small 2 1 30 QUEUED, 30 \<mapsto> thread_small 3 1 10 QUEUED]
     Map.empty Map.empty Map.empty Map.empty 10 0 0 0 0 0 0)"

lemma kernel_small_vm [simp]:
  "mem kernel_small = (\<lambda>_. 0)" "cr3 kernel_small = 0x1000" "kernel_virtual_base kernel_small = 0xFFFFFFFF80000000"
  "free_pages kernel_small = [2..<40]" "free_frames kernel_small = map frame_of [2..<40]" "vm_inv kernel_small"
  "page_refs kernel_small (frame_of 40) = Some 0"
proof -
  note c = phys_cong [of kernel_small vm_small]
  have e: "free_pages kernel_small = free_pages vm_small" "phys_inv kernel_small = phys_inv vm_small"
    using c by (simp_all add: kernel_small_def vm.defs kernel.defs)
  show m: "mem kernel_small = (\<lambda>_. 0)" "cr3 kernel_small = 0x1000" "kernel_virtual_base kernel_small = 0xFFFFFFFF80000000"
    by (simp_all add: kernel_small_def vm.defs kernel.defs vm_small_def phys.defs phys_small_def phys_boot_def)
  show "free_pages kernel_small = [2..<40]" using e(1) by simp
  then show f: "free_frames kernel_small = map frame_of [2..<40]" by (simp add: free_frames_def)
  have "free_frames kernel_small = free_frames vm_small" by (simp only: f vm_small_simps)
  then show "vm_inv kernel_small" using vm_small_inv e(2) by (simp only: vm_inv_def m vm_small_simps) blast
  show "page_refs kernel_small (frame_of 40) = Some 0" using vm_small_more(3)
    by (simp add: kernel_small_def vm.defs kernel.defs get_page_ref_count_def split: if_splits)
qed

lemma kernel_small_ring: "sched_ok kernel_small [10, 20, 30]"
  by (simp add: sched_ok_def ring_def kernel_small_def thread_small_def kernel.defs vm.defs)

lemma kernel_small_status: "status kernel_small 20 = Some QUEUED" "status kernel_small 30 = Some QUEUED"
  by (simp_all add: kernel_small_def thread_small_def kernel.defs vm.defs)

subsection \<open>Properties\<close>

text \<open>C1. The scheduler is a round robin: on a ring in which another process waits, \<open>switch_process\<close>
  succeeds and does to the sequence of threads and states, in ring order from the running one, what
  \<open>round_robin\<close> does; it installs the page tables and the kernel stack of the process it picks, keeps
  every thread in the ring and at most one running.\<close>

theorem switch_process_round_robin:
  assumes "sched_ok k ps" "\<exists>p \<in> set ps. status k p = Some QUEUED"
  shows "\<exists>k' ps'. switch_process k = Some k' \<and> sched_ok k' ps' \<and> set ps' = set ps \<and>
     ring_view k' ps' = round_robin (ring_view k ps) \<and>
     Some (cr3 k') = map_option t_cr3 (threads k (current_process k')) \<and> tss_rsp0 k' = current_process k' + 32776"
  using assms by (rule switch_process_refines)

theorem switch_process_round_robin_witness:
  "\<exists>k' ps'. switch_process kernel_small = Some k' \<and> sched_ok k' ps' \<and>
     ring_view k' ps' = round_robin (ring_view kernel_small [10, 20, 30])"
proof -
  have "\<exists>p \<in> set [10, 20, 30]. status kernel_small p = Some QUEUED" using kernel_small_status by simp
  from switch_process_round_robin [OF kernel_small_ring this] show ?thesis by blast
qed

text \<open>C2. No process starves: one that waits at distance \<open>n\<close> behind the running one runs after at most
  \<open>n\<close> processes have given up the processor, whatever the states of the others.\<close>

theorem waiting_process_runs:
  assumes "sched_ok k (c # xs @ p # ys)" "status k p = Some QUEUED"
  shows "\<exists>n k'. n \<le> Suc (length xs) \<and> yields n k = Some k' \<and> current_process k' = p \<and> status k' p = Some RUNNING"
  using waiting_runs [OF assms(1) refl assms(2)] .

theorem waiting_process_runs_witness:
  "\<exists>n k'. n \<le> 2 \<and> yields n kernel_small = Some k' \<and> current_process k' = 30 \<and> status k' 30 = Some RUNNING"
  using waiting_process_runs [of kernel_small 10 "[20]" 30 "[]"] kernel_small_ring kernel_small_status
  by (simp add: numeral_2_eq_2)

text \<open>C32. \<open>getPID\<close> hands out the smallest free identifier from 1 on and marks it as used, and only
  answers -1 when all 999 are in use.\<close>

theorem getPID_smallest_free:
  "case getPID k of (p, k') \<Rightarrow>
     if \<exists>i. 1 \<le> i \<and> i < 1000 \<and> processes k ! i = 0
     then \<exists>i. p = int i \<and> 1 \<le> i \<and> i < 1000 \<and> processes k ! i = 0 \<and> (\<forall>j. 1 \<le> j \<longrightarrow> j < i \<longrightarrow> processes k ! j \<noteq> 0) \<and>
       k' = k\<lparr>processes := (processes k)[i := 1]\<rparr>
     else p = - 1 \<and> k' = k"
proof (cases "find (\<lambda>i. processes k ! i = 0) [1..<MAX_P]")
  case None
  then have "\<not> (\<exists>i. 1 \<le> i \<and> i < 1000 \<and> processes k ! i = 0)"
    by (auto simp: find_None_iff MAX_P_def simp del: upt_rec_numeral)
  with None show ?thesis by (simp add: getPID_def)
next
  case (Some i)
  then obtain n where n: "n < length [1..<MAX_P]" "processes k ! ([1..<MAX_P] ! n) = 0" "i = [1..<MAX_P] ! n"
    "\<forall>j < n. processes k ! ([1..<MAX_P] ! j) \<noteq> 0" by (auto simp: find_Some_iff simp del: upt_rec_numeral)
  have i: "i = n + 1" "i < 1000" using n by (simp_all add: MAX_P_def del: upt_rec_numeral)
  have a: "\<forall>j. 1 \<le> j \<longrightarrow> j < i \<longrightarrow> processes k ! j \<noteq> 0"
  proof (intro allI impI)
    fix j assume "1 \<le> j" "j < i"
    then show "processes k ! j \<noteq> 0" using n(4) [rule_format, of "j - 1"] n(1) i by (simp add: MAX_P_def del: upt_rec_numeral)
  qed
  have z: "processes k ! i = 0" using n by simp
  have g: "getPID k = (int i, k\<lparr>processes := (processes k)[i := 1]\<rparr>)" using Some by (simp add: getPID_def)
  have e: "\<exists>i. 1 \<le> i \<and> i < 1000 \<and> processes k ! i = 0" by (rule exI [of _ i]) (use i z in simp)
  show ?thesis unfolding g prod.case if_P [OF e] by (rule exI [of _ i]) (use i z a in simp)
qed

theorem getPID_smallest_free_witness: "\<exists>k'. getPID kernel_small = (4, k')"
proof -
  have p: "processes kernel_small = (replicate 1000 0)[1 := 1, 2 := 1, 3 := 1]"
    by (simp add: kernel_small_def kernel.defs vm.defs)
  have e: "\<exists>i. 1 \<le> i \<and> i < 1000 \<and> processes kernel_small ! i = 0" by (rule exI [of _ 4]) (simp add: p)
  have u: "j = 4" if "processes kernel_small ! j = 0" "1 \<le> j" "j < 1000"
    "\<forall>l. 1 \<le> l \<longrightarrow> l < j \<longrightarrow> processes kernel_small ! l \<noteq> 0" for j
  proof -
    have "\<not> 4 < j" using that(4) [rule_format, of 4] by (auto simp: p)
    moreover have "j \<noteq> 1" "j \<noteq> 2" "j \<noteq> 3" using that(1) by (auto simp: p)
    ultimately show ?thesis using that(2) by linarith
  qed
  show ?thesis using getPID_smallest_free [of kernel_small] e u by (cases "getPID kernel_small") auto
qed



text \<open>C34. A parent that has to wait never learns of its child's end: when \<open>wait\<close> finds a child but no
  zombie it gives up the processor, and once resumed it returns -1 without looking at the ring again,
  whatever happened in between.\<close>

theorem wait_never_rescans:
  assumes "ring k (c # qs)" "q \<in> set qs" "map_option ppid (threads k q) = map_option pid (threads k c)"
    and "\<forall>q \<in> set qs. status k q \<noteq> Some ZOMBIE"
    and "scheduler k = Some k1" "others k1 = Some k2" "current_process k2 = c"
  shows "wait others k = Some (- 1, k2)"
proof -
  from assms(1) obtain t where t: "c = current_process k" "threads k c = Some t" "chain (nxt k) (t_next t) qs c" "c \<notin> set qs"
    by (rule ringE)
  let ?w = "\<lambda>u. ppid u = pid t"
  have "map_option ?w (threads k q) = Some True" using assms(3) t by auto
  moreover have "wait_scan ?w (t_next t) False k =
      Some (Inr (False \<or> (\<exists>q \<in> set qs. map_option ?w (threads k q) = Some True)), k)"
    by (rule wait_scan_ring) (use t assms(4) in auto)
  ultimately have s: "wait_scan ?w (t_next t) False k = Some (Inr True, k)" using assms(2) by auto
  have e: "wait_scan ?w c False k2 = Some (Inr False, k2)" using assms(7) by (subst wait_scan.simps) simp
  have "wait_loop ?w others c c k2 = Some (- 1, k2)" by (subst wait_loop.simps) (simp add: e)
  then have "wait_loop ?w others c (t_next t) k = Some (- 1, k2)"
    using assms(5,6) by (subst wait_loop.simps) (simp add: s)
  then show ?thesis using t by (simp add: wait_def wait_for_def)
qed

theorem wait_never_rescans_witness: "wait (\<lambda>_. Some kernel_small) kernel_small = Some (- 1, kernel_small)"
proof -
  have r: "ring kernel_small (10 # [20, 30])" using kernel_small_ring by (simp add: sched_ok_def)
  have z: "\<forall>q \<in> set [20, 30]. status kernel_small q \<noteq> Some ZOMBIE" using kernel_small_status by auto
  have "\<exists>p \<in> set [10, 20, 30]. status kernel_small p = Some QUEUED" using kernel_small_status by simp
  from switch_process_refines [OF kernel_small_ring this] obtain k1 where k1: "scheduler kernel_small = Some k1"
    using wait_all_ring [OF r z] by (auto simp: scheduler_def)
  have p: "map_option ppid (threads kernel_small 20) = map_option pid (threads kernel_small 10)"
    and c: "current_process kernel_small = 10"
    by (simp_all add: kernel_small_def thread_small_def kernel.defs vm.defs)
  show ?thesis by (rule wait_never_rescans [OF r _ p z k1 _ c]) simp_all
qed

end
