(* ===== verification/Page_Fault.thy ===== *)
theory Page_Fault
  imports Process
begin

text \<open>
  The page-fault handler of \<^verbatim>\<open>sys/interrupt.c\<close>: a write to a page shared by copy on write gets its
  own copy or its write permission back, an access below the stack grows it, anything else ends the
  process. The faulting address is an argument.
\<close>

subsection \<open>Operations\<close>

definition LIMIT_STACK :: u64 where "LIMIT_STACK = 4096000"

definition vload8 :: "u64 \<Rightarrow> 'a vm_scheme \<Rightarrow> u8 option" where
  "vload8 va s =
     (if get_flags va s AND 1 = 1 then Some (mem s (walk_page_table va s + (va AND GET_FLAGS))) else None)"

definition vmemcpy :: "u64 \<Rightarrow> u64 \<Rightarrow> nat \<Rightarrow> 'a vm_scheme \<Rightarrow> 'a vm_scheme option" where
  "vmemcpy dest src bytes s =
     foldM (\<lambda>i s. Option.bind (vload8 (src + of_nat i) s) (\<lambda>b. vstore8 (dest + of_nat i) b s)) [0..<bytes] s"

definition cow_fault :: "u64 \<Rightarrow> 'a vm_scheme \<Rightarrow> 'a vm_scheme option" where
  "cow_fault addr s = do {
     let physical_addr = walk_page_table addr s;
     refs \<leftarrow> get_page_ref_count physical_addr s;
     s \<leftarrow> (if refs = 2 then do {
           (v_page, s) \<leftarrow> kmalloc 4096 s;
           let p_page = walk_page_table v_page s;
           s \<leftarrow> vmemcpy v_page addr 4096 s;
           s \<leftarrow> update_page_tables addr p_page PAGING_USER_R_W_FLAGS s;
           set_page_ref_count physical_addr 1 s
         }
         else if refs = 1 then update_page_tables addr physical_addr PAGING_USER_R_W_FLAGS s
         else Some s);
     Some (flush_tlb s)
   }"

definition grow_page :: "u64 \<Rightarrow> nat \<Rightarrow> 'a kernel_scheme \<Rightarrow> 'a kernel_scheme option" where
  "grow_page vma i k = do {
     k \<leftarrow> upd_vma vma (\<lambda>v. v\<lparr>vm_end := vm_end v - PAGE_SIZE\<rparr>) k;
     v \<leftarrow> vmas k vma;
     (page, k) \<leftarrow> get_free_page k;
     update_page_tables (vm_end v) page PAGING_USER_R_W_FLAGS k
   }"

definition page_fault_handler :: "u64 \<Rightarrow> 'a kernel_scheme \<Rightarrow> 'a kernel_scheme option" where
  "page_fault_handler cr2 k =
     (let addr = (cr2 div PAGE_SIZE) * PAGE_SIZE
      in if drop_bit 9 (get_flags addr k) AND 1 = 1 then cow_fault addr k
         else do {
           t \<leftarrow> threads k (current_process k);
           m \<leftarrow> mms k (process_mm t);
           v \<leftarrow> vmas k (vma_stack m);
           if addr \<le> vm_end v \<and> vm_start v - vm_end v \<le> LIMIT_STACK
           then foldM (grow_page (vma_stack m)) [0..<unat ((vm_end v - addr) div PAGE_SIZE)] k
           else do {
             k \<leftarrow> kputs (''Segmentation fault in process %d!. Exiting.'' @ [CHR 0x0A]) [VInt (of_int (pid t))] k;
             exit_current_process 0 k
           }
         })"

subsection \<open>Copying a page through the page tables\<close>

text \<open>Writing a page that is neither a table nor free keeps the machine's invariant and view.\<close>

lemma data_write:
  assumes inv: "vm_inv s" and m: "\<forall>x. m x \<noteq> mem s x \<longrightarrow> page_of x = f" and f: "f \<notin> vm_tables s" "f \<notin> set (free_frames s)"
  shows "vm_inv (s\<lparr>mem := m\<rparr>)" "pt_view (s\<lparr>mem := m\<rparr>) va = pt_view s va" "vm_tables (s\<lparr>mem := m\<rparr>) = vm_tables s"
proof -
  have r: "page_aligned (cr3 s)" using inv by (simp add: vm_inv_def pt_tree_def)
  have a: "\<forall>x. page_of x \<in> vm_tables s \<longrightarrow> m x = mem s x" using m f(1) by auto
  note t = pt_tree_agree [OF a r]
  have "zero_page m g" if "g \<in> set (free_frames s)" for g
  proof -
    have "m x = mem s x" if "page_of x = g" for x using m f(2) that \<open>g \<in> _\<close> by auto
    moreover have "zero_page (mem s) g" using inv that by (simp add: vm_inv_def)
    ultimately show ?thesis by (simp add: zero_page_def)
  qed
  then show "vm_inv (s\<lparr>mem := m\<rparr>)" using inv t by (simp add: vm_inv_def)
  show "pt_view (s\<lparr>mem := m\<rparr>) va = pt_view s va" using t(3) by (simp add: pt_view_def)
  show "vm_tables (s\<lparr>mem := m\<rparr>) = vm_tables s" using t(2) by simp
qed

lemma view_in_page:
  assumes "page_aligned ptr" "d < 4096"
  shows "pt_view s (ptr + d) = pt_view s ptr" "(ptr + d) AND GET_FLAGS = d"
proof -
  show "pt_view s (ptr + d) = pt_view s ptr"
    using vpn_in_page [OF assms] by (simp add: pt_view_def vpn_eq_iff)
  show "(ptr + d) AND GET_FLAGS = d"
    using page_plus_or [OF assms] or_flags [OF assms] by simp
qed

lemma vmemcpy_page:
  assumes inv: "vm_inv s" and d: "page_aligned dest" "get_flags dest s AND 1 = 1" "f = walk_page_table dest s"
    and sr: "page_aligned src" "get_flags src s AND 1 = 1" "g = walk_page_table src s"
    and f: "f \<notin> vm_tables s" "f \<notin> set (free_frames s)" "f \<noteq> g"
  shows "vmemcpy dest src 4096 s = Some (s\<lparr>mem := (\<lambda>x. if page_of x = f then mem s (g + (x - f)) else mem s x)\<rparr>)"
proof -
  define M where "M i x = (if page_of x = f \<and> unat (x - f) < i then mem s (g + (x - f)) else mem s x)" for i x
  have fa: "page_aligned f" "page_aligned g" by (simp_all add: d sr walk_view)
  have fv: "page_of (pt_view s dest) = f" "(pt_view s dest AND GET_FLAGS) AND 1 = 1"
    "page_of (pt_view s src) = g" "(pt_view s src AND GET_FLAGS) AND 1 = 1"
    using d(2) sr(2) by (simp_all add: d(3) sr(3) walk_view flags_view)
  have step: "Option.bind (vload8 (src + of_nat i) (s\<lparr>mem := M i\<rparr>)) (\<lambda>b. vstore8 (dest + of_nat i) b (s\<lparr>mem := M i\<rparr>)) =
      Some (s\<lparr>mem := M (Suc i)\<rparr>)" if i: "i < 4096" for i
  proof -
    have w: "(of_nat i :: u64) < 4096" "unat (of_nat i :: u64) = i"
      using i by (simp_all add: word_less_nat_alt unat_of_nat)
    have "\<forall>x. M i x \<noteq> mem s x \<longrightarrow> page_of x = f" by (auto simp: M_def)
    note v = data_write(2) [OF inv this f(1,2)]
    have "page_of (g + of_nat i) = g" by (rule page_of_plus [OF fa(2) w(1)])
    then have "M i (g + of_nat i) = mem s (g + of_nat i)" using f(3) by (simp add: M_def)
    moreover have "x = f + of_nat i \<longleftrightarrow> page_of x = f \<and> unat (x - f) = i" for x
      using page_of_plus [OF fa(1) w(1)] w(2)
      by (metis add_diff_cancel_left' diff_add_cancel add.commute word_unat_eq_iff)
    then have "(M i)(f + of_nat i := mem s (g + of_nat i)) = M (Suc i)"
      by (auto simp: fun_eq_iff less_Suc_eq M_def)
    ultimately show ?thesis
      by (simp add: vload8_def vstore8_def walk_view flags_view view_in_page [OF d(1) w(1)]
          view_in_page [OF sr(1) w(1)] v fv)
  qed
  have "M 0 = mem s" by (simp add: M_def fun_eq_iff)
  then have "\<exists>t. foldM (\<lambda>i s. Option.bind (vload8 (src + of_nat i) s) (\<lambda>b. vstore8 (dest + of_nat i) b s)) [0..<4096] s = Some t \<and>
      t = s\<lparr>mem := M 4096\<rparr>"
    by (intro foldM_upt) (auto simp: step)
  moreover have "M 4096 = (\<lambda>x. if page_of x = f then mem s (g + (x - f)) else mem s x)"
    using page_offset [OF fa(1)] by (auto simp: fun_eq_iff word_less_nat_alt M_def)
  ultimately show ?thesis by (simp add: vmemcpy_def)
qed

lemma page_aligned_add: "page_aligned a \<Longrightarrow> page_aligned b \<Longrightarrow> page_aligned (a + b)"
  by (simp add: page_aligned_iff_dvd unat_word_ariths dvd_mod)

lemma set_page_ref_count_ok:
  assumes inv: "vm_inv s" and f: "page_aligned f" "page_refs s f = Some n" "f \<notin> set (free_frames s)"
  shows "\<exists>s'. set_page_ref_count f r s = Some s' \<and> vm_inv s' \<and> pt_view s' = pt_view s \<and> mem s' = mem s \<and>
     cr3 s' = cr3 s \<and> kernel_virtual_base s' = kernel_virtual_base s \<and>
     free_frames s' = free_frames s \<and> page_refs s' f = Some r \<and>
     (\<forall>q. page_aligned q \<longrightarrow> q \<noteq> f \<longrightarrow> page_refs s' q = page_refs s q)"
proof -
  let ?n = "unat (f div PAGE_SIZE)"
  have n: "?n < MAX_PAGES" using f(2) by (auto simp: get_page_ref_count_def Let_def split: if_splits)
  have "frame_of ?n = f" using f(1) n by (simp add: page_div_frame)
  then have nf: "?n \<notin> set (free_pages s)" using f(3) by (metis free_frames_def imageI list.set_map)
  let ?s = "s\<lparr>page_descriptor := (page_descriptor s)(?n := (page_descriptor s ?n)\<lparr>ref_count := r\<rparr>)\<rparr>"
  note p = phys_inv_ref_count_update [OF vm_inv_phys [OF inv] nf, of r]
  have "vm_inv ?s" using inv p by (simp add: vm_inv_def free_frames_def)
  moreover have "pt_view ?s = pt_view s" by (simp add: fun_eq_iff pt_view_def)
  moreover have "page_refs ?s q = page_refs s q" if "page_aligned q" "q \<noteq> f" for q
  proof -
    have "unat (q div PAGE_SIZE) \<noteq> ?n" using that f(1) page_div_frame by metis
    then show ?thesis by (simp add: get_page_ref_count_def Let_def)
  qed
  ultimately show ?thesis using n p
    by (intro exI [of _ ?s]) (simp add: set_page_ref_count_def get_page_ref_count_def free_frames_def Let_def)
qed

lemma copy_to_fresh:
  assumes inv: "vm_inv s" and a: "page_aligned addr" "walk_page_table addr s = f" "get_flags addr s AND 1 = 1"
    and f: "page_refs s f = Some 2" "f \<notin> vm_tables s" "f \<notin> set (free_frames s)"
    and av: "13 \<le> length (free_frames s)"
    and base: "page_aligned (kernel_virtual_base s)"
    and user: "\<forall>g \<in> set (free_frames s). vpn (kernel_virtual_base s + g) \<noteq> vpn addr"
  obtains p s1 s2 j where "kmalloc 4096 s = Some (kernel_virtual_base s + p, s1)"
    "walk_page_table (kernel_virtual_base s + p) s1 = p"
    "vmemcpy (kernel_virtual_base s + p) addr 4096 s1 = Some s2" "vm_inv s2" "p \<in> set (free_frames s)"
    "p \<notin> vm_tables s2 \<union> set (free_frames s2)" "f \<notin> vm_tables s2 \<union> set (free_frames s2)"
    "j \<le> 4" "free_frames s2 = drop j (free_frames s)"
    "\<forall>va. vpn va \<noteq> vpn (kernel_virtual_base s + p) \<longrightarrow> pt_view s2 va = pt_view s va"
    "\<forall>i < 4096. mem s2 (p + i) = mem s (f + i) \<and> mem s2 (f + i) = mem s (f + i)"
    "page_refs s2 f = Some 2" "page_refs s2 p = Some 1"
proof -
  have fa: "page_aligned f" using a(2) by (auto simp: walk_view)
  have b: "pages_of 4096 = 1" by (simp add: pages_of_def)
  have "0 < pages_of 4096" "4 * pages_of 4096 + 10 \<le> length (free_frames s) + 1" using av by (simp_all add: b)
  from kmalloc_ok [OF inv this] b obtain ps s1 j where
    s1: "kmalloc 4096 s = Some (kernel_virtual_base s + hd ps, s1)" "vm_inv s1" "length ps = 1"
      "set ps \<subseteq> set (free_frames s)" "set ps \<inter> (set (free_frames s1) \<union> vm_tables s1) = {}"
      "\<forall>i < 1. pt_view s1 (kernel_virtual_base s + hd ps + of_nat i * PAGE_SIZE) = ps ! i OR 3"
      "\<forall>va. (\<forall>i < 1. vpn va \<noteq> vpn (kernel_virtual_base s + hd ps + of_nat i * PAGE_SIZE)) \<longrightarrow> pt_view s1 va = pt_view s va"
      "\<forall>p \<in> set ps. page_data s1 p = (\<lambda>_. 0) \<and> page_refs s1 p = Some 1"
      "j \<le> 4" "free_frames s1 = drop j (free_frames s)"
      "\<forall>q. page_aligned q \<longrightarrow> q \<notin> vm_tables s \<union> set (free_frames s) \<longrightarrow> untouched vm_tables page_data page_refs s s1 q"
    by (auto simp: b)
  obtain p where p: "ps = [p]" using s1(3) by (cases ps) auto
  have pf: "p \<in> set (free_frames s)" "p \<noteq> f" using s1(4) f(3) by (auto simp: p)
  have pa: "page_aligned p" by (rule as.frames_page_aligned [OF inv pf(1)])
  let ?v = "kernel_virtual_base s + p"
  have va: "page_aligned ?v" by (rule page_aligned_add [OF base pa])
  have v: "pt_view s1 ?v = p OR 3" "vpn ?v \<noteq> vpn addr" using s1(6) pf(1) user by (auto simp: p)
  have va1: "pt_view s1 va = pt_view s va" if "vpn va \<noteq> vpn ?v" for va using s1(7) that by (simp add: p)
  have u1: "f \<notin> vm_tables s1" "page_data s1 f = page_data s f" "page_refs s1 f = Some 2"
    using s1(11) fa f by (auto simp: untouched_def)
  have nf1: "f \<notin> set (free_frames s1)" using f(3) s1(10) in_set_dropD by metis
  have np1: "p \<notin> vm_tables s1" "p \<notin> set (free_frames s1)" using s1(5) by (auto simp: p)
  define m where "m x = (if page_of x = p then mem s1 (f + (x - p)) else mem s1 x)" for x
  have fl: "page_of (p OR 3) = p" "(p OR 3) AND GET_FLAGS = 3" using or_page [OF pa] or_flags [OF pa] by simp_all
  have cp: "vmemcpy ?v addr 4096 s1 = Some (s1\<lparr>mem := m\<rparr>)"
    unfolding m_def
  proof (rule vmemcpy_page [OF s1(2) va _ _ a(1)])
    show "get_flags addr s1 AND 1 = 1" "f = walk_page_table addr s1"
      using a va1 [of addr] v(2) by (auto simp: walk_view flags_view)
  qed (use v np1 pf(2) fl in \<open>auto simp: walk_view flags_view\<close>)
  have "\<forall>x. m x \<noteq> mem s1 x \<longrightarrow> page_of x = p" by (auto simp: m_def)
  note w = data_write [OF s1(2) this np1]
  have "mem s1 (f + i) = mem s (f + i)" if "page_of (f + i) = f" for i
    using fun_cong [OF u1(2), of "f + i"] that by (simp add: page_data_def)
  then have "m (p + i) = mem s (f + i) \<and> m (f + i) = mem s (f + i)" if "i < 4096" for i
    using page_of_plus [OF pa that] page_of_plus [OF fa that] pf(2) by (simp add: m_def)
  moreover have "page_refs (s1\<lparr>mem := m\<rparr>) q = page_refs s1 q" for q by (simp add: get_page_ref_count_def Let_def)
  ultimately show ?thesis
    using that [of p s1 "s1\<lparr>mem := m\<rparr>" j] s1 p w cp va1 v fl u1 nf1 np1 pf by (simp add: walk_view)
qed

lemma cow_fault_shared:
  assumes inv: "vm_inv s" and a: "page_aligned addr" "walk_page_table addr s = f" "get_flags addr s AND 1 = 1"
    and f: "page_refs s f = Some 2" "f \<notin> vm_tables s" "f \<notin> set (free_frames s)"
    and av: "16 \<le> length (free_frames s)"
    and base: "page_aligned (kernel_virtual_base s)"
    and user: "\<forall>g \<in> set (free_frames s). vpn (kernel_virtual_base s + g) \<noteq> vpn addr"
  shows "\<exists>p s'. cow_fault addr s = Some s' \<and> vm_inv s' \<and> p \<in> set (free_frames s) \<and> p \<notin> set (free_frames s') \<and>
     walk_page_table addr s' = p \<and> get_flags addr s' = 7 \<and>
     (\<forall>i < 4096. mem s' (p + i) = mem s (f + i) \<and> mem s' (f + i) = mem s (f + i)) \<and>
     page_refs s' f = Some 1 \<and> page_refs s' p = Some 1 \<and>
     (\<forall>va. vpn va \<noteq> vpn addr \<longrightarrow> vpn va \<noteq> vpn (kernel_virtual_base s + p) \<longrightarrow> pt_view s' va = pt_view s va)"
proof -
  have fa: "page_aligned f" using a(2) by (auto simp: walk_view)
  have "13 \<le> length (free_frames s)" using av by simp
  then obtain p s1 s2 j where
    s1: "kmalloc 4096 s = Some (kernel_virtual_base s + p, s1)" "walk_page_table (kernel_virtual_base s + p) s1 = p"
    and s2: "vmemcpy (kernel_virtual_base s + p) addr 4096 s1 = Some s2" "vm_inv s2" "p \<in> set (free_frames s)"
      "p \<notin> vm_tables s2 \<union> set (free_frames s2)" "f \<notin> vm_tables s2 \<union> set (free_frames s2)"
      "j \<le> 4" "free_frames s2 = drop j (free_frames s)"
      "\<forall>va. vpn va \<noteq> vpn (kernel_virtual_base s + p) \<longrightarrow> pt_view s2 va = pt_view s va"
      "\<forall>i < 4096. mem s2 (p + i) = mem s (f + i) \<and> mem s2 (f + i) = mem s (f + i)"
      "page_refs s2 f = Some 2" "page_refs s2 p = Some 1"
    by (rule copy_to_fresh [OF inv a f _ base user])
  have pa: "page_aligned p" by (rule as.frames_page_aligned [OF inv s2(3)])
  have "10 + 2 \<le> length (free_frames s2)" using s2(6,7) av by simp
  from as.map_page [OF s2(2) good_flags_consts(2) this, of addr p] obtain s3 where
    s3: "update_page_tables addr p PAGING_USER_R_W_FLAGS s2 = Some s3" "vm_inv s3"
      "\<exists>j \<le> 3. free_frames s3 = drop j (free_frames s2)"
      "\<forall>va'. pt_view s3 va' = (if vpn va' = vpn addr then p OR ucast PAGING_USER_R_W_FLAGS else pt_view s2 va')"
      "\<forall>q. page_aligned q \<longrightarrow> q \<notin> vm_tables s2 \<union> set (free_frames s2) \<longrightarrow> untouched vm_tables page_data page_refs s2 s3 q"
    by blast
  have n3: "set (free_frames s3) \<subseteq> set (free_frames s2)" using s3(3) by (auto dest: in_set_dropD)
  have u3: "untouched vm_tables page_data page_refs s2 s3 f" "untouched vm_tables page_data page_refs s2 s3 p"
    using s3(5) s2(4,5) fa pa by auto
  have r3: "page_refs s3 f = Some 2" "page_refs s3 p = Some 1" using u3 s2(10,11) by (simp_all add: untouched_def)
  have nf: "f \<notin> set (free_frames s3)" "p \<noteq> f" using n3 s2(5) s2(10,11) by auto
  from set_page_ref_count_ok [OF s3(2) fa r3(1) nf(1), of 1] obtain s4 where
    s4: "set_page_ref_count f 1 s3 = Some s4" "vm_inv s4" "pt_view s4 = pt_view s3" "mem s4 = mem s3"
      "free_frames s4 = free_frames s3" "page_refs s4 f = Some 1"
      "\<forall>q. page_aligned q \<longrightarrow> q \<noteq> f \<longrightarrow> page_refs s4 q = page_refs s3 q" by blast
  have "cow_fault addr s = Some s4"
    using s1 s2(1) s3(1) s4(1) f(1) a(2) by (simp add: cow_fault_def flush_tlb_def)
  moreover have "mem s4 (q + i) = mem s2 (q + i)" if "untouched vm_tables page_data page_refs s2 s3 q" "page_aligned q" "i < 4096" for q i
  proof -
    have "page_data s3 q (q + i) = page_data s2 q (q + i)" using that(1) by (simp add: untouched_def)
    then show ?thesis using page_of_plus [OF that(2,3)] s4(4) by (simp add: page_data_def)
  qed
  then have "\<forall>i < 4096. mem s4 (p + i) = mem s (f + i) \<and> mem s4 (f + i) = mem s (f + i)"
    using u3 pa fa s2(9) by simp
  moreover have "walk_page_table addr s4 = p" "get_flags addr s4 = 7"
    using s3(4) s4(3) or_page [OF pa, of 7] or_flags [OF pa, of 7] by (simp_all add: walk_view flags_view PAGING_USER_R_W_FLAGS_def)
  ultimately show ?thesis
    using s4 r3(2) s2 s3(4) nf pa n3 by (intro exI [of _ p] exI [of _ s4]) auto
qed

text \<open>C4. A write to a page that two processes share by copy on write gives the faulting process its
  own frame: the handler maps a frame taken from the free list there with user read-write flags, the
  new frame holds the bytes of the shared one, the shared frame keeps its bytes and is left with one
  user, and no other user page is remapped.\<close>

theorem page_fault_private_copy:
  assumes "vm_inv k" and "addr = (cr2 div PAGE_SIZE) * PAGE_SIZE"
    and "drop_bit 9 (get_flags addr k) AND 1 = 1" "get_flags addr k AND 1 = 1" "walk_page_table addr k = f"
    and "page_refs k f = Some 2" "f \<notin> vm_tables k" "f \<notin> set (free_frames k)"
    and "16 \<le> length (free_frames k)" "page_aligned (kernel_virtual_base k)"
    and "\<forall>g \<in> set (free_frames k). vpn (kernel_virtual_base k + g) \<noteq> vpn addr"
  shows "\<exists>p k'. page_fault_handler cr2 k = Some k' \<and> vm_inv k' \<and>
     p \<in> set (free_frames k) \<and> p \<notin> set (free_frames k') \<and>
     walk_page_table addr k' = p \<and> get_flags addr k' = 7 \<and>
     (\<forall>i < 4096. mem k' (p + i) = mem k (f + i) \<and> mem k' (f + i) = mem k (f + i)) \<and>
     page_refs k' f = Some 1 \<and> page_refs k' p = Some 1 \<and>
     (\<forall>va. vpn va \<noteq> vpn addr \<longrightarrow> vpn va \<noteq> vpn (kernel_virtual_base k + p) \<longrightarrow> pt_view k' va = pt_view k va)"
proof -
  have "unat cr2 < 2 ^ 64" using unsigned_less [of cr2, where 'a = nat] by simp
  then have "unat addr = unat cr2 div 4096 * 4096"
    using assms(2) by (simp add: unat_word_ariths unat_page_div) (simp add: PAGE_SIZE_def; presburger)
  then have "page_aligned addr" by (simp add: page_aligned_iff_dvd)
  from cow_fault_shared [OF assms(1) this assms(5,4,6-11)] assms(2,3) show ?thesis
    by (simp add: page_fault_handler_def Let_def)
qed

lemma kernel_small_user: "g \<in> set (free_frames kernel_small) \<Longrightarrow> vpn (0xFFFFFFFF80000000 + g) \<noteq> vpn 0x400000"
  by (auto simp: frame_of_def PAGE_SIZE_def vpn_def)

lemma kernel_small_shared:
  obtains k :: kernel where "vm_inv k" "pt_view k 0x400000 = frame_of 40 OR 0x205" "page_refs k (frame_of 40) = Some 2"
    "frame_of 40 \<notin> vm_tables k" "frame_of 40 \<notin> set (free_frames k)" "16 \<le> length (free_frames k)"
    "kernel_virtual_base k = 0xFFFFFFFF80000000" "set (free_frames k) \<subseteq> set (free_frames kernel_small)"
proof -
  have a: "page_aligned (frame_of 40)" by (simp add: page_aligned_def GET_FLAGS_def frame_of_def PAGE_SIZE_def)
  have f: "frame_of 40 \<notin> vm_tables kernel_small \<union> set (free_frames kernel_small)"
    by (simp add: frame_of_def PAGE_SIZE_def)
  obtain s where s: "vm_grow 3 kernel_small s" "pt_view s 0x400000 = frame_of 40 OR 0x205"
    using update_page_tables_ok [of kernel_small "0x205" "0x400000" "frame_of 40"] by (auto simp: good_flags_def)
  have b: "kernel_virtual_base s = 0xFFFFFFFF80000000" "16 \<le> length (free_frames s)"
    "set (free_frames s) \<subseteq> set (free_frames kernel_small)"
    using s(1) by (auto simp: vm_grow_def same_regs_def free_frames_def simp del: upt_rec_numeral dest: in_set_dropD)
  have u: "frame_of 40 \<notin> vm_tables s" "page_refs s (frame_of 40) = Some 0" "frame_of 40 \<notin> set (free_frames s)"
    using vm_grow_untouched [OF s(1) a f] b(3) f by (auto simp: untouched_def)
  from set_page_ref_count_ok [OF vm_growD(1) [OF s(1)] a u(2,3), of 2] s(2) u b that show thesis by force
qed

theorem page_fault_private_copy_witness:
  "\<exists>(k :: kernel) k' p. page_fault_handler 0x400123 k = Some k' \<and> walk_page_table 0x400000 k = frame_of 40 \<and>
     walk_page_table 0x400000 k' = p \<and> p \<noteq> frame_of 40 \<and> get_flags 0x400000 k' = 7 \<and>
     mem k' (p + 5) = mem k (frame_of 40 + 5)"
proof -
  have a: "page_aligned (frame_of 40)" by (simp add: page_aligned_def GET_FLAGS_def frame_of_def PAGE_SIZE_def)
  obtain k :: kernel where k: "vm_inv k" "pt_view k 0x400000 = frame_of 40 OR 0x205" "page_refs k (frame_of 40) = Some 2"
    "frame_of 40 \<notin> vm_tables k" "frame_of 40 \<notin> set (free_frames k)" "16 \<le> length (free_frames k)"
    "kernel_virtual_base k = 0xFFFFFFFF80000000" "set (free_frames k) \<subseteq> set (free_frames kernel_small)"
    by (rule kernel_small_shared)
  have v: "walk_page_table 0x400000 k = frame_of 40" "get_flags 0x400000 k = 0x205"
    using k(2) a by (simp_all add: walk_view flags_view or_page or_flags)
  have b: "page_aligned (kernel_virtual_base k)" by (simp add: k(7) page_aligned_def GET_FLAGS_def)
  have u: "\<forall>g \<in> set (free_frames k). vpn (kernel_virtual_base k + g) \<noteq> vpn 0x400000"
    using k(7,8) kernel_small_user by auto
  have c: "0x400000 = (0x400123 div PAGE_SIZE) * PAGE_SIZE" "drop_bit 9 (get_flags 0x400000 k) AND 1 = 1" "get_flags 0x400000 k AND 1 = 1"
    by (simp_all add: PAGE_SIZE_def v)
  from page_fault_private_copy [OF k(1) c v(1) k(3-6) b u] obtain p k' where
    "page_fault_handler 0x400123 k = Some k'" "p \<in> set (free_frames k)" "walk_page_table 0x400000 k' = p"
    "get_flags 0x400000 k' = 7" "\<forall>i < 4096. mem k' (p + i) = mem k (frame_of 40 + i)" by blast
  with v k(5) show ?thesis by (intro exI [of _ k] exI [of _ k'] exI [of _ p]) auto
qed

end
