(* ===== verification/Exec.thy ===== *)
theory Exec
  imports Process
begin

text \<open>
  Replacing the program of a process, \<open>exec_vpe\<close> and \<open>go_to_ring3_exec\<close> of \<^verbatim>\<open>sys/process.c\<close>. The
  arguments are strings the caller's pointers lead to. The result is the value returned to the caller,
  or \<^const>\<open>None\<close> when the processor has entered the new program.
\<close>

definition MAX_ARGS :: nat where "MAX_ARGS = 8"

definition vstore64 :: "u64 \<Rightarrow> u64 \<Rightarrow> 'a vm_scheme \<Rightarrow> 'a vm_scheme option" where
  "vstore64 va v s = foldM (\<lambda>i. vstore8 (va + of_nat i) (ucast (drop_bit (8 * i) v))) [0..<8] s"

text \<open>The rows of \<open>user_stack\<close> lie one behind the other.\<close>

definition put_arg :: "char list \<Rightarrow> nat \<times> char list \<Rightarrow> (nat \<times> char list) option" where
  "put_arg a as = do {
     let (argc, user_stack) = as;
     s \<leftarrow> cstr a;
     user_stack \<leftarrow> foldM (\<lambda>j st. buf_write st (int (BUF_SIZE * argc + j)) (s ! j)) [0..<length s] user_stack;
     Some (argc + 1, user_stack)
   }"

definition copy_args :: "char list list \<Rightarrow> (nat \<times> char list) option" where
  "copy_args argv = foldM put_arg argv (0, replicate (MAX_ARGS * BUF_SIZE) NUL)"

definition store_bytes :: "u64 \<Rightarrow> char list \<Rightarrow> 'a vm_scheme \<Rightarrow> 'a vm_scheme option" where
  "store_bytes va cs s = foldM (\<lambda>i. vstore8 (va + of_nat i) (of_nat (of_char (cs ! i)))) [0..<length cs] s"

text \<open>The strings and the vector of pointers to them on the new program's stack; the result is the
  address of the vector.\<close>

definition push_args :: "nat \<Rightarrow> char list \<Rightarrow> 'a vm_scheme \<Rightarrow> (u64 \<times> 'a vm_scheme) option" where
  "push_args argc user_stack s = do {
     let user_stack_ptr = STACK_START + 4096 - 16 - of_nat (MAX_ARGS * BUF_SIZE);
     s \<leftarrow> store_bytes user_stack_ptr user_stack s;
     s \<leftarrow> foldM (\<lambda>i. vstore64 (user_stack_ptr - 8 * of_nat i)
           (user_stack_ptr + of_nat BUF_SIZE * of_nat (argc - i))) (rev [1..<argc + 1]) s;
     Some (user_stack_ptr - 8 * of_nat argc, s)
   }"

partial_function (option) ring_last :: "u64 \<Rightarrow> 'a kernel_scheme \<Rightarrow> u64 option" where
  "ring_last it k = do {
     t \<leftarrow> threads k it;
     if t_next t = current_process k then Some it else ring_last (t_next t) k
   }"

definition go_to_ring3_exec :: "'a kernel_scheme \<Rightarrow> 'a kernel_scheme option" where
  "go_to_ring3_exec k = do {
     t \<leftarrow> threads k (current_process k);
     Some (set_new_cr3 (t_cr3 t) (set_tss_rsp (current_process k + 16 + 8 * 4095) k))
   }"

text \<open>The new thread takes the current one's place in the ring.\<close>

definition replace_current :: "u64 \<Rightarrow> 'a kernel_scheme \<Rightarrow> 'a kernel_scheme option" where
  "replace_current new k = do {
     ct \<leftarrow> threads k (current_process k);
     last \<leftarrow> ring_last (t_next ct) k;
     k \<leftarrow> upd_thread last (\<lambda>t. t\<lparr>t_next := new\<rparr>) k;
     ct \<leftarrow> threads k (current_process k);
     k \<leftarrow> upd_thread new (\<lambda>t. t\<lparr>t_next := t_next ct\<rparr>) k;
     upd_thread new (\<lambda>t. t\<lparr>p_state := RUNNING\<rparr>) (k\<lparr>current_process := new\<rparr>)
   }"

definition exec_vpe ::
    "char list \<Rightarrow> char list list option \<Rightarrow> 'a kernel_scheme \<Rightarrow> (int option \<times> 'a kernel_scheme) option" where
  "exec_vpe filename argv k = do {
     location \<leftarrow> get_file_binary (tarfs k) filename;
     if location = None then Some (Some (- 1), k)
     else do {
       f \<leftarrow> cstr filename;
       (argc, user_stack) \<leftarrow> copy_args (case argv of None \<Rightarrow> [] | Some as \<Rightarrow> as);
       ct \<leftarrow> threads k (current_process k);
       (new, k) \<leftarrow> alloc_thread k;
       k \<leftarrow> upd_thread new (\<lambda>t. t\<lparr>pid := pid ct, ppid := ppid ct, t_next := 0, num_child := 0,
             fds := (fds t)[0 := fds ct ! 0, 1 := fds ct ! 1, 2 := fds ct ! 2], cwd := cwd ct\<rparr>) k;
       if length f < BUF_SIZE then do {
         (root, k) \<leftarrow> setup_user_page_tables k;
         k \<leftarrow> upd_thread new (\<lambda>t. t\<lparr>t_cr3 := root\<rparr>) k;
         let k = set_new_cr3 root k;
         (mm, k) \<leftarrow> alloc_mm k;
         k \<leftarrow> upd_thread new (\<lambda>t. t\<lparr>process_mm := mm\<rparr>) k;
         (r, k) \<leftarrow> load_file new (f @ [NUL]) k;
         (user_stack_ptr, k) \<leftarrow> push_args argc user_stack k;
         k \<leftarrow> upd_thread new (\<lambda>t. t\<lparr>rsp_user := user_stack_ptr\<rparr>) k;
         k \<leftarrow> replace_current new k;
         map_option (Pair None) (go_to_ring3_exec k)
       }
       else None
     }
   }"

end
