(* ===== verification/Timer.thy ===== *)
theory Timer
  imports Kernel_State
begin

text \<open>
  The clock, \<^verbatim>\<open>sys/pit.c\<close>, and sleeping, \<^verbatim>\<open>sys/sleep.c\<close>. \<open>sleep\<close> polls a counter that the timer
  interrupt lowers once a second; its model takes the number of seconds that pass while it polls and is
  \<^const>\<open>None\<close> when they are too few for it to return.
\<close>

definition on_second_tick :: "'a kernel_scheme \<Rightarrow> 'a kernel_scheme" where
  "on_second_tick k = (if sleep_val k = 0 then k else k\<lparr>sleep_val := sleep_val k - 1\<rparr>)"

definition pit_intr_handler :: "'a kernel_scheme \<Rightarrow> 'a kernel_scheme option" where
  "pit_intr_handler k = do {
     let k = k\<lparr>time_since_boot := time_since_boot k + 1\<rparr>;
     k \<leftarrow> on_con (printTime (time_since_boot k)) k;
     Some (if time_since_boot k mod 100 = 0 then on_second_tick k else k)
   }"

primrec sleep_loop :: "nat \<Rightarrow> 'a kernel_scheme \<Rightarrow> 'a kernel_scheme option" where
  "sleep_loop 0 k = (if sleep_val k = 0 then Some k else None)"
| "sleep_loop (Suc n) k = (if sleep_val k = 0 then Some k else sleep_loop n (on_second_tick k))"

definition sleep :: "nat \<Rightarrow> u32 \<Rightarrow> 'a kernel_scheme \<Rightarrow> (u32 \<times> 'a kernel_scheme) option" where
  "sleep ticks seconds k = map_option (Pair 0) (sleep_loop ticks (k\<lparr>sleep_val := seconds\<rparr>))"

lemma sleep_loop_ticks:
  "sleep_loop n k = (if unat (sleep_val k) \<le> n then Some (k\<lparr>sleep_val := 0\<rparr>) else None)"
proof (induction n arbitrary: k)
  case 0
  then show ?case by (auto simp: unat_eq_0)
next
  case (Suc n)
  show ?case
  proof (cases "sleep_val k = 0")
    case False
    then have "unat (sleep_val k - 1) = unat (sleep_val k) - 1" "0 < unat (sleep_val k)"
      by (simp_all add: unat_minus_one unat_gt_0)
    then show ?thesis using Suc [of "on_second_tick k"] False by (auto simp: on_second_tick_def)
  qed auto
qed


end
