(* ===== verification/Syscalls.thy ===== *)
theory Syscalls
  imports Exec Timer
begin

text \<open>
  The system calls: directories as kernel objects (\<open>get_folder\<close> to \<open>close_dir\<close> of
  \<^verbatim>\<open>sys/tarfs.c\<close>) and the dispatcher \<open>handle_syscall\<close> of \<^verbatim>\<open>sys/syscalls.c\<close>.

  A call's arguments are the values its registers hold, and for pointers the characters they point to.
  The result holds the value returned and the caller's buffer afterwards; a call that enters another
  program has no result. What the world does while a call blocks is in \<open>world\<close>: the keys typed, the
  seconds that pass, what the other processes do, and the text behind each thread's name.
\<close>

subsection \<open>Directories\<close>

definition get_tarfs_impl :: "'a kernel_scheme \<Rightarrow> (u64 \<times> 'a kernel_scheme) option" where
  "get_tarfs_impl k =
     (if tarfs_impl k = 0 then map_option (\<lambda>(p, k). (p, k\<lparr>tarfs_impl := p\<rparr>)) (kmalloc 16 k)
      else Some (tarfs_impl k, k))"

definition get_folder :: "char list \<Rightarrow> 'a kernel_scheme \<Rightarrow> (u64 \<times> 'a kernel_scheme) option" where
  "get_folder name k = do {
     (dir_pointer, k) \<leftarrow> kmalloc 8204 k;
     d \<leftarrow> scan_folder (tarfs k) name;
     Some (dir_pointer, k\<lparr>dirs := (dirs k)(dir_pointer \<mapsto> d)\<rparr>)
   }"

definition open_dir :: "char list \<Rightarrow> 'a kernel_scheme \<Rightarrow> (u64 \<times> 'a kernel_scheme) option" where
  "open_dir name k = do {
     (dir, k) \<leftarrow> get_folder name k;
     d \<leftarrow> dirs k dir;
     Some (if dir_exists_flag d = 1 then dir else 0, k)
   }"

definition read_dir :: "u64 \<Rightarrow> char list \<Rightarrow> 'a kernel_scheme \<Rightarrow> (int \<times> char list \<times> 'a kernel_scheme) option" where
  "read_dir stream filename k = do {
     d \<leftarrow> dirs k stream;
     (r, filename, d) \<leftarrow> read_dir_header d filename;
     Some (r, filename, k\<lparr>dirs := (dirs k)(stream \<mapsto> d)\<rparr>)
   }"

definition close_dir :: "u64 \<Rightarrow> 'a kernel_scheme \<Rightarrow> (int \<times> 'a kernel_scheme) option" where
  "close_dir stream k = map_option (Pair 0) (kfree stream k)"

subsection \<open>Calls\<close>

datatype syscall =
    SYSCALL_READ u64 "char list" u64
  | SYSCALL_WRITE u64 "char list" u64
  | SYSCALL_OPEN u64 "char list"
  | SYSCALL_CLOSE u64
  | SYSCALL_UNLINK u64 u64 u64 u64 u64
  | SYSCALL_CHDIR "char list"
  | SYSCALL_GETCWD "char list" u64
  | SYSCALL_FORK
  | SYSCALL_EXECVPE "char list" "char list list option"
  | SYSCALL_WAIT
  | SYSCALL_YIELD
  | SYSCALL_PID
  | SYSCALL_PPID
  | SYSCALL_MALLOC u64
  | SYSCALL_FREE u64
  | SYSCALL_OPENDIR "char list"
  | SYSCALL_READDIR u64 "char list"
  | SYSCALL_CLOSEDIR u64
  | SYSCALL_SLEEP u32
  | SYSCALL_PS "char list"
  | SYSCALL_WAITPID int
  | SYSCALL_EXIT int
  | SYSCALL_KILL int

datatype sys_result = Ret u64 "char list" | Entered

record 'k world =
  keys :: "char list list"
  seconds :: nat
  others :: "'k \<Rightarrow> 'k option"
  names :: "u64 \<Rightarrow> char list"

definition fail_with ::
    "char list \<Rightarrow> vararg list \<Rightarrow> 'a kernel_scheme \<Rightarrow> (sys_result \<times> 'a kernel_scheme) option" where
  "fail_with msg args k = map_option (Pair (Ret (- 1) [])) (kputs msg args k)"

definition sys_write :: "u64 \<Rightarrow> char list \<Rightarrow> u64 \<Rightarrow> 'a kernel_scheme \<Rightarrow> (sys_result \<times> 'a kernel_scheme) option" where
  "sys_write fd buf count k =
     (if fd \<ge> of_nat NUM_FDS then
        fail_with (''Invalid FD #, must be between %d and %d'' @ [CHR 0x0A]) [VInt 0, VInt (of_nat NUM_FDS)] k
      else if fd = 0 then fail_with ''Write op not supported on FD #%d'' [VInt (ucast fd)] k
      else do {
        t \<leftarrow> threads k (current_process k);
        let fo = fds t ! unat fd;
        if fo = 0 then fail_with (''FD %d is not setup yet!'' @ [CHR 0x0A]) [VInt (ucast fd)] k
        else do {
          f \<leftarrow> fos k fo;
          case fo_impl f of
            None \<Rightarrow> fail_with (''#%d: this file descriptor isn't handled for write'' @ [CHR 0x0A]) [VInt (ucast fd)] k
          | Some TARFS_IMPL \<Rightarrow> fail_with (''FD # %d does not support writing.'' @ [CHR 0x0A]) [VInt (ucast fd)] k
          | Some TERMINAL_FS \<Rightarrow> do {
              (r, c) \<leftarrow> terminal_write buf (sint (ucast count :: u32)) (con k);
              Some (Ret (of_int r) buf, k\<lparr>con := c\<rparr>)
            }
        }
      })"

definition read_object ::
    "char list list \<Rightarrow> file_object \<Rightarrow> file_sys_impl \<Rightarrow> char list \<Rightarrow> u64 \<Rightarrow> 'a kernel_scheme \<Rightarrow>
     (int \<times> char list \<times> 'a kernel_scheme) option" where
  "read_object events f impl buf count k =
     (case impl of
        TERMINAL_FS \<Rightarrow> map_option (\<lambda>(r, buf, c). (r, buf, k\<lparr>con := c\<rparr>))
          (terminal_read buf (sint (ucast count :: u32)) events (con k))
      | TARFS_IMPL \<Rightarrow> map_option (\<lambda>(r, buf). (r, buf, k))
          (tarfs_read (tarfs k) buf (sint (ucast count :: u32)) (content_start f) (unat (fo_offset f))))"

definition sys_read ::
    "char list list \<Rightarrow> u64 \<Rightarrow> char list \<Rightarrow> u64 \<Rightarrow> 'a kernel_scheme \<Rightarrow> (sys_result \<times> 'a kernel_scheme) option" where
  "sys_read events fd buf count k =
     (if fd \<ge> of_nat NUM_FDS then
        fail_with (''Invalid FD #, must be between %d and %d'' @ [CHR 0x0A]) [VInt 0, VInt (of_nat NUM_FDS)] k
      else if fd = 1 \<or> fd = 2 then fail_with ''Read op not supported on FD #%d'' [VInt (ucast fd)] k
      else do {
        t \<leftarrow> threads k (current_process k);
        let fo = fds t ! unat fd;
        if fo = 0 then fail_with (''FD $d is not setup yet!'' @ [CHR 0x0A]) [] k
        else do {
          f \<leftarrow> fos k fo;
          case fo_impl f of
            None \<Rightarrow> fail_with (''#%d: this file descriptor isn't handled for read'' @ [CHR 0x0A]) [VInt (ucast fd)] k
          | Some impl \<Rightarrow> do {
              (len_read, buf, k) \<leftarrow> read_object events f impl buf count k;
              k \<leftarrow> (if len_read > 0 then upd_fo fo (\<lambda>f. f\<lparr>fo_offset := fo_offset f + of_int len_read\<rparr>) k else Some k);
              Some (Ret (of_int len_read) buf, k)
            }
        }
      })"

definition sys_open :: "u64 \<Rightarrow> char list \<Rightarrow> 'a kernel_scheme \<Rightarrow> (sys_result \<times> 'a kernel_scheme) option" where
  "sys_open path_addr name k = do {
     file \<leftarrow> get_file_binary (tarfs k) name;
     case file of None \<Rightarrow> Some (Ret (- 1) [], k)
     | Some content \<Rightarrow> do {
         t \<leftarrow> threads k (current_process k);
         case find (\<lambda>i. fds t ! i = 0) [3..<NUM_FDS] of
           None \<Rightarrow> Some (Ret (- 2) [], k)
         | Some fd_idx \<Rightarrow> do {
             (fo, k) \<leftarrow> alloc_fo k;
             k \<leftarrow> upd_fo fo (\<lambda>f. f\<lparr>file_path := path_addr, fo_offset := 0, fo_ref_count := 1\<rparr>) k;
             (impl, k) \<leftarrow> get_tarfs_impl k;
             k \<leftarrow> upd_fo fo (\<lambda>f. f\<lparr>fo_impl := Some TARFS_IMPL, content_start := content\<rparr>) k;
             k \<leftarrow> upd_thread (current_process k) (\<lambda>t. t\<lparr>fds := (fds t)[fd_idx := fo]\<rparr>) k;
             Some (Ret (of_nat fd_idx) [], k)
           }
       }
   }"

definition sys_close :: "u64 \<Rightarrow> 'a kernel_scheme \<Rightarrow> (sys_result \<times> 'a kernel_scheme) option" where
  "sys_close fd k =
     (if fd \<ge> of_nat NUM_FDS then fail_with (''FD # is incorrect!'' @ [CHR 0x0A]) [] k
      else if fd = 0 \<or> fd = 1 \<or> fd = 2 then fail_with (''Can't close FD #%d'' @ [CHR 0x0A]) [VInt (ucast fd)] k
      else do {
        t \<leftarrow> threads k (current_process k);
        let fo = fds t ! unat fd;
        if fo = 0 then fail_with (''FD #%d is not open'' @ [CHR 0x0A]) [VInt (ucast fd)] k
        else do {
          k \<leftarrow> upd_fo fo (\<lambda>f. f\<lparr>fo_ref_count := fo_ref_count f - 1\<rparr>) k;
          f \<leftarrow> fos k fo;
          k \<leftarrow> (if fo_ref_count f = 0
                then Option.bind (upd_thread (current_process k) (\<lambda>t. t\<lparr>fds := (fds t)[unat fd := 0]\<rparr>) k) (kfree fo)
                else Some k);
          Some (Ret 0 [], k)
        }
      })"

definition sys_other :: "u64 \<Rightarrow> u64 \<Rightarrow> u64 \<Rightarrow> u64 \<Rightarrow> u64 \<Rightarrow> u64 \<Rightarrow> 'a kernel_scheme \<Rightarrow> (sys_result \<times> 'a kernel_scheme) option" where
  "sys_other code arg2 arg3 arg4 arg5 arg6 k = do {
     k \<leftarrow> kputs (''Arg1: %x, Arg2: %x, Arg3: %x '' @ [CHR 0x0A]) [VLong code, VLong arg2, VLong arg3] k;
     k \<leftarrow> kputs (''Arg4: %x, Arg5: %x, Arg6: %x '' @ [CHR 0x0A]) [VLong arg4, VLong arg5, VLong arg6] k;
     Some (Ret 0 [], k)
   }"

definition ret_int :: "(int \<times> 'a kernel_scheme) option \<Rightarrow> (sys_result \<times> 'a kernel_scheme) option" where
  "ret_int = map_option (\<lambda>(r, k). (Ret (of_int r) [], k))"

definition ret_addr :: "(u64 \<times> 'a kernel_scheme) option \<Rightarrow> (sys_result \<times> 'a kernel_scheme) option" where
  "ret_addr = map_option (\<lambda>(r, k). (Ret r [], k))"

definition ret_0 :: "'a kernel_scheme option \<Rightarrow> (sys_result \<times> 'a kernel_scheme) option" where
  "ret_0 = map_option (Pair (Ret 0 []))"

text \<open>A process that gave up the processor goes on once the others have switched back to it; one
  that has ended does not go on.\<close>

definition sys_yield :: "('a kernel_scheme \<Rightarrow> 'a kernel_scheme option) \<Rightarrow> 'a kernel_scheme \<Rightarrow> (sys_result \<times> 'a kernel_scheme) option" where
  "sys_yield run_others k = do {
     k' \<leftarrow> scheduler k;
     ret_0 (if current_process k' = current_process k then Some k' else run_others k')
   }"

definition sys_exit :: "int \<Rightarrow> 'a kernel_scheme \<Rightarrow> (sys_result \<times> 'a kernel_scheme) option" where
  "sys_exit st k = do {
     k' \<leftarrow> exit_current_process st k;
     Some (if current_process k' = current_process k then Ret 0 [] else Entered, k')
   }"

fun handle_syscall ::
    "'a kernel_scheme world \<Rightarrow> syscall \<Rightarrow> 'a kernel_scheme \<Rightarrow> (sys_result \<times> 'a kernel_scheme) option" where
  "handle_syscall w (SYSCALL_WRITE fd buf count) k = sys_write fd buf count k"
| "handle_syscall w SYSCALL_FORK k = ret_int (fork k)"
| "handle_syscall w (SYSCALL_READ fd buf count) k = sys_read (keys w) fd buf count k"
| "handle_syscall w (SYSCALL_OPEN path_addr name) k = sys_open path_addr name k"
| "handle_syscall w (SYSCALL_CLOSE fd) k = sys_close fd k"
| "handle_syscall w SYSCALL_YIELD k = sys_yield (others w) k"
| "handle_syscall w SYSCALL_PID k = ret_int (map_option (\<lambda>p. (p, k)) (get_process_pid k))"
| "handle_syscall w SYSCALL_PPID k = ret_int (map_option (\<lambda>p. (p, k)) (get_process_ppid k))"
| "handle_syscall w (SYSCALL_MALLOC bytes) k = ret_addr (user_malloc bytes k)"
| "handle_syscall w (SYSCALL_FREE addr) k = ret_0 (user_free addr k)"
| "handle_syscall w (SYSCALL_OPENDIR name) k = ret_addr (open_dir name k)"
| "handle_syscall w (SYSCALL_READDIR stream buf) k =
     map_option (\<lambda>(r, buf, k). (Ret (of_int r) buf, k)) (read_dir stream buf k)"
| "handle_syscall w (SYSCALL_CLOSEDIR stream) k = ret_int (close_dir stream k)"
| "handle_syscall w (SYSCALL_GETCWD buf sz) k =
     map_option (\<lambda>(r, buf). (Ret (of_int r) buf, k)) (get_cwd buf (unat sz) k)"
| "handle_syscall w (SYSCALL_CHDIR name) k = ret_int (ch_dir name k)"
| "handle_syscall w (SYSCALL_SLEEP sec) k = map_option (\<lambda>(r, k). (Ret (ucast r) [], k)) (sleep (seconds w) sec k)"
| "handle_syscall w (SYSCALL_PS buf) k = map_option (\<lambda>buf. (Ret 0 buf, k)) (get_process_state (names w) buf k)"
| "handle_syscall w (SYSCALL_EXECVPE name argv) k =
     map_option (\<lambda>(r, k). (case r of None \<Rightarrow> Entered | Some v \<Rightarrow> Ret (of_int v) [], k)) (exec_vpe name argv k)"
| "handle_syscall w (SYSCALL_EXIT st) k = sys_exit st k"
| "handle_syscall w (SYSCALL_KILL p) k = ret_int (kill_kern p k)"
| "handle_syscall w (SYSCALL_WAITPID p) k = ret_int (wait_pid (others w) p k)"
| "handle_syscall w SYSCALL_WAIT k = ret_int (wait (others w) k)"
| "handle_syscall w (SYSCALL_UNLINK arg2 arg3 arg4 arg5 arg6) k = sys_other 5 arg2 arg3 arg4 arg5 arg6 k"

subsection \<open>The kernel heap\<close>

text \<open>Allocation changes the machine below the kernel's structures only.\<close>

lemma get_free_page_more: "get_free_page s = Some (p, s') \<Longrightarrow> vm.more s' = vm.more s"
  by (auto simp: get_free_page_def set_page_ref_count_def Let_def bind_Some_iff split: if_splits)

lemma next_table_more: "next_table t i fl s = Some (p, s') \<Longrightarrow> vm.more s' = vm.more s"
  by (auto simp: next_table_def kwrite_def Let_def bind_Some_iff get_free_page_more split: if_splits)

lemma update_page_tables_more: "update_page_tables va pa fl s = Some s' \<Longrightarrow> vm.more s' = vm.more s"
  by (auto simp: update_page_tables_def map_from_def bind_Some_iff next_table_more kwrite_def)

lemma kmalloc_page_more: "kmalloc_page i as = Some as' \<Longrightarrow> vm.more (snd as') = vm.more (snd as)"
  by (cases as) (auto simp: kmalloc_page_def Let_def bind_Some_iff get_free_page_more update_page_tables_more)

lemma foldM_keeps:
  assumes "foldM f xs s = Some s'" "\<And>x s s'. f x s = Some s' \<Longrightarrow> m s' = m s"
  shows "m s' = m s"
  using assms(1) by (induction xs arbitrary: s) (auto simp: bind_Some_iff dest: assms(2))

lemma kmalloc_more: "kmalloc b s = Some (p, s') \<Longrightarrow> vm.more s' = vm.more s"
  using foldM_keeps [where f = kmalloc_page and m = "\<lambda>as. vm.more (snd as)", OF _ kmalloc_page_more]
  by (fastforce simp: kmalloc_def Let_def bind_Some_iff)

lemma kernel_more:
  fixes k k' :: "'a kernel_scheme"
  assumes "vm.more k' = vm.more k"
  shows "con k' = con k" "tarfs k' = tarfs k" "processes k' = processes k" "threads k' = threads k" "mms k' = mms k"
    "vmas k' = vmas k" "fos k' = fos k" "dirs k' = dirs k" "current_process k' = current_process k" "tarfs_impl k' = tarfs_impl k"
  using assms by (cases k; cases k'; simp)+

text \<open>An object of one page: its address is that of a frame that was free, and \<open>kfree\<close> will keep it.\<close>

lemma kmalloc_one:
  fixes k :: "'a kernel_scheme"
  assumes inv: "vm_inv k" and b: "pages_of b = 1" and av: "13 \<le> length (free_frames k)"
  obtains p k' where "kmalloc b k = Some (kernel_virtual_base k + p, k')" "vm_inv k'" "vm.more k' = vm.more k"
    "kernel_virtual_base k' = kernel_virtual_base k" "p \<in> set (free_frames k)" "p \<notin> set (free_frames k') \<union> vm_tables k'"
    "walk_page_table (kernel_virtual_base k + p) k' = p" "page_refs k' p = Some 1"
    "\<exists>j \<le> 4. free_frames k' = drop j (free_frames k)"
    "\<forall>va. vpn va \<noteq> vpn (kernel_virtual_base k + p) \<longrightarrow> walk_page_table va k' = walk_page_table va k"
    "\<forall>q. page_aligned q \<longrightarrow> q \<notin> vm_tables k \<union> set (free_frames k) \<longrightarrow> untouched vm_tables page_data page_refs k k' q"
proof -
  have "0 < pages_of b" "4 * pages_of b + 10 \<le> length (free_frames k) + 1" using b av by simp_all
  from kmalloc_ok [OF inv this, unfolded b] obtain ps k' where
    r: "kmalloc b k = Some (kernel_virtual_base k + hd ps, k')" "vm_inv k'" "kernel_virtual_base k' = kernel_virtual_base k"
      "length ps = 1" "set ps \<subseteq> set (free_frames k)" "set ps \<inter> (set (free_frames k') \<union> vm_tables k') = {}"
      "\<forall>i < 1. pt_view k' (kernel_virtual_base k + hd ps + of_nat i * PAGE_SIZE) = ps ! i OR 3"
      "\<forall>va. (\<forall>i < 1. vpn va \<noteq> vpn (kernel_virtual_base k + hd ps + of_nat i * PAGE_SIZE)) \<longrightarrow> pt_view k' va = pt_view k va"
      "\<forall>p \<in> set ps. page_data k' p = (\<lambda>_. 0) \<and> page_refs k' p = Some 1" "\<exists>j \<le> 4 * 1. free_frames k' = drop j (free_frames k)"
      "\<forall>q. page_aligned q \<longrightarrow> q \<notin> vm_tables k \<union> set (free_frames k) \<longrightarrow> untouched vm_tables page_data page_refs k k' q"
    by blast
  obtain p where p: "ps = [p]" using r(4) by (cases ps) auto
  have a: "page_aligned p" using r(5) as.frames_page_aligned [OF inv, of p] by (simp add: p)
  show thesis
    by (rule that [of p k']) (use r a in \<open>auto simp: p kmalloc_more walk_view or_page untouched_def\<close>)
qed

text \<open>No address that \<open>kmalloc\<close> may still hand out is that of an object in use.\<close>

definition heap_ok :: "'a kernel_scheme \<Rightarrow> bool" where
  "heap_ok k \<longleftrightarrow> vm_inv k \<and> (\<forall>g \<in> set (free_frames k). kernel_virtual_base k + g \<noteq> 0 \<and>
     kernel_virtual_base k + g \<notin> dom (threads k) \<union> dom (mms k) \<union> dom (vmas k) \<union> dom (fos k) \<union> dom (dirs k))"

text \<open>An address that \<open>kfree\<close> leaves alone.\<close>

definition kept :: "u64 \<Rightarrow> 'a vm_scheme \<Rightarrow> bool" where
  "kept a s \<longleftrightarrow> (\<exists>n > 0. page_refs s (walk_page_table a s) = Some n) \<and>
     walk_page_table a s \<notin> vm_tables s \<union> set (free_frames s)"

lemma kfree_kept: "kept a s \<Longrightarrow> kfree a s = Some s"
  by (auto simp: kept_def intro: kfree_referenced)

lemma frame_vpn:
  assumes "vm_inv s" "p \<in> set (free_frames s)" "q \<in> set (free_frames s)" "vpn (b + p) = vpn (b + q)"
  shows "p = q"
proof -
  obtain m n where mn: "p = frame_of m" "q = frame_of n" "m \<in> set (free_pages s)" "n \<in> set (free_pages s)"
    using assms(2,3) by (auto simp: free_frames_def)
  then have "m < MAX_PAGES" "n < MAX_PAGES" using assms(1) by (auto simp: vm_inv_def phys_inv_def)
  then have "m < 2 ^ 36" "n < 2 ^ 36" by (simp_all add: MAX_PAGES_def)
  with vpn_page_inj [of b m n] assms(4) show ?thesis by (simp add: mn frame_of_def)
qed

text \<open>Allocating a small object keeps the heap well formed and what \<open>kfree\<close> keeps.\<close>

lemma kmalloc_heap:
  fixes k :: "'a kernel_scheme"
  assumes h: "heap_ok k" and b: "pages_of b = 1" and av: "13 \<le> length (free_frames k)"
  obtains a k' where "kmalloc b k = Some (a, k')" "heap_ok k'" "vm.more k' = vm.more k" "a \<noteq> 0"
    "a \<notin> dom (threads k) \<union> dom (mms k) \<union> dom (vmas k) \<union> dom (fos k) \<union> dom (dirs k)"
    "length (free_frames k) \<le> length (free_frames k') + 4" "kept a k'"
    "\<forall>g \<in> set (free_frames k'). a \<noteq> kernel_virtual_base k' + g \<and> vpn a \<noteq> vpn (kernel_virtual_base k' + g)"
proof -
  have inv: "vm_inv k" using h by (simp add: heap_ok_def)
  obtain p k' where r: "kmalloc b k = Some (kernel_virtual_base k + p, k')" "vm_inv k'" "vm.more k' = vm.more k"
    "kernel_virtual_base k' = kernel_virtual_base k" "p \<in> set (free_frames k)" "p \<notin> set (free_frames k') \<union> vm_tables k'"
    "walk_page_table (kernel_virtual_base k + p) k' = p" "page_refs k' p = Some 1"
    "\<exists>j \<le> 4. free_frames k' = drop j (free_frames k)"
    "\<forall>va. vpn va \<noteq> vpn (kernel_virtual_base k + p) \<longrightarrow> walk_page_table va k' = walk_page_table va k"
    by (rule kmalloc_one [OF inv b av])
  have s: "set (free_frames k') \<subseteq> set (free_frames k)" using r(9) by (auto dest: in_set_dropD)
  have n: "vpn (kernel_virtual_base k + p) \<noteq> vpn (kernel_virtual_base k + g)" if "g \<in> set (free_frames k')" for g
    using that frame_vpn [OF inv r(5), of g "kernel_virtual_base k"] s r(6) by auto
  show thesis
  proof (rule that [OF r(1)])
    show "heap_ok k'" using h r(2) s by (auto simp: heap_ok_def kernel_more [OF r(3)] r(4))
    show "kept (kernel_virtual_base k + p) k'" using r(6-8) by (auto simp: kept_def)
    show "kernel_virtual_base k + p \<noteq> 0" "kernel_virtual_base k + p \<notin>
        dom (threads k) \<union> dom (mms k) \<union> dom (vmas k) \<union> dom (fos k) \<union> dom (dirs k)"
      using h r(5) by (auto simp: heap_ok_def)
  qed (use r n in auto)
qed

lemma kmalloc_kept:
  fixes k :: "'a kernel_scheme"
  assumes inv: "vm_inv k" and b: "pages_of b = 1" and av: "13 \<le> length (free_frames k)" and a: "kept a k"
    "\<forall>g \<in> set (free_frames k). vpn a \<noteq> vpn (kernel_virtual_base k + g)"
    and k': "kmalloc b k = Some (c, k')"
  shows "kept a k'"
proof -
  obtain p where r: "kmalloc b k = Some (kernel_virtual_base k + p, k')" "p \<in> set (free_frames k)"
    "\<forall>va. vpn va \<noteq> vpn (kernel_virtual_base k + p) \<longrightarrow> walk_page_table va k' = walk_page_table va k"
    "\<forall>q. page_aligned q \<longrightarrow> q \<notin> vm_tables k \<union> set (free_frames k) \<longrightarrow> untouched vm_tables page_data page_refs k k' q"
    "\<exists>j \<le> 4. free_frames k' = drop j (free_frames k)"
    by (rule kmalloc_one [OF inv b av]) (use k' in auto)
  have "page_aligned (walk_page_table a k)" by (simp add: walk_view)
  then show ?thesis using a r by (auto simp: kept_def untouched_def dest: in_set_dropD)
qed

lemma vm_cong:
  fixes s t :: "'a vm_scheme"
  assumes "phys.truncate t = phys.truncate s" "cr3 t = cr3 s" "kernel_virtual_base t = kernel_virtual_base s"
  shows "free_frames t = free_frames s" "vm_inv t = vm_inv s" "kept a t = kept a s"
proof -
  have e: "mem t = mem s" "page_descriptor t = page_descriptor s" "free_list t = free_list s" "pages_used t = pages_used s"
    "max_pages_available t = max_pages_available s" "max_free_pages_available t = max_free_pages_available s"
    using assms(1) by (simp_all add: phys.defs)
  have p: "free_pages t = free_pages s" "phys_inv t = phys_inv s" using phys_cong [of t s] e by simp_all
  show f: "free_frames t = free_frames s" by (simp add: free_frames_def p)
  show "vm_inv t = vm_inv s" by (simp add: vm_inv_def p f e assms)
  show "kept a t = kept a s" by (simp add: kept_def walk_view pt_view_def f e assms get_page_ref_count_def Let_def)
qed

lemma vm_only [simp]:
  "free_frames (k\<lparr>con := c\<rparr>) = free_frames k" "free_frames (k\<lparr>fos := f\<rparr>) = free_frames k"
  "free_frames (k\<lparr>threads := th\<rparr>) = free_frames k" "free_frames (k\<lparr>tarfs_impl := i\<rparr>) = free_frames k"
  "vm_inv (k\<lparr>con := c\<rparr>) = vm_inv k" "vm_inv (k\<lparr>fos := f\<rparr>) = vm_inv k"
  "vm_inv (k\<lparr>threads := th\<rparr>) = vm_inv k" "vm_inv (k\<lparr>tarfs_impl := i\<rparr>) = vm_inv k"
  "kept a (k\<lparr>con := c\<rparr>) = kept a k" "kept a (k\<lparr>fos := f\<rparr>) = kept a k"
  "kept a (k\<lparr>threads := th\<rparr>) = kept a k" "kept a (k\<lparr>tarfs_impl := i\<rparr>) = kept a k"
  by (rule vm_cong; simp add: phys.defs)+

lemma get_tarfs_impl_heap:
  fixes k :: "'a kernel_scheme"
  assumes h: "heap_ok k" and av: "13 \<le> length (free_frames k)" and a: "kept a k"
    "\<forall>g \<in> set (free_frames k). vpn a \<noteq> vpn (kernel_virtual_base k + g)"
  obtains i k' where "get_tarfs_impl k = Some (i, k')" "heap_ok k'" "kept a k'"
    "con k' = con k" "tarfs k' = tarfs k" "threads k' = threads k" "fos k' = fos k" "current_process k' = current_process k"
    "length (free_frames k) \<le> length (free_frames k') + 4"
proof (cases "tarfs_impl k = 0")
  case True
  have b: "pages_of 16 = 1" by (simp add: pages_of_def)
  obtain i k' where r: "kmalloc 16 k = Some (i, k')" "heap_ok k'" "vm.more k' = vm.more k"
    "length (free_frames k) \<le> length (free_frames k') + 4"
    by (rule kmalloc_heap [OF h b av])
  have "vm_inv k" using h by (simp add: heap_ok_def)
  from kmalloc_kept [OF this b av a r(1)] have "kept a k'" .
  then show thesis using True r
    by (intro that [of i "k'\<lparr>tarfs_impl := i\<rparr>"]) (simp_all add: get_tarfs_impl_def kernel_more [OF r(3)] heap_ok_def)
next
  case False
  with h a show thesis by (intro that [of "tarfs_impl k" k]) (simp_all add: get_tarfs_impl_def)
qed

text \<open>Opening a file.\<close>

definition opened_file :: "u64 \<Rightarrow> nat \<Rightarrow> file_object" where
  "opened_file path_addr content = \<lparr>file_path = path_addr, fo_impl = Some TARFS_IMPL, fo_ref_count = 1,
     content_start = content, fo_offset = 0\<rparr>"

lemma sys_open_ok:
  fixes k :: "'a kernel_scheme"
  assumes h: "heap_ok k" and av: "17 \<le> length (free_frames k)"
    and t: "threads k (current_process k) = Some t"
    and src: "get_file_binary (tarfs k) name = Some (Some content)"
    and i: "find (\<lambda>i. fds t ! i = 0) [3..<NUM_FDS] = Some i"
  obtains fo k' where "sys_open path_addr name k = Some (Ret (of_nat i) [], k')" "heap_ok k'" "kept fo k'"
    "fo \<noteq> 0" "fos k fo = None" "con k' = con k" "tarfs k' = tarfs k" "current_process k' = current_process k"
    "threads k' = (threads k)(current_process k \<mapsto> t\<lparr>fds := (fds t)[i := fo]\<rparr>)"
    "fos k' = (fos k)(fo \<mapsto> opened_file path_addr content)"
proof -
  have b: "pages_of 40 = 1" by (simp add: pages_of_def)
  have "13 \<le> length (free_frames k)" using av by simp
  then obtain fo k1 where k1: "kmalloc 40 k = Some (fo, k1)" "heap_ok k1" "vm.more k1 = vm.more k" "fo \<noteq> 0"
    "fo \<notin> dom (threads k) \<union> dom (mms k) \<union> dom (vmas k) \<union> dom (fos k) \<union> dom (dirs k)"
    "length (free_frames k) \<le> length (free_frames k1) + 4" "kept fo k1"
    "\<forall>g \<in> set (free_frames k1). fo \<noteq> kernel_virtual_base k1 + g \<and> vpn fo \<noteq> vpn (kernel_virtual_base k1 + g)"
    by (rule kmalloc_heap [OF h b])
  define k2 where "k2 = k1\<lparr>fos := (fos k)(fo \<mapsto> \<lparr>file_path = path_addr, fo_impl = None, fo_ref_count = 1,
     content_start = 0, fo_offset = 0\<rparr>)\<rparr>"
  have k2: "heap_ok k2" "13 \<le> length (free_frames k2)" "kept fo k2"
    "\<forall>g \<in> set (free_frames k2). vpn fo \<noteq> vpn (kernel_virtual_base k2 + g)"
    using k1 av by (auto simp: k2_def heap_ok_def kernel_more [OF k1(3)])
  then obtain im k3 where k3: "get_tarfs_impl k2 = Some (im, k3)" "heap_ok k3" "kept fo k3"
    "con k3 = con k2" "tarfs k3 = tarfs k2" "threads k3 = threads k2" "fos k3 = fos k2" "current_process k3 = current_process k2"
    by (rule get_tarfs_impl_heap)
  define k4 where "k4 = k3\<lparr>fos := (fos k)(fo \<mapsto> opened_file path_addr content),
     threads := (threads k)(current_process k \<mapsto> t\<lparr>fds := (fds t)[i := fo]\<rparr>)\<rparr>"
  have "sys_open path_addr name k = Some (Ret (of_nat i) [], k4)"
    using k1(1) k3(1,4-8) t
    by (simp add: sys_open_def src i alloc_fo_def upd_fo_def upd_thread_def kernel_more [OF k1(3)] fo_zero_def k2_def
        k4_def opened_file_def)
  moreover have "heap_ok k4" using k3(2,4-8) t by (auto simp: heap_ok_def k4_def k2_def kernel_more [OF k1(3)])
  ultimately show thesis using k1(4,5) k3
    by (intro that [of k4 fo]) (auto simp: k4_def k2_def kernel_more [OF k1(3)])
qed

end
