(* ===== verification/User_Memory.thy ===== *)
theory User_Memory
  imports Syscalls
begin

text \<open>
  Memory for programs: \<open>user_malloc\<close> of \<^verbatim>\<open>sys/process.c\<close> on the areas of a process and its page tables. The loop
  that maps an area is the mapping of a list of pages of \<open>Paging\<close>, whose laws carry over.
\<close>

subsection \<open>Pages for programs\<close>

definition pages_for :: "u64 \<Rightarrow> nat" where "pages_for bytes = (unat bytes + 4095) div 4096"

lemma user_malloc_end_pages: "user_malloc_end a bytes = a + of_nat (pages_for bytes) * PAGE_SIZE"
proof -
  let ?n = "unat bytes"
  have m: "unat (bytes mod PAGE_SIZE) = ?n mod 4096" "unat (bytes div PAGE_SIZE) = ?n div 4096"
    by (simp_all add: PAGE_SIZE_def unat_mod unat_div)
  have b: "bytes = of_nat ?n" by simp
  show ?thesis
  proof (cases "?n mod 4096 = 0")
    case True
    then obtain q where q: "?n = q * 4096" by auto
    then have "pages_for bytes = q" by (simp add: pages_for_def)
    moreover have "bytes = of_nat q * PAGE_SIZE" using b unfolding q by (simp add: PAGE_SIZE_def)
    moreover have "bytes mod PAGE_SIZE = 0" using m(1) True by (simp add: unat_eq_0 [symmetric] del: unat_eq_0)
    ultimately show ?thesis by (simp add: user_malloc_end_def)
  next
    case False
    have "bytes div PAGE_SIZE = of_nat (?n div 4096)" using arg_cong [OF m(2), of "of_nat :: nat \<Rightarrow> u64"] by simp
    moreover have "pages_for bytes = ?n div 4096 + 1"
    proof -
      obtain r where r: "?n mod 4096 = Suc r" using False by (cases "?n mod 4096") simp_all
      define q where "q = ?n div 4096"
      have n: "?n = 4096 * q + Suc r" using mult_div_mod_eq [of 4096 ?n] by (simp only: r q_def)
      have "r < 4096" using r mod_less_divisor [of 4096 ?n] by linarith
      moreover have "?n + 4095 = r + 4096 * (q + 1)" unfolding n by simp
      ultimately show ?thesis unfolding pages_for_def q_def [symmetric] by (simp only: div_mult_self2)
    qed
    moreover have "bytes mod PAGE_SIZE \<noteq> 0" using m(1) False by (metis unat_0)
    ultimately show ?thesis by (simp add: user_malloc_end_def add.commute)
  qed
qed

lemma map_range_fresh:
  fixes k :: "'a kernel_scheme"
  shows "unat a + n * 4096 < 2 ^ 64 \<Longrightarrow>
   map_range a (a + of_nat n * PAGE_SIZE) k =
     map_option snd (map_fresh get_free_page update_page_tables PAGING_USER_R_W_FLAGS
       (map (\<lambda>i. a + of_nat i * PAGE_SIZE) [0..<n]) k)"
proof (induction n arbitrary: a k)
  case 0
  then show ?case by (subst map_range.simps) simp
next
  case (Suc n)
  have u: "unat (a + PAGE_SIZE) = unat a + 4096" using Suc.prems by (simp add: unat_word_ariths PAGE_SIZE_def)
  have "unat (of_nat (Suc n * 4096) :: u64) = Suc n * 4096" using Suc.prems by (simp only: unat_of_nat) simp
  then have "unat (a + of_nat (Suc n * 4096)) = unat a + Suc n * 4096" using Suc.prems by (simp only: unat_word_ariths) simp
  then have lt: "a < a + of_nat (Suc n) * PAGE_SIZE" by (simp add: word_less_nat_alt PAGE_SIZE_def algebra_simps)
  have vas: "map (\<lambda>i. a + of_nat i * PAGE_SIZE) [0..<Suc n] = a # map (\<lambda>i. (a + PAGE_SIZE) + of_nat i * PAGE_SIZE) [0..<n]"
    by (simp add: upt_conv_Cons map_Suc_upt [symmetric] algebra_simps del: upt_Suc)
  have "map_range (a + PAGE_SIZE) (a + of_nat (Suc n) * PAGE_SIZE) k' =
     map_option snd (map_fresh get_free_page update_page_tables PAGING_USER_R_W_FLAGS
       (map (\<lambda>i. (a + PAGE_SIZE) + of_nat i * PAGE_SIZE) [0..<n]) k')" for k' :: "'a kernel_scheme"
    using Suc.IH [of "a + PAGE_SIZE" k'] Suc.prems u by (simp add: algebra_simps)
  note ih = this
  show ?case
  proof (cases "get_free_page k")
    case None
    then show ?thesis unfolding vas using lt by (subst map_range.simps) simp
  next
    case (Some pk)
    obtain p k1 where pk: "pk = (p, k1)" by (cases pk)
    show ?thesis
    proof (cases "update_page_tables a p PAGING_USER_R_W_FLAGS k1")
      case None
      with Some pk lt show ?thesis unfolding vas by (subst map_range.simps) simp
    next
      case u2: (Some k2)
      let ?r = "map_fresh get_free_page update_page_tables PAGING_USER_R_W_FLAGS (map (\<lambda>i. (a + PAGE_SIZE) + of_nat i * PAGE_SIZE) [0..<n]) k2"
      have "map_range a (a + of_nat (Suc n) * PAGE_SIZE) k = map_option snd ?r"
        using Some pk u2 lt ih [of k2] by (subst map_range.simps) simp
      then show ?thesis unfolding vas using Some pk u2 by (cases ?r) auto
    qed
  qed
qed

lemma map_fresh_more:
  "map_fresh get_free_page update_page_tables fl vas s = Some (ps, s') \<Longrightarrow> vm.more s' = vm.more s"
  by (induction vas arbitrary: s ps) (auto simp: bind_Some_iff dest!: get_free_page_more update_page_tables_more)

lemma user_pages_ok:
  fixes k :: "'a kernel_scheme"
  assumes inv: "vm_inv k" and av: "4 * n + 9 \<le> length (free_frames k)" and fits: "unat a + n * 4096 < 2 ^ 47"
  obtains ps k' where "map_range a (a + of_nat n * PAGE_SIZE) k = Some k'" "vm_inv k'" "vm.more k' = vm.more k" "length ps = n" "distinct ps"
    "set ps \<subseteq> set (free_frames k)" "set ps \<inter> (set (free_frames k') \<union> vm_tables k') = {}"
    "\<forall>i < n. walk_page_table (a + of_nat i * PAGE_SIZE) k' = ps ! i \<and> get_flags (a + of_nat i * PAGE_SIZE) k' = 7"
    "\<forall>va. (\<forall>i < n. vpn va \<noteq> vpn (a + of_nat i * PAGE_SIZE)) \<longrightarrow> walk_page_table va k' = walk_page_table va k \<and> get_flags va k' = get_flags va k"
    "\<forall>p \<in> set ps. page_data k' p = (\<lambda>_. 0)"
proof -
  let ?vas = "map (\<lambda>i. a + of_nat i * PAGE_SIZE) [0..<n]"
  have "inj_on (\<lambda>i. vpn (a + of_nat i * PAGE_SIZE)) {..<n}"
    using fits by (intro inj_onI) (rule vpn_page_inj; simp)
  then have d: "distinct (map vpn ?vas)" by (simp add: distinct_map comp_def atLeast0LessThan)
  have "4 * length ?vas + 10 \<le> length (free_frames k) + 1" using av by simp
  moreover have "good_flags PAGING_USER_R_W_FLAGS" by (simp add: PAGING_USER_R_W_FLAGS_def good_flags_def)
  ultimately obtain ps k' where
    r: "map_fresh get_free_page update_page_tables PAGING_USER_R_W_FLAGS ?vas k = Some (ps, k')" "vm_inv k'" "length ps = length ?vas"
      "distinct ps" "set ps \<subseteq> set (free_frames k)" "set ps \<inter> (set (free_frames k') \<union> vm_tables k') = {}"
      "\<forall>i < length ?vas. pt_view k' (?vas ! i) = ps ! i OR ucast PAGING_USER_R_W_FLAGS"
      "\<forall>va. vpn va \<notin> vpn ` set ?vas \<longrightarrow> pt_view k' va = pt_view k va"
      "\<forall>p \<in> set ps. page_data k' p = (\<lambda>_. 0) \<and> page_refs k' p = Some 1"
    using as.map_fresh_ok [OF inv _ _ d, of PAGING_USER_R_W_FLAGS] by blast
  have n: "length ps = n" "\<forall>i < n. pt_view k' (a + of_nat i * PAGE_SIZE) = ps ! i OR 7"
    using r(3,7) by (simp_all add: PAGING_USER_R_W_FLAGS_def)
  have "page_of (ps ! i OR 7) = ps ! i \<and> (ps ! i OR 7) AND GET_FLAGS = 7" if "i < n" for i
  proof -
    have "ps ! i \<in> set (free_frames k)" using n(1) r(5) that nth_mem by (metis subsetD)
    then have "page_aligned (ps ! i)" by (rule as.frames_page_aligned [OF inv])
    then show ?thesis by (simp add: or_page or_flags)
  qed
  note pg = this
  have f: "unat a + n * 4096 < 2 ^ 64" using fits by simp
  show thesis
  proof (rule that [of k' ps])
    show "map_range a (a + of_nat n * PAGE_SIZE) k = Some k'" by (simp only: map_range_fresh [OF f] r(1)) simp
    show "vm.more k' = vm.more k" by (rule map_fresh_more [OF r(1)])
    show "\<forall>i < n. walk_page_table (a + of_nat i * PAGE_SIZE) k' = ps ! i \<and> get_flags (a + of_nat i * PAGE_SIZE) k' = 7"
      using n(2) pg by (simp add: walk_view flags_view)
    show "\<forall>va. (\<forall>i < n. vpn va \<noteq> vpn (a + of_nat i * PAGE_SIZE)) \<longrightarrow> walk_page_table va k' = walk_page_table va k \<and> get_flags va k' = get_flags va k"
    proof (intro allI impI)
      fix va assume "\<forall>i < n. vpn va \<noteq> vpn (a + of_nat i * PAGE_SIZE)"
      then have "vpn va \<notin> vpn ` set ?vas" by auto
      with r(8) show "walk_page_table va k' = walk_page_table va k \<and> get_flags va k' = get_flags va k" by (simp add: walk_view flags_view)
    qed
  qed (use r n in simp_all)
qed

lemma vm_areas [simp]:
  fixes k :: "'a kernel_scheme"
  shows "free_frames (k\<lparr>vmas := v\<rparr>) = free_frames k" "free_frames (k\<lparr>mms := m\<rparr>) = free_frames k"
    "vm_inv (k\<lparr>vmas := v\<rparr>) = vm_inv k" "vm_inv (k\<lparr>mms := m\<rparr>) = vm_inv k"
  by (rule vm_cong; simp add: phys.defs)+

lemma walk_areas [simp]:
  fixes k :: "'a kernel_scheme"
  shows "walk_page_table va (k\<lparr>vmas := v\<rparr>) = walk_page_table va k" "walk_page_table va (k\<lparr>mms := m\<rparr>) = walk_page_table va k"
  by (simp_all add: walk_view pt_view_def Let_def)


definition kernel_area :: kernel where
  "kernel_area = kernel_small\<lparr>mms := [0 \<mapsto> mm_zero\<lparr>vma_map_iter := 5\<rparr>], vmas := [5 \<mapsto> vma_zero\<lparr>vm_end := 0x600000\<rparr>]\<rparr>"

lemma kernel_area_heap: "heap_ok kernel_area"
proof -
  have small: "30 < unat x \<Longrightarrow> x \<notin> {0, 5, 10, 20, 30}" for x :: u64 by auto
  have "kernel_virtual_base kernel_small + frame_of i \<notin> {0, 5, 10, 20, 30}" if "i < 40" for i
  proof -
    have "unat (0xFFFFFFFF80000000 + frame_of i) = 0xFFFFFFFF80000000 + 4096 * i"
      using that by (simp add: frame_of_def PAGE_SIZE_def unat_word_ariths unat_of_nat)
    then have "30 < unat (0xFFFFFFFF80000000 + frame_of i)" by simp
    then show ?thesis unfolding kernel_small_vm(3) by (rule small)
  qed
  then have "\<forall>g \<in> set (free_frames kernel_area). kernel_virtual_base kernel_area + g \<notin> {0, 5, 10, 20, 30}"
    by (simp add: kernel_area_def)
  moreover have "dom (threads kernel_area) = {10, 20, 30}" "dom (mms kernel_area) = {0}" "dom (vmas kernel_area) = {5}"
    "dom (fos kernel_area) = {}" "dom (dirs kernel_area) = {}"
    by (auto simp: kernel_area_def kernel_small_def kernel.defs vm.defs)
  ultimately show ?thesis by (simp add: heap_ok_def) (simp add: kernel_area_def)
qed


end
