(* ===== verification/Libc.thy ===== *)
theory Libc
  imports Terminal
begin

text \<open>
  The user library: \<^verbatim>\<open>libc/string.c\<close>, \<^verbatim>\<open>libc/printf.c\<close>, \<^verbatim>\<open>libc/puts.c\<close> and
  \<^verbatim>\<open>libc/putchar.c\<close>. Buffers are as in \<open>C_String\<close>. The output functions take the system
  call \<open>write(1, buf, count)\<close> as an argument; \<open>stdout_write\<close> is that call on a process whose
  descriptor 1 is the terminal object.
\<close>

subsection \<open>Strings\<close>

fun libc_strcat :: "char list \<Rightarrow> char list \<Rightarrow> char list option" where
  "libc_strcat [] s2 = None"
| "libc_strcat (c # cs) s2 =
     (if c \<noteq> NUL then map_option (Cons c) (libc_strcat cs s2) else copy_loop (c # cs) s2)"

fun strcmp :: "char list \<Rightarrow> char list \<Rightarrow> int option" where
  "strcmp (c # cs) (d # ds) =
     (if c \<noteq> NUL \<and> d \<noteq> NUL \<and> c = d then strcmp cs ds else Some (schar c - schar d))"
| "strcmp _ _ = None"

definition itoa_cl :: "char list \<Rightarrow> int \<Rightarrow> char list option" where
  "itoa_cl buf val =
     (if val = 0 then Option.bind (buf_write buf 0 (CHR ''0'')) (\<lambda>buf. buf_write buf 1 NUL)
      else do {
        let i = int (n_digits (nat \<bar>val\<bar>)) + (if val < 0 then 1 else 0);
        buf \<leftarrow> buf_write buf i NUL;
        (i, buf) \<leftarrow> put_digits (nat \<bar>val\<bar>) (i - 1) buf;
        if val < 0 then buf_write buf i (CHR ''-'') else Some buf
      })"

definition libc_atoi :: "char list \<Rightarrow> int option" where
  "libc_atoi str = do {
     (sign, str) \<leftarrow> atoi_sign str;
     r \<leftarrow> atoi_loop 0 str;
     Some (case r of Inl _ \<Rightarrow> - 1 | Inr ans \<Rightarrow> sint (ans * sign))
   }"

primrec libc_pow_loop :: "int \<Rightarrow> nat \<Rightarrow> u64 \<Rightarrow> u64" where
  "libc_pow_loop a 0 ans = ans"
| "libc_pow_loop a (Suc b) ans = libc_pow_loop a b (ans * of_int a)"

fun libc_o_to_d_loop :: "nat \<Rightarrow> nat \<Rightarrow> u32 \<Rightarrow> u32" where
  "libc_o_to_d_loop n i ans =
     (if n > 0
      then libc_o_to_d_loop (n div 10) (i + 1) (ucast (ucast ans + of_nat (n mod 10) * libc_pow_loop 8 i 1))
      else ans)"

declare libc_o_to_d_loop.simps [simp del]

definition libc_o_to_d :: "int \<Rightarrow> int" where
  "libc_o_to_d n = sint (libc_o_to_d_loop (nat n) 0 0)"

fun libc_strlen_loop :: "char list \<Rightarrow> u64 \<Rightarrow> u64 option" where
  "libc_strlen_loop [] len = None"
| "libc_strlen_loop (c # cs) len = (if c \<noteq> NUL then libc_strlen_loop cs (len + 1) else Some len)"

definition libc_strlen :: "char list option \<Rightarrow> u64 option" where
  "libc_strlen s = (case s of None \<Rightarrow> Some 0 | Some cs \<Rightarrow> libc_strlen_loop cs 0)"

definition libc_strcpy :: "char list \<Rightarrow> char list \<Rightarrow> char list option" where
  "libc_strcpy dest src = copy_loop dest src"

subsection \<open>Output\<close>

text \<open>The \<open>write\<close> system call on descriptor 1: the count is truncated to the \<open>int\<close> parameter of
  \<open>terminal_write\<close>.\<close>

definition stdout_write :: "char list \<Rightarrow> u64 \<Rightarrow> 'a tty_scheme \<Rightarrow> 'a tty_scheme option" where
  "stdout_write buf count s = map_option snd (terminal_write buf (sint (ucast count :: u32)) s)"

definition putchar :: "(char list \<Rightarrow> u64 \<Rightarrow> 's \<Rightarrow> 's option) \<Rightarrow> u32 \<Rightarrow> 's \<Rightarrow> 's option" where
  "putchar write c s = write [char_of (unat c)] 1 s"

definition puts :: "(char list \<Rightarrow> u64 \<Rightarrow> 's \<Rightarrow> 's option) \<Rightarrow> char list \<Rightarrow> 's \<Rightarrow> 's option" where
  "puts write str s = Option.bind (libc_strlen (Some str)) (\<lambda>n. write str n s)"

definition libc_printChar :: "(char list \<Rightarrow> u64 \<Rightarrow> 's \<Rightarrow> 's option) \<Rightarrow> char \<Rightarrow> 's \<Rightarrow> 's option" where
  "libc_printChar write c s = putchar write (of_int (schar c)) s"

definition libc_printString :: "(char list \<Rightarrow> u64 \<Rightarrow> 's \<Rightarrow> 's option) \<Rightarrow> char list \<Rightarrow> 's \<Rightarrow> 's option" where
  "libc_printString write c s = puts write c s"

definition libc_printLong :: "(char list \<Rightarrow> u64 \<Rightarrow> 's \<Rightarrow> 's option) \<Rightarrow> u64 \<Rightarrow> 's \<Rightarrow> 's option" where
  "libc_printLong write x s = do {
     buf \<leftarrow> buf_write (replicate 66 NUL) 65 NUL;
     (i, buf) \<leftarrow> put_digits (unat (mod_u64 x)) 64 buf;
     (i, buf) \<leftarrow> (if x < 0 then map_option (Pair i) (buf_write buf i (CHR ''-'')) else Some (i + 1, buf));
     libc_printString write (drop (nat i) buf) s
   }"

definition libc_printHex :: "(char list \<Rightarrow> u64 \<Rightarrow> 's \<Rightarrow> 's option) \<Rightarrow> u64 \<Rightarrow> bool \<Rightarrow> 's \<Rightarrow> 's option" where
  "libc_printHex write x include_prefix s = do {
     buf \<leftarrow> buf_write (replicate 19 NUL) 18 NUL;
     (i, buf) \<leftarrow> put_hex (unat (mod_u64 x)) 17 buf;
     if \<not> include_prefix then libc_printString write (drop (nat (i + 1)) buf) s
     else do {
       buf \<leftarrow> buf_write buf i (CHR ''x'');
       buf \<leftarrow> buf_write buf (i - 1) (CHR ''0'');
       libc_printString write (drop (nat (i - 1)) buf) s
     }
   }"

definition libc_printSpecial ::
    "(char list \<Rightarrow> u64 \<Rightarrow> 's \<Rightarrow> 's option) \<Rightarrow> format_type \<Rightarrow> vararg list \<Rightarrow> 's \<Rightarrow> (vararg list \<times> 's) option" where
  "libc_printSpecial write ft args s =
     (case args of [] \<Rightarrow> None
      | a # args \<Rightarrow> map_option (Pair args)
          (case (ft, a) of
             (STRING, VStr c) \<Rightarrow> libc_printString write c s
           | (INT_FMT, VInt n) \<Rightarrow> libc_printLong write (scast n) s
           | (HEX, VLong x) \<Rightarrow> libc_printHex write x False s
           | (VOID, VLong x) \<Rightarrow> libc_printHex write x True s
           | (CHAR_FMT, VInt n) \<Rightarrow> libc_printChar write (char_of (unat n)) s
           | _ \<Rightarrow> None))"

definition printf :: "(char list \<Rightarrow> u64 \<Rightarrow> 's \<Rightarrow> 's option) \<Rightarrow> char list \<Rightarrow> vararg list \<Rightarrow> 's \<Rightarrow> 's option" where
  "printf write fmt args s = fmt_loop (libc_printSpecial write) (libc_printChar write) fmt args s"

subsection \<open>The string routines agree with the kernel's\<close>

lemma libc_strcat_eq: "libc_strcat s1 s2 = strcat s1 s2"
  by (induction s1 s2 rule: libc_strcat.induct) simp_all

lemma strcmp_eq: "strcmp s1 s2 = kstrcmp s1 s2"
  by (induction s1 s2 rule: strcmp.induct) simp_all

lemma libc_strlen_eq: "libc_strlen s = strlen s"
proof -
  have "libc_strlen_loop cs n = strlen_loop cs n" for cs n by (induction cs arbitrary: n) simp_all
  then show ?thesis by (cases s) (simp_all add: libc_strlen_def strlen_def)
qed

lemma libc_o_to_d_eq: "libc_o_to_d n = o_to_d n"
proof -
  have p: "libc_pow_loop a b ans = pow_loop a b ans" for a b ans by (induction b arbitrary: ans) simp_all
  have "libc_o_to_d_loop m i ans = o_to_d_loop m i ans" for m i ans
    by (induction m i ans rule: o_to_d_loop.induct)
      (subst libc_o_to_d_loop.simps, subst o_to_d_loop.simps, simp add: p)
  then show ?thesis by (simp add: libc_o_to_d_def o_to_d_def)
qed

subsection \<open>Writing to the terminal\<close>

lemma terminal_write_loop:
  "foldM (\<lambda>i s. Option.bind (buf_read (p @ t @ r) (int i))
      (\<lambda>c. kprintf (''%c'' @ [NUL]) [VInt (of_int (schar c))] s)) [length p..<length p + length t] s =
   Some (fold printChar t s)"
proof (induction t arbitrary: p s)
  case (Cons c t)
  have "[length p..<length p + length (c # t)] = length p # [length (p @ [c])..<length (p @ [c]) + length t]"
    by (simp add: upt_conv_Cons del: upt_Suc)
  then show ?case using Cons [of "p @ [c]" "printChar c s"] kprintf_char [of c s]
    by (simp add: buf_read_def nth_append)
qed simp

lemma terminal_write_text:
  assumes "t \<noteq> []"
  shows "terminal_write (t @ r) (int (length t)) s = Some (int (length t), fold printChar t s)"
  using terminal_write_loop [of "[]" t r s] assms by (simp add: terminal_write_def)

lemma stdout_write_text:
  assumes "length t < 2 ^ 31"
  shows "stdout_write (t @ r) (of_nat (length t)) s = Some (fold printChar t s)"
proof -
  have "sint (ucast (of_nat (length t) :: u64) :: u32) = int (length t)"
  proof -
    have "ucast (of_nat (length t) :: u64) = (of_nat (length t) :: u32)"
      by (rule bit_word_eqI) (auto simp: bit_ucast_iff bit_of_nat_iff)
    moreover have "sint (of_nat (length t) :: u32) = int (length t)"
      using assms by (simp add: signed_of_nat signed_take_bit_int_eq_self)
    ultimately show ?thesis by simp
  qed
  moreover have "terminal_write r 0 s = Some (0, s)" by (simp add: terminal_write_def)
  ultimately show ?thesis
    using terminal_write_text [of t r s] by (cases "t = []") (simp_all add: stdout_write_def)
qed

lemma puts_text:
  assumes "cstr str = Some t" "length t < 2 ^ 31"
  shows "puts stdout_write str s = Some (fold printChar t s)"
proof -
  obtain ys where "str = t @ NUL # ys" "NUL \<notin> set t" using cstr_SomeD [OF assms(1)] by blast
  then show ?thesis
    using stdout_write_text [OF assms(2), of "NUL # ys" s] strlen_loop_text [of t ys 0]
    by (simp add: puts_def libc_strlen_eq strlen_def)
qed

lemma puts_None: "cstr str = None \<Longrightarrow> puts write str s = None"
proof -
  have "strlen_loop str n = None" if "cstr str = None" for n
    using that by (induction str arbitrary: n) (auto split: if_splits)
  then show "cstr str = None \<Longrightarrow> puts write str s = None"
    by (simp add: puts_def libc_strlen_eq strlen_def)
qed

lemma libc_printChar_text: "libc_printChar stdout_write c s = Some (printChar c s)"
  using stdout_write_text [of "[c]" "[]" s] by (simp add: libc_printChar_def putchar_def char_of_schar)

lemma libc_printLong_text: "libc_printLong stdout_write x s = Some (fold printChar (dec (unat x)) s)"
proof -
  have "libc_printLong stdout_write x s = Option.bind (long_buf x) (\<lambda>b. puts stdout_write b s)"
    by (auto simp: libc_printLong_def long_buf_def libc_printString_def split: Option.bind_splits)
  moreover have "unat x < 10 ^ Suc 19" using unsigned_less [of x, where 'a = nat] by simp
  then have "length (dec (unat x)) \<le> Suc 19" by (rule length_dec_le)
  ultimately show ?thesis
    using puts_text [OF cstr_append [OF dec_no_nul [of "unat x"], of "[]"], of s] by (simp add: long_buf_text)
qed

lemma libc_printHex_text:
  "libc_printHex stdout_write x p s = Some (fold printChar ((if p then ''0x'' else []) @ hexs (unat x)) s)"
proof -
  let ?t = "(if p then ''0x'' else []) @ hexs (unat x)"
  have "libc_printHex stdout_write x p s = Option.bind (hex_buf x p) (\<lambda>b. puts stdout_write b s)"
    by (auto simp: libc_printHex_def hex_buf_def libc_printString_def split: Option.bind_splits)
  moreover have "unat x < 16 ^ Suc 15" using unsigned_less [of x, where 'a = nat] by simp
  then have "length (hexs (unat x)) \<le> Suc 15" by (rule length_hexs_le)
  moreover have "NUL \<notin> set ?t" using hexs_no_nul by simp
  ultimately show ?thesis
    using puts_text [OF cstr_append [OF \<open>NUL \<notin> set ?t\<close>, of "[]"], of s] by (simp add: hex_buf_text)
qed

text \<open>A string whose length fits an \<open>int\<close>.\<close>

definition short_arg :: "vararg \<Rightarrow> bool" where
  "short_arg a = (case a of VStr c \<Rightarrow> length c < 2 ^ 31 | _ \<Rightarrow> True)"

lemma libc_printString_text:
  assumes "length c < 2 ^ 31"
  shows "libc_printString stdout_write c s = map_option (\<lambda>t. fold printChar t s) (cstr c)"
proof (cases "cstr c")
  case None
  then show ?thesis by (simp add: libc_printString_def puts_None)
next
  case (Some t)
  moreover have "length t \<le> length c" using cstr_SomeD [OF Some] by auto
  ultimately show ?thesis using assms puts_text [OF Some, of s] by (simp add: libc_printString_def)
qed

interpretation out: text_sink "libc_printChar stdout_write" "libc_printSpecial stdout_write" printChar short_arg
proof
  show "libc_printSpecial stdout_write ft args s =
      map_option (\<lambda>(args', t). (args', fold printChar t s)) (special_text ft args)"
    if "list_all short_arg args" for ft args and s :: "'a tty_scheme"
    using that
    by (auto simp: libc_printSpecial_def special_text_def libc_printString_text libc_printLong_text
        libc_printHex_text libc_printChar_text short_arg_def option.map_comp o_def
        split: list.splits format_type.splits vararg.splits)
qed (rule libc_printChar_text)

subsection \<open>Properties\<close>

text \<open>C15. A program's \<open>printf\<close> through the \<open>write\<close> system call on the terminal does to the screen
  exactly what the kernel's \<open>kprintf\<close> does, for every format string and all arguments whose strings are
  shorter than 2 GiB.\<close>

theorem printf_is_kprintf:
  assumes "list_all short_arg args"
  shows "printf stdout_write fmt args s = kprintf fmt args s"
  using out.fmt_loop_text [OF assms, of fmt s] by (simp add: printf_def kprintf_text)

theorem printf_is_kprintf_witness:
  "printf stdout_write (''%s: %d'' @ [NUL]) [VStr (''pid'' @ [NUL]), VInt 3] kbd_boot =
     kprintf (''%s: %d'' @ [NUL]) [VStr (''pid'' @ [NUL]), VInt 3] kbd_boot"
  using printf_is_kprintf [of "[VStr (''pid'' @ [NUL]), VInt 3]" "''%s: %d'' @ [NUL]" kbd_boot]
  by (simp add: short_arg_def)


end
