(* ===== verification/User_Lib.thy ===== *)
theory User_Lib
  imports Syscalls Libc
begin

text \<open>
  The system call stubs of the user library, \<^verbatim>\<open>libc/syscall_wrapper.c\<close> and the files around it.
  The trap into the kernel is the argument \<open>sys\<close>, so that programs can be studied over any kernel;
  \<open>handle_syscall\<close> is the one of this system. A call that does not come back has no result.
\<close>

type_synonym 's trap = "syscall \<Rightarrow> 's \<Rightarrow> (sys_result \<times> 's) option"

definition syscall :: "'s trap \<Rightarrow> syscall \<Rightarrow> 's \<Rightarrow> (u64 \<times> char list \<times> 's) option" where
  "syscall sys c s = Option.bind (sys c s) (\<lambda>(r, s). case r of Ret v buf \<Rightarrow> Some (v, buf, s) | Entered \<Rightarrow> None)"

definition syscall_val :: "'s trap \<Rightarrow> syscall \<Rightarrow> 's \<Rightarrow> (u64 \<times> 's) option" where
  "syscall_val sys c s = map_option (\<lambda>(v, buf, s). (v, s)) (syscall sys c s)"

text \<open>Conversions of the returned register to \<open>int\<close> and to \<open>ssize_t\<close>.\<close>

definition as_int :: "u64 \<Rightarrow> int" where "as_int v = sint (ucast v :: u32)"

definition write_fd :: "'s trap \<Rightarrow> int \<Rightarrow> char list \<Rightarrow> u64 \<Rightarrow> 's \<Rightarrow> (int \<times> 's) option" where
  "write_fd sys fd buf count s = map_option (\<lambda>(v, s). (sint v, s)) (syscall_val sys (SYSCALL_WRITE (of_int fd) buf count) s)"

definition yield :: "'s trap \<Rightarrow> 's \<Rightarrow> (int \<times> 's) option" where
  "yield sys s = map_option (\<lambda>(v, s). (as_int v, s)) (syscall_val sys SYSCALL_YIELD s)"

definition read_fd :: "'s trap \<Rightarrow> int \<Rightarrow> char list \<Rightarrow> u64 \<Rightarrow> 's \<Rightarrow> (int \<times> char list \<times> 's) option" where
  "read_fd sys fd buf count s = do {
     s \<leftarrow> (if fd = 0 then map_option snd (yield sys s) else Some s);
     (v, b, s) \<leftarrow> syscall sys (SYSCALL_READ (of_int fd) buf count) s;
     Some (sint v, if v = - 1 then buf else b, s)
   }"

definition gets :: "'s trap \<Rightarrow> char list \<Rightarrow> 's \<Rightarrow> (char list \<times> 's) option" where
  "gets sys buf s = map_option snd (read_fd sys 0 buf 256 s)"

text \<open>The address of the path is passed on to the file object, where nothing reads it.\<close>

definition open_path :: "'s trap \<Rightarrow> char list \<Rightarrow> 's \<Rightarrow> (int \<times> 's) option" where
  "open_path sys pathname s = map_option (\<lambda>(v, s). (as_int v, s)) (syscall_val sys (SYSCALL_OPEN 0 pathname) s)"

definition close_fd :: "'s trap \<Rightarrow> int \<Rightarrow> 's \<Rightarrow> (int \<times> 's) option" where
  "close_fd sys fd s = map_option (\<lambda>(v, s). (as_int v, s)) (syscall_val sys (SYSCALL_CLOSE (of_int fd)) s)"

definition chdir :: "'s trap \<Rightarrow> char list \<Rightarrow> 's \<Rightarrow> (int \<times> 's) option" where
  "chdir sys pathname s = map_option (\<lambda>(v, s). (as_int v, s)) (syscall_val sys (SYSCALL_CHDIR pathname) s)"

definition getcwd :: "'s trap \<Rightarrow> char list \<Rightarrow> u64 \<Rightarrow> 's \<Rightarrow> (char list \<times> 's) option" where
  "getcwd sys buf sz s = map_option snd (syscall sys (SYSCALL_GETCWD buf sz) s)"

definition user_fork :: "'s trap \<Rightarrow> 's \<Rightarrow> (int \<times> 's) option" where
  "user_fork sys s = map_option (\<lambda>(v, s). (as_int v, s)) (syscall_val sys SYSCALL_FORK s)"

definition execvpe :: "'s trap \<Rightarrow> char list \<Rightarrow> char list list option \<Rightarrow> 's \<Rightarrow> (int \<times> 's) option" where
  "execvpe sys file argv s = map_option (\<lambda>(v, s). (as_int v, s)) (syscall_val sys (SYSCALL_EXECVPE file argv) s)"

definition waitpid :: "'s trap \<Rightarrow> int \<Rightarrow> 's \<Rightarrow> (int \<times> 's) option" where
  "waitpid sys p s = map_option (\<lambda>(v, s). (as_int v, s)) (syscall_val sys (SYSCALL_WAITPID p) s)"

definition wait_any :: "'s trap \<Rightarrow> 's \<Rightarrow> (int \<times> 's) option" where
  "wait_any sys s = map_option (\<lambda>(v, s). (as_int v, s)) (syscall_val sys SYSCALL_WAIT s)"

definition getpid :: "'s trap \<Rightarrow> 's \<Rightarrow> (int \<times> 's) option" where
  "getpid sys s = map_option (\<lambda>(v, s). (as_int v, s)) (syscall_val sys SYSCALL_PID s)"

definition getppid :: "'s trap \<Rightarrow> 's \<Rightarrow> (int \<times> 's) option" where
  "getppid sys s = map_option (\<lambda>(v, s). (as_int v, s)) (syscall_val sys SYSCALL_PPID s)"

definition malloc :: "'s trap \<Rightarrow> u64 \<Rightarrow> 's \<Rightarrow> (u64 \<times> 's) option" where
  "malloc sys sz s = syscall_val sys (SYSCALL_MALLOC sz) s"

definition free :: "'s trap \<Rightarrow> u64 \<Rightarrow> 's \<Rightarrow> 's option" where
  "free sys ptr s = map_option snd (syscall_val sys (SYSCALL_FREE ptr) s)"

definition kill :: "'s trap \<Rightarrow> int \<Rightarrow> 's \<Rightarrow> (int \<times> 's) option" where
  "kill sys p s = map_option (\<lambda>(v, s). (as_int v, s)) (syscall_val sys (SYSCALL_KILL p) s)"

definition user_sleep :: "'s trap \<Rightarrow> u32 \<Rightarrow> 's \<Rightarrow> (u32 \<times> 's) option" where
  "user_sleep sys sec s = map_option (\<lambda>(v, s). (ucast v, s)) (syscall_val sys (SYSCALL_SLEEP sec) s)"

definition user_exit :: "'s trap \<Rightarrow> int \<Rightarrow> 's \<Rightarrow> 's option" where
  "user_exit sys st s = map_option snd (syscall_val sys (SYSCALL_EXIT st) s)"

definition user_ps :: "'s trap \<Rightarrow> char list \<Rightarrow> 's \<Rightarrow> (char list \<times> 's) option" where
  "user_ps sys buf s = map_option snd (syscall sys (SYSCALL_PS buf) s)"

text \<open>\<open>_start\<close> runs \<open>main\<close> and ends the process with its result.\<close>

definition start_program :: "'s trap \<Rightarrow> ('s \<Rightarrow> (int \<times> 's) option) \<Rightarrow> 's \<Rightarrow> 's option" where
  "start_program sys main_fn s = Option.bind (main_fn s) (\<lambda>(exit_code, s). user_exit sys exit_code s)"

text \<open>A \<open>DIR\<close> is the stream number; \<open>NULL\<close> is \<^const>\<open>None\<close>.\<close>

definition opendir :: "'s trap \<Rightarrow> char list \<Rightarrow> 's \<Rightarrow> (u64 option \<times> 's) option" where
  "opendir sys name s = map_option (\<lambda>(v, s). (if v = 0 then None else Some v, s)) (syscall_val sys (SYSCALL_OPENDIR name) s)"

definition readdir :: "'s trap \<Rightarrow> u64 \<Rightarrow> 's \<Rightarrow> (char list option \<times> 's) option" where
  "readdir sys dirp s = do {
     (v, d_name, s) \<leftarrow> syscall sys (SYSCALL_READDIR dirp (replicate 256 NUL)) s;
     Some (if v = - 1 then None else Some d_name, s)
   }"

definition closedir :: "'s trap \<Rightarrow> u64 \<Rightarrow> 's \<Rightarrow> (int \<times> 's) option" where
  "closedir sys dirp s = map_option (\<lambda>(v, s). (as_int v, s)) (syscall_val sys (SYSCALL_CLOSEDIR dirp) s)"

text \<open>Writing a string to the standard output, as the programs do: \<open>write(1, s, strlen(s))\<close>.\<close>

definition write_str :: "'s trap \<Rightarrow> char list \<Rightarrow> 's \<Rightarrow> 's option" where
  "write_str sys str s = do {
     n \<leftarrow> libc_strlen (Some str);
     map_option snd (write_fd sys 1 str n s)
   }"

text \<open>A string literal is followed by its terminator.\<close>

abbreviation lit :: "char list \<Rightarrow> char list" where "lit t \<equiv> t @ [NUL]"

subsection \<open>Programs over a terminal and files\<close>

lemma ucast_of_nat: "ucast (of_nat n :: u64) = (of_nat n :: u32)"
  by (rule bit_word_eqI) (auto simp: bit_ucast_iff bit_of_nat_iff)

lemma sint_of_nat_small: "n < 2 ^ 31 \<Longrightarrow> sint (of_nat n :: u32) = int n"
  by (simp add: signed_of_nat signed_take_bit_int_eq_self)

lemma as_int_small: "0 \<le> n \<Longrightarrow> n < 2 ^ 31 \<Longrightarrow> as_int (of_int n) = n"
  using ucast_of_nat [of "nat n"] sint_of_nat_small [of "nat n"] by (simp add: as_int_def nat_less_iff)

text \<open>What a program may expect of the kernel: characters written to descriptor 1 appear on the
  screen one after the other.\<close>

locale stdout_calls =
  fixes sys :: "'s trap" and ready :: "'s \<Rightarrow> bool" and screen :: "'s \<Rightarrow> 'o" and emit :: "char \<Rightarrow> 'o \<Rightarrow> 'o"
  assumes write_out: "ready s \<Longrightarrow> length t < 2 ^ 31 \<Longrightarrow>
    \<exists>s'. sys (SYSCALL_WRITE 1 (t @ r) (of_nat (length t))) s = Some (Ret (of_nat (length t)) (t @ r), s') \<and>
      ready s' \<and> screen s' = fold emit t (screen s)"
begin

lemma write_fd_out:
  assumes "ready s" "length t < 2 ^ 31"
  shows "\<exists>n s'. write_fd sys 1 (t @ r) (of_nat (length t)) s = Some (n, s') \<and> ready s' \<and> screen s' = fold emit t (screen s) \<and>
     sys (SYSCALL_WRITE 1 (t @ r) (of_nat (length t))) s = Some (Ret (of_nat (length t)) (t @ r), s')"
proof -
  from write_out [OF assms, of r] obtain s' where
    w: "sys (SYSCALL_WRITE 1 (t @ r) (of_nat (length t))) s = Some (Ret (of_nat (length t)) (t @ r), s')"
      "ready s'" "screen s' = fold emit t (screen s)" by blast
  then have "write_fd sys 1 (t @ r) (of_nat (length t)) s = Some (sint (of_nat (length t) :: u64), s')"
    by (simp add: write_fd_def syscall_val_def syscall_def)
  with w show ?thesis by blast
qed

lemma write_str_out:
  assumes "ready s" "cstr str = Some t" "length t < 2 ^ 31"
  shows "\<exists>s'. write_str sys str s = Some s' \<and> ready s' \<and> screen s' = fold emit t (screen s)"
proof -
  obtain ys where y: "str = t @ NUL # ys" "NUL \<notin> set t" using cstr_SomeD [OF assms(2)] by blast
  have "libc_strlen (Some str) = Some (of_nat (length t))"
    using strlen_loop_text [of t ys 0] y by (simp add: libc_strlen_eq strlen_def)
  with write_fd_out [OF assms(1,3), of "NUL # ys"] show ?thesis by (auto simp: write_str_def y(1))
qed

lemma newline_out:
  assumes "ready s"
  shows "\<exists>n s'. write_fd sys 1 [CHR 0x0A, NUL] 1 s = Some (n, s') \<and> ready s' \<and> screen s' = emit (CHR 0x0A) (screen s)"
  using write_fd_out [OF assms, of "[CHR 0x0A]" "[NUL]"] by auto

end

locale file_calls = stdout_calls +
  fixes stored :: "char list \<Rightarrow> char list \<Rightarrow> 's \<Rightarrow> bool" and reads :: "int \<Rightarrow> char list \<Rightarrow> 's \<Rightarrow> bool"
  assumes reads_fd: "reads fd t s \<Longrightarrow> 0 < fd \<and> fd < 2 ^ 31"
    and open_file: "ready s \<Longrightarrow> stored name t s \<Longrightarrow>
      \<exists>fd s'. sys (SYSCALL_OPEN 0 name) s = Some (Ret (of_int fd) [], s') \<and> ready s' \<and> reads fd t s' \<and> screen s' = screen s"
    and read_file: "ready s \<Longrightarrow> reads fd t s \<Longrightarrow> n \<le> length buf \<Longrightarrow> n < 2 ^ 31 \<Longrightarrow>
      \<exists>s'. sys (SYSCALL_READ (of_int fd) buf (of_nat n)) s =
          Some (Ret (of_nat (length (take n t))) (take n t @ drop (length (take n t)) buf), s') \<and>
        ready s' \<and> reads fd (drop n t) s' \<and> screen s' = screen s"
    and write_keeps: "ready s \<Longrightarrow> reads fd t s \<Longrightarrow> sys (SYSCALL_WRITE 1 b m) s = Some (r, s') \<Longrightarrow> reads fd t s'"
    and close_file: "ready s \<Longrightarrow> reads fd t s \<Longrightarrow>
      \<exists>s'. sys (SYSCALL_CLOSE (of_int fd)) s = Some (Ret 0 [], s') \<and> ready s' \<and> screen s' = screen s"
begin

lemma read_fd_file:
  assumes "ready s" "reads fd t s" "n \<le> length buf" "n < 2 ^ 31"
  shows "\<exists>s'. read_fd sys fd buf (of_nat n) s = Some (int (length (take n t)), take n t @ drop (length (take n t)) buf, s') \<and>
     ready s' \<and> reads fd (drop n t) s' \<and> screen s' = screen s"
proof -
  let ?m = "length (take n t)"
  have m: "?m < 2 ^ 31" using assms(4) by simp
  then have "sint (of_nat ?m :: u64) = int ?m" by (simp add: signed_of_nat signed_take_bit_int_eq_self)
  moreover from this have "of_nat ?m \<noteq> (- 1 :: u64)" by (metis of_nat_0_le_iff signed_minus_1 not_less_eq_eq zero_le_numeral neg_0_le_iff_le not_one_le_zero)
  ultimately show ?thesis
    using read_file [OF assms] reads_fd [OF assms(2)] by (auto simp: read_fd_def syscall_def)
qed

end

subsection \<open>The kernel keeps the contract\<close>

text \<open>The running process has the terminal at descriptor 1.\<close>

definition has_stdout :: "'a kernel_scheme \<Rightarrow> bool" where
  "has_stdout k \<longleftrightarrow> (case threads k (current_process k) of None \<Rightarrow> False
     | Some t \<Rightarrow> length (fds t) = NUM_FDS \<and> fds t ! 1 \<noteq> 0 \<and>
         map_option fo_impl (fos k (fds t ! 1)) = Some (Some TERMINAL_FS))"

text \<open>The text of a file: the bytes up to the first NUL or \<open>0xFF\<close> byte, which must be there.\<close>

definition file_text :: "char list \<Rightarrow> char list \<Rightarrow> bool" where
  "file_text cs t \<longleftrightarrow> takeWhile (\<lambda>c. c \<noteq> NUL \<and> schar c \<noteq> - 1) cs = t \<and> length t < length cs \<and> length t < 2 ^ 31"

definition holds_file :: "char list \<Rightarrow> char list \<Rightarrow> 'a kernel_scheme \<Rightarrow> bool" where
  "holds_file name t k \<longleftrightarrow> heap_ok k \<and> 17 \<le> length (free_frames k) \<and>
     (\<exists>content. get_file_binary (tarfs k) name = Some (Some content) \<and> file_text (drop content (tarfs k)) t) \<and>
     (case threads k (current_process k) of None \<Rightarrow> False | Some th \<Rightarrow> \<exists>i. 3 \<le> i \<and> i < NUM_FDS \<and> fds th ! i = 0)"

definition reads_file :: "int \<Rightarrow> char list \<Rightarrow> 'a kernel_scheme \<Rightarrow> bool" where
  "reads_file fd t k \<longleftrightarrow> 3 \<le> fd \<and> fd < int NUM_FDS \<and>
     (case threads k (current_process k) of None \<Rightarrow> False
      | Some th \<Rightarrow> fds th ! nat fd \<noteq> 0 \<and> kept (fds th ! nat fd) k \<and>
          (case fos k (fds th ! nat fd) of None \<Rightarrow> False
           | Some f \<Rightarrow> fo_impl f = Some TARFS_IMPL \<and> fo_ref_count f = 1 \<and> unat (fo_offset f) + length t < 2 ^ 31 \<and>
               file_text (drop (content_start f + unat (fo_offset f)) (tarfs k)) t))"

lemma takeWhile_take_eq: "takeWhile P (take n xs) = take n (takeWhile P xs)"
  by (induction xs arbitrary: n) (auto simp: take_Cons split: nat.splits)

lemma file_text_drop:
  assumes "file_text cs t"
  shows "file_text (drop (length (take n t)) cs) (drop n t)"
proof -
  let ?P = "\<lambda>c. c \<noteq> NUL \<and> schar c \<noteq> - 1"
  have e: "t = takeWhile ?P cs" "length t < length cs" "length t < 2 ^ 31" using assms by (simp_all add: file_text_def)
  have d: "drop n (takeWhile ?P cs) = takeWhile ?P (drop (min (length (takeWhile ?P cs)) n) cs)" for cs
  proof (induction n arbitrary: cs)
    case (Suc n)
    then show ?case by (cases cs) auto
  qed simp
  have "takeWhile ?P (drop (length (take n t)) cs) = drop n t" using d [of cs] by (simp add: e(1))
  then show ?thesis using e(2,3) by (simp add: file_text_def) linarith
qed

lemma fd_word:
  assumes "n < 16"
  shows "\<not> (of_nat NUM_FDS \<le> (of_nat n :: u64))" "unat (of_nat n :: u64) = n" "m < 16 \<Longrightarrow> of_nat n = (of_nat m :: u64) \<longleftrightarrow> n = m"
proof -
  have u: "unat (of_nat n :: u64) = n" if "n < 16" for n using that by (simp add: unat_of_nat)
  show "unat (of_nat n :: u64) = n" by (rule u [OF assms])
  show "\<not> (of_nat NUM_FDS \<le> (of_nat n :: u64))" using assms u [OF assms] by (simp add: NUM_FDS_def word_le_nat_alt)
  show "of_nat n = (of_nat m :: u64) \<longleftrightarrow> n = m" if "m < 16" using u [OF assms] u [OF that] by metis
qed

lemma has_stdoutE:
  assumes "has_stdout k"
  obtains t f where "threads k (current_process k) = Some t" "length (fds t) = 16" "fds t ! 1 \<noteq> 0"
    "fos k (fds t ! 1) = Some f" "fo_impl f = Some TERMINAL_FS"
  using assms by (auto simp: has_stdout_def NUM_FDS_def split: option.splits)

lemma reads_fileE:
  assumes "reads_file fd t k"
  obtains d th f where "fd = int d" "3 \<le> d" "d < 16" "threads k (current_process k) = Some th" "fds th ! d \<noteq> 0"
    "kept (fds th ! d) k" "fos k (fds th ! d) = Some f" "fo_impl f = Some TARFS_IMPL" "fo_ref_count f = 1"
    "unat (fo_offset f) + length t < 2 ^ 31" "file_text (drop (content_start f + unat (fo_offset f)) (tarfs k)) t"
proof -
  obtain th f where r: "3 \<le> fd" "fd < 16" "threads k (current_process k) = Some th" "fds th ! nat fd \<noteq> 0"
    "kept (fds th ! nat fd) k" "fos k (fds th ! nat fd) = Some f" "fo_impl f = Some TARFS_IMPL" "fo_ref_count f = 1"
    "unat (fo_offset f) + length t < 2 ^ 31" "file_text (drop (content_start f + unat (fo_offset f)) (tarfs k)) t"
    using assms by (auto simp: reads_file_def NUM_FDS_def split: option.splits)
  show thesis by (rule that [of "nat fd" th f]) (use r in auto)
qed

lemma sys_write_stdout:
  assumes "has_stdout k"
  shows "sys_write 1 b m k = map_option (\<lambda>(r, c). (Ret (of_int r) b, k\<lparr>con := c\<rparr>)) (terminal_write b (sint (ucast m :: u32)) (con k))"
proof -
  obtain t f where t: "threads k (current_process k) = Some t" "fds t ! 1 \<noteq> 0" "fos k (fds t ! 1) = Some f"
    "fo_impl f = Some TERMINAL_FS" using assms by (rule has_stdoutE)
  show ?thesis using t fd_word(1) [of 1]
    by (cases "terminal_write b (sint (ucast m :: u32)) (con k)") (auto simp: sys_write_def)
qed

lemma sys_write_out:
  assumes "has_stdout k" "length t < 2 ^ 31"
  shows "sys_write 1 (t @ r) (of_nat (length t)) k = Some (Ret (of_nat (length t)) (t @ r), k\<lparr>con := fold printChar t (con k)\<rparr>)"
proof -
  have "terminal_write (t @ r) (int (length t)) (con k) = Some (int (length t), fold printChar t (con k))"
    using terminal_write_text [of t r "con k"] by (cases "t = []") (simp_all add: terminal_write_def)
  with assms show ?thesis by (simp add: sys_write_stdout ucast_of_nat sint_of_nat_small)
qed

lemma sys_write_keeps:
  assumes "has_stdout k" "reads_file fd t k" "sys_write 1 b m k = Some (r, k')"
  shows "reads_file fd t k'"
  using assms(2,3) unfolding sys_write_stdout [OF assms(1)] by (auto simp: reads_file_def split: option.splits)

lemma sys_read_file:
  assumes out: "has_stdout k" and rd: "reads_file fd t k" and n: "n \<le> length buf" "n < 2 ^ 31"
  shows "\<exists>k'. sys_read ev (of_int fd) buf (of_nat n) k =
      Some (Ret (of_nat (length (take n t))) (take n t @ drop (length (take n t)) buf), k') \<and>
    has_stdout k' \<and> reads_file fd (drop n t) k' \<and> con k' = con k"
proof -
  let ?m = "length (take n t)"
  obtain d th f where r: "fd = int d" "3 \<le> d" "d < 16" "threads k (current_process k) = Some th" "fds th ! d \<noteq> 0"
    "kept (fds th ! d) k" "fos k (fds th ! d) = Some f" "fo_impl f = Some TARFS_IMPL" "fo_ref_count f = 1"
    "unat (fo_offset f) + length t < 2 ^ 31" "file_text (drop (content_start f + unat (fo_offset f)) (tarfs k)) t"
    by (rule reads_fileE [OF rd])
  let ?cs = "drop (content_start f + unat (fo_offset f)) (tarfs k)"
  let ?P = "\<lambda>c. c \<noteq> NUL \<and> schar c \<noteq> - 1"
  have "takeWhile ?P (take n ?cs) = take n t" using r(11) by (auto simp: file_text_def takeWhile_take_eq)
  moreover have "length (take n t) = n \<or> length (take n t) < length ?cs" using r(11) by (auto simp: file_text_def)
  ultimately have tr: "tarfs_read (tarfs k) buf (int n) (content_start f) (unat (fo_offset f)) = Some (int ?m, take n t @ drop ?m buf)"
    using tarfs_read_loop_text [of 0 n buf "take n t" ?cs] n(1) by (simp add: tarfs_read_def)
  define k' where "k' = (if 0 < ?m then k\<lparr>fos := (fos k)(fds th ! d \<mapsto> f\<lparr>fo_offset := fo_offset f + of_nat ?m\<rparr>)\<rparr> else k)"
  have "sys_read ev (of_int fd) buf (of_nat n) k = Some (Ret (of_nat ?m) (take n t @ drop ?m buf), k')"
    using r(2-9) tr n fd_word [of d] fd_word(3) [of d 1] fd_word(3) [of d 2]
    by (simp add: sys_read_def r(1) read_object_def ucast_of_nat sint_of_nat_small k'_def upd_fo_def)
  moreover have "unat (fo_offset f + of_nat ?m) = unat (fo_offset f) + ?m"
    using r(10) by (simp add: unat_word_ariths unat_of_nat)
  then have "reads_file fd (drop n t) k'" using r file_text_drop [OF r(11), of n]
    by (cases "0 < ?m") (auto simp: k'_def reads_file_def NUM_FDS_def ac_simps)
  moreover have "has_stdout k'" using out r(4,7,8) by (auto simp: has_stdout_def k'_def split: option.splits)
  moreover have "con k' = con k" by (simp add: k'_def)
  ultimately show ?thesis by blast
qed

lemma sys_open_file:
  assumes out: "has_stdout k" and st: "holds_file name t k"
  shows "\<exists>fd k'. sys_open 0 name k = Some (Ret (of_int fd) [], k') \<and> has_stdout k' \<and> reads_file fd t k' \<and> con k' = con k"
proof -
  obtain th content where h: "heap_ok k" "17 \<le> length (free_frames k)" "threads k (current_process k) = Some th"
    "get_file_binary (tarfs k) name = Some (Some content)" "file_text (drop content (tarfs k)) t"
    "\<exists>i. 3 \<le> i \<and> i < NUM_FDS \<and> fds th ! i = 0"
    using st by (auto simp: holds_file_def split: option.splits)
  obtain i where i: "find (\<lambda>i. fds th ! i = 0) [3..<NUM_FDS] = Some i" "3 \<le> i" "i < NUM_FDS"
    using h(6) by (cases "find (\<lambda>i. fds th ! i = 0) [3..<NUM_FDS]") (auto simp: find_None_iff find_Some_iff)
  obtain fo k' where k': "sys_open 0 name k = Some (Ret (of_nat i) [], k')" "kept fo k'" "fo \<noteq> 0" "fos k fo = None"
    "con k' = con k" "tarfs k' = tarfs k" "current_process k' = current_process k"
    "threads k' = (threads k)(current_process k \<mapsto> th\<lparr>fds := (fds th)[i := fo]\<rparr>)"
    "fos k' = (fos k)(fo \<mapsto> opened_file 0 content)"
    by (rule sys_open_ok [OF h(1-4) i(1)])
  have l: "length (fds th) = 16" using out h(3) by (simp add: has_stdout_def NUM_FDS_def)
  have "has_stdout k'" using out h(3) k'(4,7-9) i by (auto simp: has_stdout_def split: option.splits)
  moreover have "reads_file (int i) t k'"
    using k' h(5) i l by (auto simp: reads_file_def opened_file_def file_text_def NUM_FDS_def)
  ultimately show ?thesis using k'(1,5) by (intro exI [of _ "int i"] exI [of _ k']) simp
qed

lemma sys_close_file:
  assumes out: "has_stdout k" and rd: "reads_file fd t k"
  shows "\<exists>k'. sys_close (of_int fd) k = Some (Ret 0 [], k') \<and> has_stdout k' \<and> con k' = con k"
proof -
  obtain d th f where r: "fd = int d" "3 \<le> d" "d < 16" "threads k (current_process k) = Some th" "fds th ! d \<noteq> 0"
    "kept (fds th ! d) k" "fos k (fds th ! d) = Some f" "fo_impl f = Some TARFS_IMPL" "fo_ref_count f = 1"
    by (rule reads_fileE [OF rd])
  define k' where "k' = k\<lparr>fos := (fos k)(fds th ! d \<mapsto> f\<lparr>fo_ref_count := 0\<rparr>),
     threads := (threads k)(current_process k \<mapsto> th\<lparr>fds := (fds th)[d := 0]\<rparr>)\<rparr>"
  have "kfree (fds th ! d) k' = Some k'" by (rule kfree_kept) (simp add: k'_def r(6))
  then have "sys_close (of_int fd) k = Some (Ret 0 [], k')"
    using r fd_word [of d] fd_word(3) [of d 0] fd_word(3) [of d 1] fd_word(3) [of d 2]
    by (simp add: sys_close_def upd_fo_def upd_thread_def k'_def)
  moreover have "has_stdout k'" using out r by (auto simp: has_stdout_def k'_def split: option.splits)
  ultimately show ?thesis by (auto simp: k'_def)
qed

interpretation prog: file_calls "handle_syscall w" has_stdout con printChar holds_file reads_file
proof
  show "\<exists>s'. handle_syscall w (SYSCALL_WRITE 1 (t @ r) (of_nat (length t))) s = Some (Ret (of_nat (length t)) (t @ r), s') \<and>
      has_stdout s' \<and> con s' = fold printChar t (con s)" if "has_stdout s" "length t < 2 ^ 31" for s t r
    using sys_write_out [OF that, of r] that(1) by (auto simp: has_stdout_def split: option.splits)
  show "reads_file fd t s \<Longrightarrow> 0 < fd \<and> fd < 2 ^ 31" for fd t s by (simp add: reads_file_def NUM_FDS_def)
qed (simp_all only: handle_syscall.simps sys_open_file sys_read_file sys_write_keeps sys_close_file)

end
