(* ===== verification/Programs.thy ===== *)
theory Programs
  imports User_Lib
begin

text \<open>
  The programs under \<^verbatim>\<open>bin\<close>: \<open>cat\<close>, \<open>echo\<close>, \<open>kill\<close>, \<open>ls\<close>, \<open>ps\<close> and \<open>sleep\<close>, over the trap
  into the kernel. A program's arguments are the strings \<open>argv\<close> points to, \<open>argc\<close> is their number;
  the result is the value returned from \<open>main\<close>.
\<close>

subsection \<open>cat\<close>

partial_function (option) cat_loop :: "'s trap \<Rightarrow> int \<Rightarrow> char list \<Rightarrow> 's \<Rightarrow> 's option" where
  "cat_loop sys fd buf s = do {
     (len_read, buf, s) \<leftarrow> read_fd sys fd buf 1024 s;
     if len_read = - 1 then write_str sys (lit (''Failed to read from file'' @ [CHR 0x0A])) s
     else do {
       (r, s) \<leftarrow> write_fd sys 1 buf (of_int len_read) s;
       if len_read < 1024 then Some s else cat_loop sys fd buf s
     }
   }"

definition cat_main :: "'s trap \<Rightarrow> char list list \<Rightarrow> char list \<Rightarrow> 's \<Rightarrow> (int \<times> 's) option" where
  "cat_main sys argv buf s =
     (if length argv = 2 then do {
        (fd, s) \<leftarrow> open_path sys (argv ! 1) s;
        if fd < 0 then map_option (Pair 0) (write_str sys (lit (''File not found'' @ [CHR 0x0A])) s)
        else do {
          s \<leftarrow> cat_loop sys fd buf s;
          (r, s) \<leftarrow> write_fd sys 1 [CHR 0x0A, NUL] 1 s;
          (r, s) \<leftarrow> close_fd sys fd s;
          Some (0, s)
        }
      }
      else map_option (Pair 0)
        (write_str sys (lit (''Incorrect number of command line arguments. Please try again.'' @ [CHR 0x0A])) s))"

subsection \<open>echo\<close>

definition echo_arg :: "'s trap \<Rightarrow> char list \<Rightarrow> 's \<Rightarrow> 's option" where
  "echo_arg sys a s = do {
     s \<leftarrow> write_str sys a s;
     map_option snd (write_fd sys 1 (lit '' '') 1 s)
   }"

definition echo_main :: "'s trap \<Rightarrow> char list list \<Rightarrow> 's \<Rightarrow> (int \<times> 's) option" where
  "echo_main sys argv s =
     (if length argv < 2 then Some (0, s)
      else do {
        s \<leftarrow> foldM (echo_arg sys) (tl argv) s;
        (r, s) \<leftarrow> write_fd sys 1 [CHR 0x0A, NUL] 1 s;
        Some (0, s)
      })"

subsection \<open>kill and sleep\<close>

text \<open>The numbers among the arguments: \<open>Inl\<close> when one of them is not a number, which \<open>atoi\<close>
  reports as -1.\<close>

fun parse_vals :: "char list list \<Rightarrow> (unit + int list) option" where
  "parse_vals [] = Some (Inr [])"
| "parse_vals (a # as) = do {
     val \<leftarrow> libc_atoi a;
     if val = - 1 then Some (Inl ())
     else map_option (map_sum id (Cons val)) (parse_vals as)
   }"

definition kill_main :: "'s trap \<Rightarrow> char list list \<Rightarrow> 's \<Rightarrow> (int \<times> 's) option" where
  "kill_main sys argv s =
     (if length argv < 3 then
        map_option (Pair 0) (write_str sys (lit (''Kill -9 must have at least 1 argument'' @ [CHR 0x0A])) s)
      else do {
        r \<leftarrow> parse_vals (drop 2 argv);
        case r of
          Inl _ \<Rightarrow> map_option (Pair 0)
            (write_str sys (lit (''Arguments for kill -9 are not correct positive numbers'' @ [CHR 0x0A])) s)
        | Inr vals \<Rightarrow> map_option (Pair 0) (foldM (\<lambda>v s. map_option snd (kill sys v s)) vals s)
      })"

definition sleep_main :: "'s trap \<Rightarrow> char list list \<Rightarrow> 's \<Rightarrow> (int \<times> 's) option" where
  "sleep_main sys argv s =
     (if length argv < 2 then
        map_option (Pair (- 1)) (write_str sys (lit (''Sleep must have at least 1 argument'' @ [CHR 0x0A])) s)
      else do {
        r \<leftarrow> parse_vals (drop 1 argv);
        case r of
          Inl _ \<Rightarrow> map_option (Pair (- 1))
            (write_str sys (lit (''Arguments for sleep are not correct positive numbers'' @ [CHR 0x0A])) s)
        | Inr vals \<Rightarrow> map_option (Pair 0) (foldM (\<lambda>v s. map_option snd (user_sleep sys (of_int v) s)) vals s)
      })"

subsection \<open>ls\<close>

text \<open>The entry is read before the test for the end of the directory, so the last round reads through
  a \<open>NULL\<close> pointer.\<close>

partial_function (option) ls_loop :: "'s trap \<Rightarrow> u64 \<Rightarrow> 's \<Rightarrow> 's option" where
  "ls_loop sys dir s = do {
     (dirent, s) \<leftarrow> readdir sys dir s;
     d_name \<leftarrow> dirent;
     s \<leftarrow> write_str sys d_name s;
     (r, s) \<leftarrow> write_fd sys 1 (lit ''    '') 1 s;
     ls_loop sys dir s
   }"

definition ls_main :: "'s trap \<Rightarrow> char list list \<Rightarrow> char list \<Rightarrow> 's \<Rightarrow> (int \<times> 's) option" where
  "ls_main sys argv dir_to_open s =
     (if length argv > 2 then
        map_option (Pair (- 1)) (write_str sys (lit (''Incorrect number of arguments'' @ [CHR 0x0A])) s)
      else do {
        (dir_to_open, s) \<leftarrow> (if length argv = 1 then getcwd sys dir_to_open 1024 s
             else map_option (\<lambda>d. (d, s)) (libc_strcpy dir_to_open (argv ! 1)));
        (dir, s) \<leftarrow> opendir sys dir_to_open s;
        case dir of
          None \<Rightarrow> do {
            s \<leftarrow> write_str sys (lit ''No directory found with name: '') s;
            s \<leftarrow> write_str sys dir_to_open s;
            (r, s) \<leftarrow> write_fd sys 1 [CHR 0x0A, NUL] 1 s;
            Some (- 1, s)
          }
        | Some d \<Rightarrow> do {
            (r, s) \<leftarrow> write_fd sys 1 (lit ''    '') 1 s;
            s \<leftarrow> ls_loop sys d s;
            (r, s) \<leftarrow> write_fd sys 1 [CHR 0x0A, NUL] 1 s;
            (r, s) \<leftarrow> closedir sys d s;
            Some (0, s)
          }
      })"

subsection \<open>ps\<close>

definition ps_main :: "'s trap \<Rightarrow> char list \<Rightarrow> 's \<Rightarrow> (int \<times> 's) option" where
  "ps_main sys buf s = do {
     s \<leftarrow> write_str sys (lit (CHR 0x0A # ''------------ Process State [prints 20 processes] -----------'' @ [CHR 0x0A])) s;
     (buf, s) \<leftarrow> user_ps sys buf s;
     s \<leftarrow> write_str sys buf s;
     s \<leftarrow> write_str sys (lit (CHR 0x0A # ''-------------------- End Process State ---------------------'' @ [CHR 0x0A])) s;
     (buf, s) \<leftarrow> user_ps sys buf s;
     Some (0, s)
   }"

subsection \<open>Output of the programs\<close>

context stdout_calls begin

lemma echo_out:
  assumes "ready s" "list_all2 (\<lambda>a t. cstr a = Some t \<and> length t < 2 ^ 31) as ts"
  shows "\<exists>s'. foldM (echo_arg sys) as s = Some s' \<and> ready s' \<and>
     screen s' = fold emit (concat (map (\<lambda>t. t @ '' '') ts)) (screen s)"
  using assms(2,1)
proof (induction arbitrary: s rule: list_all2_induct)
  case (Cons a as t ts)
  from write_str_out [of s a t] Cons obtain s1 where
    s1: "write_str sys a s = Some s1" "ready s1" "screen s1 = fold emit t (screen s)" by blast
  from write_fd_out [OF s1(2), of "'' ''" "[NUL]"] obtain n s2 where
    s2: "write_fd sys 1 (lit '' '') 1 s1 = Some (n, s2)" "ready s2" "screen s2 = emit (CHR '' '') (screen s1)" by auto
  from Cons.IH [OF s2(2)] s1 s2 show ?case by (auto simp: echo_arg_def)
qed simp

end

context file_calls begin

lemma cat_loop_out:
  assumes "ready s" "reads fd t s" "length buf = 1024"
  shows "\<exists>s'. cat_loop sys fd buf s = Some s' \<and> ready s' \<and> reads fd [] s' \<and> screen s' = fold emit t (screen s)"
  using assms
proof (induction "length t" arbitrary: t s buf rule: less_induct)
  case less
  let ?u = "take 1024 t"
  let ?buf = "?u @ drop (length ?u) buf"
  from read_fd_file [OF less.prems(1,2), of 1024 buf] less.prems(3) obtain s1 where
    s1: "read_fd sys fd buf 1024 s = Some (int (length ?u), ?buf, s1)"
      "ready s1" "reads fd (drop 1024 t) s1" "screen s1 = screen s" by auto
  have "length ?u < 2 ^ 31" by simp
  from write_fd_out [OF s1(2) this, of "drop (length ?u) buf"] obtain n s2 where
    s2: "write_fd sys 1 ?buf (of_nat (length ?u)) s1 = Some (n, s2)" "ready s2"
      "screen s2 = fold emit ?u (screen s1)" "reads fd (drop 1024 t) s2"
    using write_keeps [OF s1(2,3)] by blast
  have step: "cat_loop sys fd buf s = (if length ?u < 1024 then Some s2 else cat_loop sys fd ?buf s2)"
    by (subst cat_loop.simps) (use s1(1) s2(1) in simp)
  show ?case
  proof (cases "length t < 1024")
    case True
    then show ?thesis using step s1 s2 by simp
  next
    case False
    have "\<exists>s'. cat_loop sys fd ?buf s2 = Some s' \<and> ready s' \<and> reads fd [] s' \<and>
        screen s' = fold emit (drop 1024 t) (screen s2)"
      by (rule less.hyps [OF _ s2(2,4)]) (use False less.prems(3) in auto)
    moreover have "fold emit (drop 1024 t) (fold emit ?u x) = fold emit t x" for x
      using fold_append [of emit ?u "drop 1024 t"] by (simp del: fold_append)
    ultimately show ?thesis using step False s1(4) s2(3) by auto
  qed
qed

lemma cat_out:
  assumes "ready s" "stored name t s" "length buf = 1024"
  shows "\<exists>s'. cat_main sys [prog, name] buf s = Some (0, s') \<and> screen s' = fold emit (t @ [CHR 0x0A]) (screen s)"
proof -
  from open_file [OF assms(1,2)] obtain fd s1 where
    s1: "sys (SYSCALL_OPEN 0 name) s = Some (Ret (of_int fd) [], s1)" "ready s1" "reads fd t s1" "screen s1 = screen s" by blast
  from cat_loop_out [OF s1(2,3) assms(3)] obtain s2 where
    s2: "cat_loop sys fd buf s1 = Some s2" "ready s2" "reads fd [] s2" "screen s2 = fold emit t (screen s1)" by blast
  from write_fd_out [OF s2(2), of "[CHR 0x0A]" "[NUL]"] obtain n s3 where
    s3: "write_fd sys 1 [CHR 0x0A, NUL] 1 s2 = Some (n, s3)" "ready s3" "screen s3 = emit (CHR 0x0A) (screen s2)" "reads fd [] s3"
    using write_keeps [OF s2(2,3)] by auto
  from close_file [OF s3(2,4)] obtain s4 where
    s4: "sys (SYSCALL_CLOSE (of_int fd)) s3 = Some (Ret 0 [], s4)" "screen s4 = screen s3" by blast
  have fd: "0 < fd" "fd < 2 ^ 31" using reads_fd [OF s1(3)] by auto
  then have "as_int (of_int fd) = fd" by (simp add: as_int_small)
  then have "open_path sys name s = Some (fd, s1)"
    using s1(1) by (simp add: open_path_def syscall_val_def syscall_def)
  moreover have "close_fd sys fd s3 = Some (0, s4)"
    using s4(1) by (simp add: close_fd_def syscall_val_def syscall_def as_int_def)
  ultimately show ?thesis using s1(4) s2(1,4) s3(1,3) s4(2) fd(1) by (auto simp: cat_main_def)
qed

end

text \<open>A machine with one file and a terminal.\<close>

lemma img_small_file: "get_file_binary img_small (''bin/ls'' @ [NUL]) = Some (Some 512)"
proof -
  let ?es = "[\<lparr>e_name = ''bin/ls'', e_type = 0, e_size = 3, e_block = 0\<rparr>]"
  have e: "\<forall>e \<in> set ?es. entry_at img_small (e_block e) e" using archive_entries [OF img_small_archive] by blast
  have f: "list_all scan_follows ?es" by (simp add: scan_follows_def)
  have c: "cstr (''bin/ls'' @ [NUL]) = Some ''bin/ls''" by simp
  show ?thesis unfolding get_file_binary_def tar_walk_archive [OF img_small_archive f] walk_find [OF e c] by simp
qed

definition kernel_files :: kernel where
  "kernel_files = kernel_small\<lparr>tarfs := img_small,
     fos := [50 \<mapsto> fo_zero\<lparr>fo_impl := Some TERMINAL_FS\<rparr>],
     threads := [10 \<mapsto> (thread_small 1 0 10 RUNNING)\<lparr>fds := (replicate 16 0)[1 := 50]\<rparr>]\<rparr>"

lemma kernel_files_stdout: "has_stdout kernel_files"
  by (simp add: has_stdout_def kernel_files_def kernel_small_def kernel.defs vm.defs NUM_FDS_def)

lemma kernel_files_holds: "holds_file (''bin/ls'' @ [NUL]) ''ELF'' kernel_files"
proof -
  have f: "free_frames kernel_files = free_frames kernel_small" "vm_inv kernel_files"
    "kernel_virtual_base kernel_files = kernel_virtual_base kernel_small"
    using vm_cong [of kernel_files kernel_small] by (simp_all add: kernel_files_def phys.defs)
  have m: "mms kernel_small = Map.empty" "vmas kernel_small = Map.empty" "dirs kernel_small = Map.empty"
    "current_process kernel_small = 10"
    by (simp_all add: kernel_small_def kernel.defs vm.defs)
  have "heap_ok kernel_files"
    unfolding heap_ok_def f(1) kernel_small_vm(5) using f(2,3)
    by (simp add: kernel_files_def m frame_of_def PAGE_SIZE_def)
  moreover have "drop 512 img_small = ''ELF'' @ NUL # replicate 508 NUL @ NUL # replicate 511 NUL"
    by (simp add: img_small_def)
  then have "file_text (drop 512 img_small) ''ELF''" by (simp add: file_text_def schar_def)
  moreover have "\<exists>i. 3 \<le> i \<and> i < NUM_FDS \<and> fds ((thread_small 1 0 10 RUNNING)\<lparr>fds := (replicate 16 0)[1 := 50]\<rparr>) ! i = 0"
    by (rule exI [of _ 3]) (simp add: NUM_FDS_def)
  ultimately show ?thesis
    unfolding holds_file_def f(1) using img_small_file by (simp add: kernel_files_def m)
qed

definition quiet_world :: "kernel world" where
  "quiet_world = \<lparr>keys = [], seconds = 0, others = Some, names = (\<lambda>_. [])\<rparr>"

subsection \<open>Properties\<close>



text \<open>C37. \<open>echo\<close> prints its arguments: run through the system calls of this kernel, it puts every
  argument followed by a blank, and a line break, on the screen.\<close>

theorem echo_prints_arguments:
  assumes "has_stdout k" "as \<noteq> []" "list_all2 (\<lambda>a t. cstr a = Some t \<and> length t < 2 ^ 31) as ts"
  shows "\<exists>k'. echo_main (handle_syscall w) (prog # as) k = Some (0, k') \<and>
     con k' = fold printChar (concat (map (\<lambda>t. t @ '' '') ts) @ [CHR 0x0A]) (con k)"
proof -
  from prog.echo_out [OF assms(1,3)] obtain k1 where
    k1: "foldM (echo_arg (handle_syscall w)) as k = Some k1" "has_stdout k1"
      "con k1 = fold printChar (concat (map (\<lambda>t. t @ '' '') ts)) (con k)" by blast
  from prog.newline_out [OF k1(2)] obtain n k2 where
    "write_fd (handle_syscall w) 1 [CHR 0x0A, NUL] 1 k1 = Some (n, k2)" "con k2 = printChar (CHR 0x0A) (con k1)" by blast
  with k1 assms(2) show ?thesis by (cases as) (simp_all add: echo_main_def)
qed

theorem echo_prints_arguments_witness:
  "\<exists>k'. echo_main (handle_syscall quiet_world) [''echo'' @ [NUL], ''hello'' @ [NUL]] kernel_files = Some (0, k') \<and>
     con k' = fold printChar (''hello '' @ [CHR 0x0A]) (con kernel_files)"
  using echo_prints_arguments [OF kernel_files_stdout, of "[''hello'' @ [NUL]]" "[''hello'']" quiet_world "''echo'' @ [NUL]"] by simp

end
