(* ===== verification/Shell.thy ===== *)
theory Shell
  imports User_Lib
begin

text \<open>
  The shell, \<^verbatim>\<open>bin/sbush/sbush.c\<close>. A pointer into a text is the buffer and the index of the character
  it points to, because the shell writes terminators into its input and keeps several pointers into it.
  The commands act on the system through the trap \<open>sys\<close>.
\<close>

subsection \<open>State\<close>

record shell =
  is_background :: int
  PS1 :: "char list"
  PS1_set :: int
  bin_path :: "char list"

definition SHELL_BUF_SIZE :: nat where "SHELL_BUF_SIZE = 256"

definition SHELL_MAX_ARGS :: nat where "SHELL_MAX_ARGS = 8"

definition MAX_LINES :: nat where "MAX_LINES = 64"

subsection \<open>Splitting\<close>

partial_function (option) skip_spaces :: "char list \<Rightarrow> int \<Rightarrow> int option" where
  "skip_spaces b p = Option.bind (buf_read b p) (\<lambda>c. if c = CHR '' '' then skip_spaces b (p + 1) else Some p)"

partial_function (option) cut_spaces :: "char list \<Rightarrow> int \<Rightarrow> char list option" where
  "cut_spaces b i = do {
     c \<leftarrow> buf_read b i;
     if c = CHR '' '' then Option.bind (buf_write b i NUL) (\<lambda>b. cut_spaces b (i - 1)) else Some b
   }"

definition strlen_at :: "char list \<Rightarrow> int \<Rightarrow> int option" where
  "strlen_at b p = (if p < 0 then None else map_option as_int (libc_strlen (Some (drop (nat p) b))))"

definition remove_white_spaces :: "char list \<Rightarrow> int \<Rightarrow> (int \<times> char list) option" where
  "remove_white_spaces b src = do {
     src \<leftarrow> skip_spaces b src;
     n \<leftarrow> strlen_at b src;
     b \<leftarrow> cut_spaces b (src + n - 1);
     Some (src, b)
   }"

text \<open>\<open>cap\<close> is the length of the array of pointers.\<close>

definition add_command :: "nat \<Rightarrow> int \<Rightarrow> int list \<times> char list \<Rightarrow> (int list \<times> char list) option" where
  "add_command cap start cb = do {
     let (commands, b) = cb;
     if length commands < cap then do {
       (p, b) \<leftarrow> remove_white_spaces b start;
       Some (commands @ [p], b)
     }
     else None
   }"

partial_function (option) split_loop ::
    "nat \<Rightarrow> char \<Rightarrow> int \<Rightarrow> int \<Rightarrow> int list \<times> char list \<Rightarrow> (int \<times> int list \<times> char list) option" where
  "split_loop cap delimiter i prev cb = do {
     c \<leftarrow> buf_read (snd cb) i;
     if c = NUL then Some (prev, cb)
     else if c = delimiter then do {
       b \<leftarrow> buf_write (snd cb) i NUL;
       cb \<leftarrow> add_command cap (prev + 1) (fst cb, b);
       split_loop cap delimiter (i + 1) i cb
     }
     else split_loop cap delimiter (i + 1) prev cb
   }"

definition parse_split :: "nat \<Rightarrow> char list \<Rightarrow> int \<Rightarrow> char \<Rightarrow> (int list \<times> char list) option" where
  "parse_split cap b input delimiter = do {
     (prev, cb) \<leftarrow> split_loop cap delimiter input (input - 1) ([], b);
     cb \<leftarrow> add_command cap (prev + 1) cb;
     if length (fst cb) < cap then Some cb else None
   }"

definition text_at :: "char list \<Rightarrow> int \<Rightarrow> char list" where
  "text_at b p = drop (nat p) b"

subsection \<open>Built-in commands\<close>

partial_function (option) put_env_loop :: "char list \<Rightarrow> int \<Rightarrow> int \<Rightarrow> char list \<Rightarrow> (int \<times> char list) option" where
  "put_env_loop b new_path i pth = do {
     c \<leftarrow> buf_read b (new_path + i);
     if c \<noteq> NUL then Option.bind (buf_write pth (i - 5) c) (put_env_loop b new_path (i + 1)) else Some (i, pth)
   }"

definition put_env :: "char list \<Rightarrow> int \<Rightarrow> shell \<Rightarrow> (int \<times> shell) option" where
  "put_env b new_path sh = do {
     (i, pth) \<leftarrow> put_env_loop b new_path 5 (bin_path sh);
     c \<leftarrow> buf_read pth (i - 5);
     pth \<leftarrow> (if c \<noteq> NUL then buf_write pth (i - 5) NUL else Some pth);
     Some (0, sh\<lparr>bin_path := pth\<rparr>)
   }"

partial_function (option) copy_ps1 :: "char list \<Rightarrow> int \<Rightarrow> int \<Rightarrow> char list \<Rightarrow> (int \<times> char list) option" where
  "copy_ps1 b tok j ps = do {
     c \<leftarrow> buf_read b (tok + j);
     if c \<noteq> NUL then Option.bind (buf_write ps j c) (copy_ps1 b tok (j + 1)) else Some (j, ps)
   }"

definition set_ps1 :: "int list \<Rightarrow> char list \<Rightarrow> shell \<Rightarrow> (char list \<times> shell) option" where
  "set_ps1 arguments b sh = do {
     (tokens, b) \<leftarrow> parse_split SHELL_MAX_ARGS b (arguments ! 1) (CHR ''='');
     if length tokens < 2 then None
     else do {
       (j, ps) \<leftarrow> copy_ps1 b (tokens ! 1) 0 (PS1 sh);
       c \<leftarrow> buf_read ps j;
       ps \<leftarrow> (if c \<noteq> NUL then buf_write ps j NUL else Some ps);
       ps \<leftarrow> foldM (\<lambda>i ps. Option.bind (libc_strcat ps (lit '' '')) (\<lambda>ps. libc_strcat ps (text_at b (arguments ! i))))
              [2..<length arguments] ps;
       ps \<leftarrow> libc_strcat ps (lit '' '');
       Some (b, sh\<lparr>PS1 := ps, PS1_set := 1\<rparr>)
     }
   }"

definition set_env_variables :: "'s trap \<Rightarrow> int list \<Rightarrow> char list \<Rightarrow> shell \<times> 's \<Rightarrow> (char list \<times> shell \<times> 's) option" where
  "set_env_variables sys arguments b ss = do {
     let (sh, s) = ss;
     if length arguments < 2 then None
     else if take 3 (text_at b (arguments ! 1)) = ''PS1'' then map_option (\<lambda>(b, sh). (b, sh, s)) (set_ps1 arguments b sh)
     else do {
       (st, sh) \<leftarrow> put_env b (arguments ! 1) sh;
       s \<leftarrow> (if st \<noteq> 0 then write_str sys (lit (''export: Error setting environment variable'' @ [CHR 0x0A])) s else Some s);
       Some (b, sh, s)
     }
   }"

text \<open>The slash \<open>cd\<close> puts behind the directory overwrites the text's terminator.\<close>

definition cd_slash :: "char list \<Rightarrow> int \<Rightarrow> char list option" where
  "cd_slash b a = do {
     len \<leftarrow> strlen_at b a;
     c \<leftarrow> buf_read b (a + len - 1);
     if c \<noteq> CHR ''/'' then do {
       b \<leftarrow> buf_write b (a + len) (CHR ''/'');
       buf_write b (a + len + 1) NUL
     }
     else Some b
   }"

definition cd :: "'s trap \<Rightarrow> char list \<Rightarrow> int list \<Rightarrow> char list \<Rightarrow> 's \<Rightarrow> (char list \<times> 's) option" where
  "cd sys cdir arguments b s =
     (if length arguments < 2 then None
      else do {
        b \<leftarrow> cd_slash b (arguments ! 1);
        if length arguments = 2 then do {
          c \<leftarrow> buf_read b (arguments ! 1);
          (st, s) \<leftarrow> (if c = CHR ''/'' then chdir sys (text_at b (arguments ! 1 + 1)) s
               else do {
                 (cdir, s) \<leftarrow> getcwd sys cdir (of_nat SHELL_BUF_SIZE) s;
                 cdir \<leftarrow> libc_strcat cdir (text_at b (arguments ! 1));
                 chdir sys cdir s
               });
          s \<leftarrow> (if st \<noteq> 0 then write_str sys (lit (''cd: No such file or directory'' @ [CHR 0x0A])) s else Some s);
          Some (b, s)
        }
        else map_option (Pair b) (write_str sys (lit (''cd: Incorrect number of arguments'' @ [CHR 0x0A])) s)
      })"

subsection \<open>Running programs\<close>

partial_function (option) bin_prefix :: "char list \<Rightarrow> int \<Rightarrow> char list \<Rightarrow> (int \<times> char list) option" where
  "bin_prefix pth i bin = do {
     c \<leftarrow> buf_read pth i;
     if c \<noteq> CHR ''/'' \<and> c \<noteq> NUL then Option.bind (buf_write bin i c) (bin_prefix pth (i + 1)) else Some (i, bin)
   }"

definition program_path :: "char list \<Rightarrow> char list \<Rightarrow> char list \<Rightarrow> char list option" where
  "program_path bin pth arg0 = do {
     (i, bin) \<leftarrow> bin_prefix pth 0 bin;
     bin \<leftarrow> buf_write bin i (CHR ''/'');
     bin \<leftarrow> buf_write bin (i + 1) NUL;
     libc_strcat bin arg0
   }"

text \<open>The file argument of \<open>cat\<close> and \<open>ls\<close> is made relative to the archive's root in place. The length
  is held in a \<open>char\<close>.\<close>

definition strip_slash :: "char list \<Rightarrow> int \<Rightarrow> char list option" where
  "strip_slash b a = do {
     n \<leftarrow> strlen_at b a;
     let len = sint (of_int n :: u8);
     let end = max 1 len;
     b \<leftarrow> foldM (\<lambda>i b. Option.bind (buf_read b (a + int i)) (buf_write b (a + int i - 1))) [1..<nat end] b;
     buf_write b (a + end - 1) NUL
   }"

definition prepend_cwd :: "char list \<Rightarrow> char list \<Rightarrow> int \<Rightarrow> char list option" where
  "prepend_cwd cdir b a = do {
     cdir \<leftarrow> libc_strcat cdir (text_at b a);
     t \<leftarrow> cstr cdir;
     b \<leftarrow> foldM (\<lambda>i b. buf_write b (a + int i) (t ! i)) [0..<length t] b;
     buf_write b (a + int (length t)) NUL
   }"

definition fix_argument :: "'s trap \<Rightarrow> char list \<Rightarrow> int list \<Rightarrow> char list \<Rightarrow> 's \<Rightarrow> (char list \<times> 's) option" where
  "fix_argument sys cdir arguments b s = do {
     c1 \<leftarrow> strcmp (text_at b (arguments ! 0)) (lit ''cat'');
     c2 \<leftarrow> strcmp (text_at b (arguments ! 0)) (lit ''ls'');
     if (c1 = 0 \<or> c2 = 0) \<and> 1 < length arguments then do {
       c \<leftarrow> buf_read b (arguments ! 1);
       if c = CHR ''/'' then map_option (\<lambda>b. (b, s)) (strip_slash b (arguments ! 1))
       else do {
         (cdir, s) \<leftarrow> getcwd sys cdir (of_nat SHELL_BUF_SIZE) s;
         map_option (\<lambda>b. (b, s)) (prepend_cwd cdir b (arguments ! 1))
       }
     }
     else Some (b, s)
   }"

definition exec_binary ::
    "'s trap \<Rightarrow> char list \<Rightarrow> char list \<Rightarrow> int list \<Rightarrow> char list \<Rightarrow> shell \<times> 's \<Rightarrow> (char list \<times> shell \<times> 's) option" where
  "exec_binary sys bin cdir arguments b ss = do {
     let (sh, s) = ss;
     bin \<leftarrow> program_path bin (bin_path sh) (text_at b (arguments ! 0));
     (b, s) \<leftarrow> fix_argument sys cdir arguments b s;
     (c_pid, s) \<leftarrow> user_fork sys s;
     if c_pid = 0 then do {
       (r, s) \<leftarrow> execvpe sys bin (Some (map (text_at b) arguments)) s;
       s \<leftarrow> write_str sys (lit (''Command not found'' @ [CHR 0x0A])) s;
       s \<leftarrow> user_exit sys 0 s;
       Some (b, sh, s)
     }
     else if is_background sh = 0 then do {
       (r, s) \<leftarrow> waitpid sys c_pid s;
       Some (b, sh, s)
     }
     else do {
       s \<leftarrow> write_str sys (lit ''[1] '') s;
       pid_s \<leftarrow> itoa_cl (replicate 20 NUL) c_pid;
       s \<leftarrow> write_str sys pid_s s;
       (r, s) \<leftarrow> write_fd sys 1 [CHR 0x0A, NUL] 1 s;
       Some (b, sh, s)
     }
   }"

definition write_line :: "'s trap \<Rightarrow> char list \<Rightarrow> 's \<Rightarrow> 's option" where
  "write_line sys str s = do {
     s \<leftarrow> write_str sys str s;
     map_option snd (write_fd sys 1 [CHR 0x0A, NUL] 1 s)
   }"

text \<open>\<open>tmp\<close> holds the contents of the uninitialised local buffers of the commands.\<close>

definition shell_parse ::
    "'s trap \<Rightarrow> char list \<Rightarrow> char list \<Rightarrow> int \<Rightarrow> int \<Rightarrow> shell \<times> 's \<Rightarrow> (char list \<times> shell \<times> 's) option" where
  "shell_parse sys tmp b input len_input ss = do {
     let (sh, s) = ss;
     c1 \<leftarrow> strcmp (text_at b input) (lit ''$PATH'');
     if c1 = 0 then map_option (\<lambda>s. (b, sh, s)) (write_line sys (bin_path sh) s)
     else do {
       c2 \<leftarrow> strcmp (text_at b input) (lit ''$PS1'');
       if c2 = 0 then map_option (\<lambda>s. (b, sh, s)) (write_line sys (PS1 sh) s)
       else do {
         c \<leftarrow> buf_read b (input + len_input - 1);
         (sh, b) \<leftarrow> (if c = CHR ''&'' then map_option (Pair (sh\<lparr>is_background := 1\<rparr>)) (buf_write b (input + len_input - 1) NUL)
               else Some (sh, b));
         (input, b) \<leftarrow> remove_white_spaces b input;
         (arguments, b) \<leftarrow> parse_split SHELL_MAX_ARGS b input (CHR '' '');
         d1 \<leftarrow> strcmp (text_at b (arguments ! 0)) (lit ''cd'');
         if d1 = 0 then map_option (\<lambda>(b, s). (b, sh, s)) (cd sys tmp arguments b s)
         else do {
           d2 \<leftarrow> strcmp (text_at b (arguments ! 0)) (lit ''export'');
           if d2 = 0 then set_env_variables sys arguments b (sh, s)
           else exec_binary sys tmp tmp arguments b (sh, s)
         }
       }
     }
   }"

subsection \<open>Scripts and the main loop\<close>

definition exec_line ::
    "'s trap \<Rightarrow> char list \<Rightarrow> int \<Rightarrow> char list \<times> shell \<times> 's \<Rightarrow> (char list \<times> shell \<times> 's) option" where
  "exec_line sys tmp p bs = do {
     let (b, ss) = bs;
     c0 \<leftarrow> buf_read b p;
     if c0 = CHR ''#'' then Some bs
     else do {
       c1 \<leftarrow> buf_read b (p + 1);
       if c1 = CHR ''!'' then Some bs
       else do {
         n \<leftarrow> strlen_at b p;
         if n \<noteq> 0 then shell_parse sys tmp b p n ss else Some bs
       }
     }
   }"

definition shell_execfile :: "'s trap \<Rightarrow> char list \<Rightarrow> char list \<Rightarrow> char list \<Rightarrow> shell \<times> 's \<Rightarrow> (shell \<times> 's) option" where
  "shell_execfile sys tmp script_file filename ss = do {
     let (sh, s) = ss;
     c \<leftarrow> buf_read filename 0;
     let filename = (if c = CHR ''/'' then tl filename else filename);
     (fp, s) \<leftarrow> open_path sys filename s;
     if fp < 0 then map_option (Pair sh) (write_str sys (lit (''File not found'' @ [CHR 0x0A])) s)
     else do {
       (r, script_file, s) \<leftarrow> read_fd sys fp script_file (of_nat SHELL_BUF_SIZE) s;
       (lines, script_file) \<leftarrow> parse_split MAX_LINES script_file 0 (CHR 0x0A);
       (b, sh, s) \<leftarrow> foldM (exec_line sys tmp) lines (script_file, sh, s);
       (r, s) \<leftarrow> close_fd sys fp s;
       Some (sh, s)
     }
   }"

text \<open>One round of \<open>shell_init\<close>: the prompt, a line of input, and its execution.\<close>

definition shell_prompt :: "'s trap \<Rightarrow> shell \<Rightarrow> 's \<Rightarrow> 's option" where
  "shell_prompt sys sh s = do {
     (current_dir, s) \<leftarrow> getcwd sys (replicate SHELL_BUF_SIZE NUL) (of_nat SHELL_BUF_SIZE) s;
     if PS1_set sh \<noteq> 0 then write_str sys (PS1 sh) s
     else Option.bind (write_str sys current_dir s) (write_str sys (lit '': sbush> ''))
   }"

definition shell_line ::
    "'s trap \<Rightarrow> char list \<Rightarrow> char list \<Rightarrow> char list \<Rightarrow> shell \<times> 's \<Rightarrow> (shell \<times> 's) option" where
  "shell_line sys tmp script b ss =
     (if b = [] then None
      else if hd b = NUL then Some ss
      else do {
        n \<leftarrow> strlen_at b 0;
        c \<leftarrow> buf_read b (n - 1);
        (n, b) \<leftarrow> (if c = CHR 0x0A then map_option (Pair (n - 1)) (buf_write b (n - 1) NUL) else Some (n, b));
        if n = 0 then Some ss
        else do {
          e \<leftarrow> strcmp b (lit ''exit'');
          if e = 0 then Some ss
          else if take 2 b = ''./'' then shell_execfile sys tmp script (drop 2 b) ss
          else if take 6 b = ''sbush '' then shell_execfile sys tmp script (drop 6 b) ss
          else map_option snd (shell_parse sys tmp b 0 n ss)
        }
      })"

definition shell_round :: "'s trap \<Rightarrow> char list \<Rightarrow> char list \<Rightarrow> shell \<times> 's \<Rightarrow> (shell \<times> 's) option" where
  "shell_round sys tmp script ss = do {
     let (sh, s) = ss;
     let sh = sh\<lparr>is_background := 0\<rparr>;
     s \<leftarrow> shell_prompt sys sh s;
     (r, b, s) \<leftarrow> read_fd sys 0 (replicate SHELL_BUF_SIZE NUL) (of_nat SHELL_BUF_SIZE) s;
     shell_line sys tmp script b (sh, s)
   }"

subsection \<open>Lines and tokens\<close>

fun join :: "char \<Rightarrow> char list list \<Rightarrow> char list" where
  "join d [] = []"
| "join d [w] = w"
| "join d (w # v # ws) = w @ d # join d (v # ws)"

fun starts :: "nat \<Rightarrow> char list list \<Rightarrow> int list" where
  "starts n [] = []"
| "starts n (w # ws) = int n # starts (n + length w + 1) ws"

text \<open>A token: not empty, without terminator and delimiter, no blank at its ends.\<close>

definition token :: "char \<Rightarrow> char list \<Rightarrow> bool" where
  "token d w \<longleftrightarrow> w \<noteq> [] \<and> NUL \<notin> set w \<and> d \<notin> set w \<and> hd w \<noteq> CHR '' '' \<and> last w \<noteq> CHR '' '' \<and> length w < 2 ^ 31"

lemma buf_read_mid: "buf_read (pre @ c # rest) (int (length pre)) = Some c"
  by (simp add: buf_read_def)

lemma buf_write_mid: "buf_write (pre @ c # rest) (int (length pre)) x = Some (pre @ x # rest)"
  by (simp add: buf_write_def)

lemma remove_white_spaces_token:
  assumes "token d w"
  shows "remove_white_spaces (pre @ w @ NUL # rest) (int (length pre)) = Some (int (length pre), pre @ w @ NUL # rest)"
proof -
  let ?b = "pre @ w @ NUL # rest"
  obtain c cs where w: "w = c # cs" using assms by (cases w) (auto simp: token_def)
  have "c \<noteq> CHR '' ''" using assms by (simp add: token_def w)
  then have skip: "skip_spaces ?b (int (length pre)) = Some (int (length pre))"
    by (subst skip_spaces.simps) (simp add: w buf_read_mid)
  have "libc_strlen (Some (w @ NUL # rest)) = Some (of_nat (length w))"
    using assms strlen_loop_text [of w rest 0] by (simp add: libc_strlen_eq strlen_def token_def)
  then have len: "strlen_at ?b (int (length pre)) = Some (int (length w))"
    using assms as_int_small [of "int (length w)"] by (simp add: strlen_at_def token_def)
  have "?b = (pre @ butlast w) @ last w # NUL # rest" "int (length pre) + int (length w) - 1 = int (length (pre @ butlast w))"
    by (simp_all add: w)
  then have "buf_read ?b (int (length pre) + int (length w) - 1) = Some (last w)" by (metis buf_read_mid)
  then have "cut_spaces ?b (int (length pre) + int (length w) - 1) = Some ?b"
    using assms by (subst cut_spaces.simps) (simp add: token_def)
  with skip len show ?thesis by (simp add: remove_white_spaces_def)
qed

lemma split_loop_word:
  assumes "NUL \<notin> set w" "d \<notin> set w"
  shows "split_loop cap d (int (length pre)) prev (cmds, pre @ w @ rest) =
     split_loop cap d (int (length (pre @ w))) prev (cmds, pre @ w @ rest)"
  using assms
proof (induction w arbitrary: pre)
  case (Cons c w)
  have "split_loop cap d (int (length pre)) prev (cmds, pre @ (c # w) @ rest) =
      split_loop cap d (int (length (pre @ [c]))) prev (cmds, (pre @ [c]) @ w @ rest)"
    using Cons.prems by (subst split_loop.simps) (auto simp: buf_read_mid add.commute)
  with Cons.IH [of "pre @ [c]"] Cons.prems show ?case by simp
qed simp

lemma parse_tokens:
  assumes "ws \<noteq> []" "list_all (token d) ws" "length cmds + length ws < cap" "d \<noteq> NUL"
  shows "Option.bind (split_loop cap d (int (length pre)) (int (length pre) - 1) (cmds, pre @ join d ws @ NUL # rest))
     (\<lambda>(prev, cb). Option.bind (add_command cap (prev + 1) cb) (\<lambda>cb. if length (fst cb) < cap then Some cb else None)) =
     Some (cmds @ starts (length pre) ws, pre @ join NUL ws @ NUL # rest)"
  using assms
proof (induction d ws arbitrary: pre cmds rule: join.induct)
  case (2 d w)
  have "split_loop cap d (int (length pre)) (int (length pre) - 1) (cmds, pre @ w @ NUL # rest) =
      Some (int (length pre) - 1, cmds, pre @ w @ NUL # rest)"
    using 2 by (subst split_loop_word, simp add: token_def, simp add: token_def, subst split_loop.simps)
      (simp add: buf_read_mid [of "pre @ w", simplified])
  with 2 show ?case by (simp add: add_command_def remove_white_spaces_token)
next
  case (3 d w v ws)
  let ?r = "join d (v # ws) @ NUL # rest" and ?p = "pre @ w @ [NUL]"
  have t: "token d w" using 3 by simp
  have "split_loop cap d (int (length pre)) (int (length pre) - 1) (cmds, pre @ w @ d # ?r) =
      split_loop cap d (int (length ?p)) (int (length ?p) - 1) (cmds @ [int (length pre)], ?p @ ?r)"
  proof -
    have "add_command cap (int (length pre)) (cmds, pre @ w @ NUL # ?r) = Some (cmds @ [int (length pre)], pre @ w @ NUL # ?r)"
      using 3 remove_white_spaces_token [OF t, of pre ?r] by (simp add: add_command_def)
    then show ?thesis
      using 3 t by (subst split_loop_word, simp add: token_def, simp add: token_def, subst split_loop.simps)
        (simp add: buf_read_mid [of "pre @ w", simplified] buf_write_mid [of "pre @ w", simplified] add.commute add.assoc)
  qed
  with 3(1) [of "cmds @ [int (length pre)]" ?p] 3(2-) show ?case by (simp add: add.assoc)
qed simp

lemma starts_text:
  "list_all (token d) ws \<Longrightarrow> b = pre @ join NUL ws @ NUL # rest \<Longrightarrow>
   list_all2 (\<lambda>p w. cstr (text_at b p) = Some w) (starts (length pre) ws) ws"
proof (induction d ws arbitrary: pre rule: join.induct)
  case (2 d w)
  then show ?case by (simp add: text_at_def token_def cstr_append)
next
  case (3 d w v ws)
  have "list_all2 (\<lambda>p w. cstr (text_at b p) = Some w) (starts (length (pre @ w @ [NUL])) (v # ws)) (v # ws)"
    by (rule 3(1)) (use 3 in simp_all)
  moreover have "cstr (text_at b (int (length pre))) = Some w"
    using 3(2,3) by (simp add: text_at_def token_def cstr_append)
  ultimately show ?case by simp
qed simp

text \<open>C11. Splitting a line: a line of tokens separated by single delimiters is split into exactly these
  tokens, in order, each a terminated string in the line's own buffer, as long as they are fewer than
  the array of pointers has room for.\<close>

theorem parse_split_tokens:
  assumes "ws \<noteq> []" "list_all (token d) ws" "length ws < cap" "d \<noteq> NUL"
  shows "\<exists>ps b. parse_split cap (pre @ join d ws @ NUL # rest) (int (length pre)) d = Some (ps, b) \<and>
     list_all2 (\<lambda>p w. cstr (text_at b p) = Some w) ps ws"
proof -
  have "parse_split cap (pre @ join d ws @ NUL # rest) (int (length pre)) d =
      Some (starts (length pre) ws, pre @ join NUL ws @ NUL # rest)"
    using parse_tokens [OF assms(1,2) _ assms(4), of "[]" cap pre rest] assms(3) by (simp add: parse_split_def)
  with starts_text [OF assms(2) refl] show ?thesis by blast
qed

theorem parse_split_tokens_witness:
  "\<exists>ps b. parse_split 8 (''cat /etc/rc'' @ [NUL]) 0 (CHR '' '') = Some (ps, b) \<and>
     list_all2 (\<lambda>p w. cstr (text_at b p) = Some w) ps [''cat'', ''/etc/rc'']"
  using parse_split_tokens [of "[''cat'', ''/etc/rc'']" "CHR '' ''" 8 "[]" "[]"] by (simp add: token_def)

text \<open>\<open>shell_init\<close> for a number of rounds; it never ends.\<close>

definition shell_init :: "'s trap \<Rightarrow> char list \<Rightarrow> char list \<Rightarrow> nat \<Rightarrow> shell \<times> 's \<Rightarrow> (shell \<times> 's) option" where
  "shell_init sys tmp script rounds ss = foldM (\<lambda>_. shell_round sys tmp script) [0..<rounds] ss"

text \<open>The search path from the environment: the terminating slash goes to the environment's own string.\<close>

definition set_path :: "char list \<Rightarrow> shell \<Rightarrow> (char list \<times> shell) option" where
  "set_path env sh = do {
     n \<leftarrow> libc_strlen (Some env);
     p \<leftarrow> foldM (\<lambda>i p. Option.bind (buf_read env (int i)) (buf_write p (int i - 5))) [5..<unat n] (bin_path sh);
     let i = max 5 (int (unat n));
     c \<leftarrow> buf_read env (i - 1);
     (i, env) \<leftarrow> (if c \<noteq> CHR ''/'' then map_option (Pair (i + 1)) (buf_write env i (CHR ''/'')) else Some (i, env));
     env \<leftarrow> buf_write env i NUL;
     Some (env, sh\<lparr>bin_path := p\<rparr>)
   }"

definition welcome_msg :: "char list" where
  "welcome_msg = ''Welcome to SBUNIX (SNOW OS)!'' @ [CHR 0x0A, CHR 0x0A] @
     ''Please use the project README file for a list of commands.'' @ [CHR 0x0A, CHR 0x0A] @
     ''A few examples are:'' @ [CHR 0x0A] @ ''ls'' @ [CHR 0x0A] @ ''cat /etc/test.txt'' @ [CHR 0x0A] @
     ''sbush /etc/test.sbush'' @ [CHR 0x0A] @ ''ps'' @ [CHR 0x0A, CHR 0x0A]"

text \<open>\<open>main\<close>, up to the endless loop it ends in; a \<open>NULL\<close> environment is \<^const>\<open>None\<close>.\<close>

definition sbush_main ::
    "'s trap \<Rightarrow> char list \<Rightarrow> char list \<Rightarrow> nat \<Rightarrow> char list list \<Rightarrow> char list option \<Rightarrow> shell \<times> 's \<Rightarrow> (shell \<times> 's) option" where
  "sbush_main sys tmp script rounds argv env ss = do {
     let (sh, s) = ss;
     s \<leftarrow> write_str sys (lit welcome_msg) s;
     sh \<leftarrow> (case env of None \<Rightarrow> Some sh
       | Some e \<Rightarrow> do {
           r \<leftarrow> strcmp e (lit ''PATH:'');
           if 0 < r then map_option snd (set_path e sh) else Some sh
         });
     if length argv = 2 then shell_execfile sys tmp script (argv ! 1) (sh, s)
     else if 0 < length argv then shell_init sys tmp script rounds (sh, s)
     else Some (sh, s)
   }"

text \<open>The search path a program would find lacks the slash, so that it does not separate the path from a name.\<close>

lemma set_path_no_slash:
  "map_option (\<lambda>(env, sh). cstr (bin_path sh)) (set_path (lit ''PATH:sbin'' @ [NUL])
     \<lparr>is_background = 0, PS1 = [], PS1_set = 0, bin_path = ''bin/'' @ replicate 252 NUL\<rparr>) = Some (Some ''sbin'')"
  by code_simp

end
