(* ===== verification/Init.thy ===== *)
theory Init
  imports Shell
begin

text \<open>
  The first program, \<^verbatim>\<open>bin/init/init.c\<close>: it starts the programs named in \<^verbatim>\<open>/etc/rc\<close>. Its splitting
  of lines is, word for word, that of the shell. A result \<open>Inl\<close> is the state in which the program
  enters the endless loop of \<open>yield\<close> in \<open>launch_process\<close>, \<open>Inr\<close> that of a return.
\<close>

definition INIT_MAX_LINES :: nat where "INIT_MAX_LINES = 256"

definition launch_process :: "'s trap \<Rightarrow> char list \<Rightarrow> 's \<Rightarrow> ('s + 's) option" where
  "launch_process sys process_name s = do {
     (c_pid, s) \<leftarrow> user_fork sys s;
     if c_pid = 0 then do {
       (r, s) \<leftarrow> execvpe sys process_name (Some [process_name]) s;
       s \<leftarrow> write_str sys (lit (''Command not found'' @ [CHR 0x0A])) s;
       map_option Inr (user_exit sys 0 s)
     }
     else Some (Inl s)
   }"

fun init_lines :: "'s trap \<Rightarrow> int list \<Rightarrow> char list \<Rightarrow> 's \<Rightarrow> ('s + 's) option" where
  "init_lines sys [] b s = Some (Inr s)"
| "init_lines sys (p # ps) b s = do {
     c0 \<leftarrow> buf_read b p;
     if c0 = CHR ''#'' then init_lines sys ps b s
     else do {
       c1 \<leftarrow> buf_read b (p + 1);
       if c1 = CHR ''!'' then init_lines sys ps b s
       else do {
         n \<leftarrow> strlen_at b p;
         if n \<noteq> 0 then do {
           r \<leftarrow> launch_process sys (text_at b p) s;
           case r of Inl s \<Rightarrow> Some (Inl s) | Inr s \<Rightarrow> init_lines sys ps b s
         }
         else init_lines sys ps b s
       }
     }
   }"

definition init_execfile :: "'s trap \<Rightarrow> char list \<Rightarrow> char list \<Rightarrow> 's \<Rightarrow> ('s + 's) option" where
  "init_execfile sys script_file filename s = do {
     c \<leftarrow> buf_read filename 0;
     let filename = (if c = CHR ''/'' then tl filename else filename);
     (fp, s) \<leftarrow> open_path sys filename s;
     if fp < 0 then map_option Inr (write_str sys (lit (''File not found'' @ [CHR 0x0A])) s)
     else do {
       (r, script_file, s) \<leftarrow> read_fd sys fp script_file (of_nat SHELL_BUF_SIZE) s;
       (lines, script_file) \<leftarrow> parse_split INIT_MAX_LINES script_file 0 (CHR 0x0A);
       r \<leftarrow> init_lines sys lines script_file s;
       case r of Inl s \<Rightarrow> Some (Inl s) | Inr s \<Rightarrow> map_option (\<lambda>(r, s). Inr s) (close_fd sys fp s)
     }
   }"

definition init_main :: "'s trap \<Rightarrow> char list \<Rightarrow> 's \<Rightarrow> ('s + 's) option" where
  "init_main sys script_file s = init_execfile sys script_file (lit ''/etc/rc'') s"

text \<open>Only the first program line is ever acted on: its parent process stays in the loop.\<close>

lemma init_starts_one:
  assumes "buf_read b p = Some c0" "c0 \<noteq> CHR ''#''" "buf_read b (p + 1) = Some c1" "c1 \<noteq> CHR ''!''"
    and "strlen_at b p = Some n" "n \<noteq> 0" "user_fork sys s = Some (c_pid, s')" "c_pid \<noteq> 0"
  shows "init_lines sys (p # ps) b s = Some (Inl s')"
  using assms by (simp add: launch_process_def)

end
