(* ===== verification/Kernel_Types.thy ===== *)
theory Kernel_Types
  imports Syscalls
begin

text \<open>
  Well-typedness of the kernel's structures: the tables have their sizes, and every file descriptor of
  every thread is \<open>NULL\<close> or the address of a file object. No system call breaks it.
\<close>

definition thread_typed :: "'a kernel_scheme \<Rightarrow> kthread \<Rightarrow> bool" where
  "thread_typed k t \<longleftrightarrow> length (fds t) = NUM_FDS \<and> length (cwd t) = BUF_SIZE \<and> set (fds t) \<subseteq> insert 0 (dom (fos k))"

definition kernel_typed :: "'a kernel_scheme \<Rightarrow> bool" where
  "kernel_typed k \<longleftrightarrow> length (processes k) = MAX_P \<and> stdin_fo k \<in> insert 0 (dom (fos k)) \<and>
     stdout_fo k \<in> insert 0 (dom (fos k)) \<and> (\<forall>p t. threads k p = Some t \<longrightarrow> thread_typed k t)"

named_theorems typed \<open>operations that keep the structures typed, as destruction rules\<close>

subsection \<open>Memory management\<close>

lemma typed_more: "vm.more k' = vm.more k \<Longrightarrow> kernel_typed (k :: 'a kernel_scheme) \<Longrightarrow> kernel_typed k'"
  by (cases k; cases k') (simp add: kernel_typed_def thread_typed_def)

lemma kwrite_more: "vm.more (kwrite a v s) = vm.more s" by (simp add: kwrite_def)

lemma vstore8_more: "vstore8 va b s = Some s' \<Longrightarrow> vm.more s' = vm.more s"
  by (auto simp: vstore8_def split: if_splits)

lemma set_page_ref_count_more: "set_page_ref_count a r s = Some s' \<Longrightarrow> vm.more s' = vm.more (s :: 'a vm_scheme)"
  by (auto simp: set_page_ref_count_def Let_def split: if_splits)

lemma clear_refs_more: "clear_refs n i s = Some s' \<Longrightarrow> vm.more s' = vm.more (s :: 'a vm_scheme)"
  by (induction i arbitrary: s') (auto simp: bind_Some_iff split: if_splits)

lemma add_back_more: "add_back_free_pages a n s = Some s' \<Longrightarrow> vm.more s' = vm.more (s :: 'a vm_scheme)"
  by (auto simp: add_back_free_pages_def Let_def bind_Some_iff split: if_splits dest!: clear_refs_more)

lemma vmemset_more: "vmemset a v b s = Some s' \<Longrightarrow> vm.more s' = vm.more s"
  by (auto simp: vmemset_def intro: foldM_keeps vstore8_more)

lemma remove_mapping_more: "vm.more (remove_page_table_mapping va s) = vm.more s"
  by (simp add: remove_page_table_mapping_def kwrite_more split: option.splits)

lemma kfree_more: "kfree a s = Some s' \<Longrightarrow> vm.more s' = vm.more s"
  by (auto simp: kfree_def Let_def bind_Some_iff flush_tlb_def update_max_pages_def remove_mapping_more
      split: if_splits dest!: vmemset_more add_back_more)

lemma clean_entry_more:
  "clean_entry f t i s = Some s' \<Longrightarrow> (\<And>a s s'. f a s = Some s' \<Longrightarrow> vm.more s' = vm.more s) \<Longrightarrow> vm.more s' = vm.more s"
  by (auto simp: clean_entry_def Let_def split: if_splits)

lemma clean_pde_more: "clean_pde_table a s = Some s' \<Longrightarrow> vm.more s' = vm.more s"
  using foldM_keeps [where f = "clean_entry kfree a" and m = vm.more, OF _ clean_entry_more [OF _ kfree_more]]
  by (auto simp: clean_pde_table_def bind_Some_iff dest!: kfree_more)

lemma clean_pdpe_more: "clean_pdpe_table a s = Some s' \<Longrightarrow> vm.more s' = vm.more s"
  using foldM_keeps [where f = "clean_entry clean_pde_table a" and m = vm.more, OF _ clean_entry_more [OF _ clean_pde_more]]
  by (auto simp: clean_pdpe_table_def bind_Some_iff dest!: kfree_more)

lemma clean_page_tables_more: "clean_page_tables r s = Some s' \<Longrightarrow> vm.more s' = vm.more s"
  using foldM_keeps [where f = "clean_entry clean_pdpe_table b" and m = vm.more for b, OF _ clean_entry_more [OF _ clean_pdpe_more]]
  by (fastforce simp: clean_page_tables_def Let_def bind_Some_iff dest!: kfree_more)

lemma setup_user_page_tables_more: "setup_user_page_tables s = Some (r, s') \<Longrightarrow> vm.more s' = vm.more s"
  by (auto simp: setup_user_page_tables_def Let_def bind_Some_iff kwrite_more get_free_page_more)

lemma cow_leaf_more: "cow_leaf a b l s = Some s' \<Longrightarrow> vm.more s' = vm.more s"
  by (auto simp: cow_leaf_def Let_def bind_Some_iff kwrite_more split: if_splits dest!: set_page_ref_count_more)

lemma cow_entry_more:
  "cow_entry f a b i s = Some s' \<Longrightarrow> (\<And>a b s s'. f a b s = Some s' \<Longrightarrow> vm.more s' = vm.more s) \<Longrightarrow> vm.more s' = vm.more s"
  by (fastforce simp: cow_entry_def Let_def bind_Some_iff kwrite_more split: if_splits dest: get_free_page_more)

lemma cow_pte_more: "cow_pte_table a b s = Some s' \<Longrightarrow> vm.more s' = vm.more s"
  unfolding cow_pte_table_def by (rule foldM_keeps [where m = vm.more, OF _ cow_leaf_more])

lemma cow_pde_more: "cow_pde_table a b s = Some s' \<Longrightarrow> vm.more s' = vm.more s"
  unfolding cow_pde_table_def by (rule foldM_keeps [where m = vm.more, OF _ cow_entry_more [OF _ cow_pte_more]])

lemma cow_pdpe_more: "cow_pdpe_table a b s = Some s' \<Longrightarrow> vm.more s' = vm.more s"
  unfolding cow_pdpe_table_def by (rule foldM_keeps [where m = vm.more, OF _ cow_entry_more [OF _ cow_pde_more]])

lemma cow_page_tables_more: "cow_page_tables s = Some (r, s') \<Longrightarrow> vm.more s' = vm.more s"
  using foldM_keeps [where f = "cow_entry cow_pdpe_table a b" and m = vm.more for a b, OF _ cow_entry_more [OF _ cow_pdpe_more]]
  by (fastforce simp: cow_page_tables_def Let_def bind_Some_iff kwrite_more dest!: get_free_page_more)

lemma set_new_cr3_typed [simp]: "kernel_typed (set_new_cr3 c k) = kernel_typed k"
  by (simp add: set_new_cr3_def kernel_typed_def thread_typed_def)

lemmas more_typed [typed] =
  typed_more [OF get_free_page_more] typed_more [OF update_page_tables_more] typed_more [OF kmalloc_more]
  typed_more [OF kfree_more] typed_more [OF clean_page_tables_more] typed_more [OF setup_user_page_tables_more]
  typed_more [OF cow_page_tables_more] typed_more [OF vstore8_more]

subsection \<open>Accesses through pointers\<close>

lemma con_typed [simp]: "kernel_typed (k\<lparr>con := c\<rparr>) = kernel_typed k"
  by (simp add: kernel_typed_def thread_typed_def)

lemma other_typed [simp]:
  "kernel_typed (k\<lparr>current_process := p\<rparr>) = kernel_typed k" "kernel_typed (k\<lparr>tarfs_impl := p\<rparr>) = kernel_typed k"
  "kernel_typed (k\<lparr>dirs := d\<rparr>) = kernel_typed k" "kernel_typed (k\<lparr>sleep_val := v\<rparr>) = kernel_typed k"
  "kernel_typed (k\<lparr>tss_rsp0 := r\<rparr>) = kernel_typed k"
  "kernel_typed (k\<lparr>processes := (processes k)[i := x]\<rparr>) = kernel_typed k"
  by (simp_all add: kernel_typed_def thread_typed_def)

lemma kputs_typed [typed]: "kputs fmt args k = Some k' \<Longrightarrow> kernel_typed k \<Longrightarrow> kernel_typed k'"
  by (auto simp: kputs_def on_con_def)

lemma keeps_typed:
  assumes "kernel_typed k" "length (processes k') = length (processes k)" "stdin_fo k' = stdin_fo k" "stdout_fo k' = stdout_fo k"
    and d: "dom (fos k) \<subseteq> dom (fos k')" and t: "\<And>p t. threads k' p = Some t \<Longrightarrow> threads k p = Some t \<or> thread_typed k' t"
  shows "kernel_typed k'"
proof -
  have "thread_typed k' t" if "thread_typed k t" for t using that d by (force simp: thread_typed_def)
  then show ?thesis using assms(1-4) d t by (fastforce simp: kernel_typed_def)
qed

lemma upd_vma_typed [typed]: "upd_vma p f k = Some k' \<Longrightarrow> kernel_typed k \<Longrightarrow> kernel_typed k'"
  by (rule keeps_typed [of k]) (auto simp: upd_vma_def)

lemma upd_mm_typed [typed]: "upd_mm p f k = Some k' \<Longrightarrow> kernel_typed k \<Longrightarrow> kernel_typed k'"
  by (rule keeps_typed [of k]) (auto simp: upd_mm_def)

lemma upd_fo_typed [typed]: "upd_fo p f k = Some k' \<Longrightarrow> kernel_typed k \<Longrightarrow> kernel_typed k'"
  by (rule keeps_typed [of k]) (auto simp: upd_fo_def)

lemma upd_thread_typed:
  assumes "upd_thread p f k = Some k'" "kernel_typed k"
    and f: "\<And>t. threads k p = Some t \<Longrightarrow> thread_typed k t \<Longrightarrow> thread_typed k (f t)"
  shows "kernel_typed k'"
proof (rule keeps_typed [OF assms(2)])
  fix q t assume t: "threads k' q = Some t"
  obtain t0 where t0: "threads k p = Some t0" "k' = k\<lparr>threads := (threads k)(p \<mapsto> f t0)\<rparr>"
    using assms(1) by (auto simp: upd_thread_def)
  have "thread_typed k (f t0)" using f [OF t0(1)] assms(2) t0(1) by (auto simp: kernel_typed_def)
  then show "threads k q = Some t \<or> thread_typed k' t" using t t0 by (auto simp: thread_typed_def split: if_splits)
qed (use assms(1) in \<open>auto simp: upd_thread_def\<close>)

text \<open>The updates that touch neither the descriptors nor the directory.\<close>

lemma upd_thread_other [typed]:
  "upd_thread p f k = Some k' \<Longrightarrow> kernel_typed k \<Longrightarrow> (\<And>t. fds (f t) = fds t \<and> cwd (f t) = cwd t) \<Longrightarrow> kernel_typed k'"
  by (erule upd_thread_typed) (auto simp: thread_typed_def)

lemma alloc_vma_typed [typed]: "alloc_vma k = Some (p, k') \<Longrightarrow> kernel_typed k \<Longrightarrow> kernel_typed k'"
  by (auto simp: alloc_vma_def dest!: more_typed intro: keeps_typed)

lemma alloc_mm_typed [typed]: "alloc_mm k = Some (p, k') \<Longrightarrow> kernel_typed k \<Longrightarrow> kernel_typed k'"
  by (auto simp: alloc_mm_def dest!: more_typed intro: keeps_typed)

lemma alloc_fo_typed:
  assumes "alloc_fo k = Some (p, k')" "kernel_typed k"
  shows "kernel_typed k' \<and> p \<in> dom (fos k') \<and> threads k' = threads k"
proof -
  obtain b where b: "kmalloc 40 k = Some (p, b)" "k' = b\<lparr>fos := (fos b)(p \<mapsto> fo_zero)\<rparr>"
    using assms(1) by (auto simp: alloc_fo_def)
  have "kernel_typed b" using more_typed(3) [OF b(1) assms(2)] .
  then have "kernel_typed k'" by (rule keeps_typed) (auto simp: b(2))
  then show ?thesis using kernel_more [OF kmalloc_more [OF b(1)]] by (simp add: b(2))
qed

lemma alloc_thread_typed:
  assumes "alloc_thread k = Some (p, k')" "kernel_typed k"
  shows "kernel_typed k' \<and> fos k' = fos k"
proof -
  obtain b where b: "kmalloc 33096 k = Some (p, b)" "k' = b\<lparr>threads := (threads b)(p \<mapsto> kthread_zero)\<rparr>"
    using assms(1) by (auto simp: alloc_thread_def)
  have "thread_typed k' kthread_zero" by (auto simp: thread_typed_def kthread_zero_def)
  then have "kernel_typed k'"
    by (intro keeps_typed [OF more_typed(3) [OF b(1) assms(2)]]) (auto simp: b(2) split: if_splits)
  then show ?thesis using kernel_more [OF kmalloc_more [OF b(1)]] by (simp add: b(2))
qed

lemma alloc_thread_typed1 [typed]: "alloc_thread k = Some (p, k') \<Longrightarrow> kernel_typed k \<Longrightarrow> kernel_typed k'"
  using alloc_thread_typed by blast

subsection \<open>Processes\<close>

lemma getPID_typed [simp]: "kernel_typed (snd (getPID k)) = kernel_typed k" "fos (snd (getPID k)) = fos k"
  by (auto simp: getPID_def split: option.splits)

lemma create_terminal_fo_typed:
  assumes "create_terminal_fo n k = Some (fo, k')" "kernel_typed k"
  shows "kernel_typed k' \<and> fo \<in> dom (fos k') \<and> threads k' = threads k"
proof -
  obtain k1 where k1: "alloc_fo k = Some (fo, k1)"
    "upd_fo fo (\<lambda>f. f\<lparr>file_path := n, fo_offset := 0, fo_impl := Some TERMINAL_FS, fo_ref_count := 0\<rparr>) k1 = Some k'"
    using assms(1) by (auto simp: create_terminal_fo_def bind_Some_iff)
  with alloc_fo_typed [OF k1(1) assms(2)] upd_fo_typed [OF k1(2)] show ?thesis by (auto simp: upd_fo_def)
qed

lemma std_fo_typed:
  "kernel_typed k \<Longrightarrow> i \<in> insert 0 (dom (fos k)) \<Longrightarrow> kernel_typed (k\<lparr>stdin_fo := i\<rparr>)"
  "kernel_typed k \<Longrightarrow> i \<in> insert 0 (dom (fos k)) \<Longrightarrow> kernel_typed (k\<lparr>stdout_fo := i\<rparr>)"
  by (simp_all add: kernel_typed_def thread_typed_def)

lemma get_std_fo_typed:
  "get_stdin_fo k = Some (i, k') \<Longrightarrow> kernel_typed k \<Longrightarrow> kernel_typed k' \<and> i \<in> insert 0 (dom (fos k'))"
  "get_stdout_fo k = Some (i, k') \<Longrightarrow> kernel_typed k \<Longrightarrow> kernel_typed k' \<and> i \<in> insert 0 (dom (fos k'))"
proof -
  show "kernel_typed k' \<and> i \<in> insert 0 (dom (fos k'))" if g: "get_stdin_fo k = Some (i, k')" and ty: "kernel_typed k"
  proof (cases "stdin_fo k = 0")
    case True
    then obtain b where "create_terminal_fo 0 k = Some (i, b)" "k' = b\<lparr>stdin_fo := i\<rparr>"
      using g by (auto simp: get_stdin_fo_def bind_Some_iff)
    with create_terminal_fo_typed [OF this(1) ty] std_fo_typed(1) [of b i] show ?thesis by simp
  qed (use g ty in \<open>auto simp: get_stdin_fo_def kernel_typed_def\<close>)
  show "kernel_typed k' \<and> i \<in> insert 0 (dom (fos k'))" if g: "get_stdout_fo k = Some (i, k')" and ty: "kernel_typed k"
  proof (cases "stdout_fo k = 0")
    case True
    then obtain b where "create_terminal_fo 0 k = Some (i, b)" "k' = b\<lparr>stdout_fo := i\<rparr>"
      using g by (auto simp: get_stdout_fo_def bind_Some_iff)
    with create_terminal_fo_typed [OF this(1) ty] std_fo_typed(2) [of b i] show ?thesis by simp
  qed (use g ty in \<open>auto simp: get_stdout_fo_def kernel_typed_def\<close>)
qed

lemma set_fds_typed:
  assumes "upd_thread p (\<lambda>t. t\<lparr>fds := g (fds t)\<rparr>) k = Some k'" "kernel_typed k"
    and "\<And>xs. length (g xs) = length xs" "\<And>xs. set (g xs) \<subseteq> insert i (set xs)" "i \<in> insert 0 (dom (fos k))"
  shows "kernel_typed k'"
  using assms(1,2)
proof (rule upd_thread_typed)
  fix t assume "thread_typed k t"
  then show "thread_typed k (t\<lparr>fds := g (fds t)\<rparr>)" using assms(3-5) by (force simp: thread_typed_def)
qed

lemma set_std_fds_typed [typed]:
  assumes "set_std_fds p k = Some k'" "kernel_typed k"
  shows "kernel_typed k'"
proof -
  obtain i k1 k2 k3 out k4 k5 where s: "get_stdin_fo k = Some (i, k1)"
    "upd_fo i (\<lambda>f. f\<lparr>fo_ref_count := fo_ref_count f + 1\<rparr>) k1 = Some k2"
    "upd_thread p (\<lambda>t. t\<lparr>fds := (fds t)[0 := i]\<rparr>) k2 = Some k3" "get_stdout_fo k3 = Some (out, k4)"
    "upd_fo out (\<lambda>f. f\<lparr>fo_ref_count := fo_ref_count f + 1\<rparr>) k4 = Some k5"
    "upd_thread p (\<lambda>t. t\<lparr>fds := (fds t)[1 := out, 2 := out]\<rparr>) k5 = Some k'"
    using assms(1) by (auto simp: set_std_fds_def bind_Some_iff)
  have d: "upd_fo q f k = Some k' \<Longrightarrow> dom (fos k') = dom (fos k)" for q f and k k' :: "'a kernel_scheme"
    by (auto simp: upd_fo_def split: if_splits)
  have k2: "kernel_typed k2" "i \<in> insert 0 (dom (fos k2))"
    using get_std_fo_typed(1) [OF s(1) assms(2)] upd_fo_typed [OF s(2)] d [OF s(2)] by auto
  have k3: "kernel_typed k3" by (rule set_fds_typed [OF s(3) k2(1), where i = i]) (use k2(2) in \<open>auto dest: set_update_subset_insert [THEN subsetD]\<close>)
  have k5: "kernel_typed k5" "out \<in> insert 0 (dom (fos k5))"
    using get_std_fo_typed(2) [OF s(4) k3] upd_fo_typed [OF s(5)] d [OF s(5)] by auto
  show ?thesis
    by (rule set_fds_typed [OF s(6) k5(1), where i = out]) (use k5(2) in \<open>auto dest!: set_update_subset_insert [THEN subsetD]\<close>)
qed


lemma link_vma_typed [typed]: "link_vma v mi k = Some (mi', k') \<Longrightarrow> kernel_typed k \<Longrightarrow> kernel_typed k'"
  by (auto simp: link_vma_def split: if_splits dest: typed)

lemma foldM_typed:
  assumes "foldM f xs a = Some a'" "P a" "\<And>x a a'. f x a = Some a' \<Longrightarrow> P a \<Longrightarrow> P a'"
  shows "P a'"
  using assms(1,2) by (induction xs arbitrary: a) (auto simp: bind_Some_iff dest: assms(3))

lemma map_user_page_typed: "map_user_page i vk = Some vk' \<Longrightarrow> kernel_typed (snd vk) \<Longrightarrow> kernel_typed (snd vk')"
  by (auto simp: map_user_page_def bind_Some_iff Let_def split: prod.splits dest!: more_typed)

lemma copy_segment_typed [typed]: "copy_segment d s b k = Some k' \<Longrightarrow> kernel_typed k \<Longrightarrow> kernel_typed k'"
  unfolding copy_segment_def by (erule foldM_typed) (auto split: if_splits dest: more_typed)

lemma load_segment_typed:
  assumes "load_segment e ph mik = Some mik'" "kernel_typed (snd mik)"
  shows "kernel_typed (snd mik')"
proof (cases "p_type ph = 1")
  case True
  note fold = foldM_typed [where f = map_user_page and P = "\<lambda>vk. kernel_typed (snd vk)", OF _ _ map_user_page_typed]
  show ?thesis using assms True
    by (cases mik') (auto simp: load_segment_def Let_def bind_Some_iff split: prod.splits if_splits dest!: typed dest: fold)
qed (use assms in \<open>auto simp: load_segment_def split: prod.splits\<close>)


lemma load_segments_typed:
  "load_segments e p n mik = Some mik' \<Longrightarrow> kernel_typed (snd mik) \<Longrightarrow> kernel_typed (snd mik')"
  unfolding load_segments_def
  by (erule foldM_typed [where P = "\<lambda>mik. kernel_typed (snd mik)"]) (auto simp: bind_Some_iff dest!: load_segment_typed)

lemma load_heap_stack_typed:
  assumes "load_heap_stack n mik = Some k'" "kernel_typed (snd mik)"
  shows "kernel_typed k'"
  using assms by (cases mik) (auto simp: load_heap_stack_def Let_def bind_Some_iff dest!: typed)

lemma load_file_typed [typed]:
  assumes "load_file n f k = Some (r, k')" "kernel_typed k"
  shows "kernel_typed k'"
  using assms
  by (auto simp: load_file_def bind_Some_iff split: option.splits dest!: upd_thread_other load_segments_typed load_heap_stack_typed)

lemma length_copy_loop: "copy_loop s t = Some s' \<Longrightarrow> length s' = length s"
  by (induction s t arbitrary: s' rule: copy_loop.induct) (auto split: if_splits)

lemma dir_of_length: "dir_of f = Some d \<Longrightarrow> length d \<le> length f"
  using length_dropWhile_le [of _ "rev f"] by (auto simp: dir_of_def split: if_splits)

lemma set_cwd_typed:
  assumes "upd_thread p (\<lambda>t. t\<lparr>cwd := g (cwd t)\<rparr>) k = Some k'" "kernel_typed k"
    and "\<And>c. length c = BUF_SIZE \<Longrightarrow> length (g c) = BUF_SIZE"
  shows "kernel_typed k'"
  using assms(1,2) by (rule upd_thread_typed) (use assms(3) in \<open>auto simp: thread_typed_def\<close>)

lemma set_dir_typed:
  assumes "upd_thread p (\<lambda>t. t\<lparr>cwd := d @ NUL # drop (Suc (length d)) (cwd t)\<rparr>) k = Some k'" "kernel_typed k"
    and "dir_of t = Some d" "length t < BUF_SIZE"
  shows "kernel_typed k'"
  using assms(1,2) by (rule set_cwd_typed) (use dir_of_length [OF assms(3)] assms(4) in simp)

lemma create_process_typed [typed]:
  assumes "create_process f k = Some (new, k')" "kernel_typed k"
  shows "kernel_typed k'"
  using assms
  by (clarsimp simp: create_process_def bind_Some_iff Let_def case_prod_beta split: if_splits)
    (assumption | erule typed set_dir_typed | simp)+

lemma reap_process_typed [typed]: "reap_process p k = Some k' \<Longrightarrow> kernel_typed k \<Longrightarrow> kernel_typed k'"
  by (auto simp: reap_process_def bind_Some_iff split: if_splits dest!: typed)

lemma wait_all_loop_typed:
  assumes "wait_all_loop it prev k = Some k'" "kernel_typed k"
  shows "kernel_typed k'"
proof -
  have "kernel_typed k \<longrightarrow> kernel_typed k'"
    by (rule wait_all_loop.raw_induct [where P = "\<lambda>it prev k k'. kernel_typed k \<longrightarrow> kernel_typed k'", OF _ assms(1)])
      (auto simp: bind_Some_iff split: if_splits dest!: reap_process_typed)
  with assms(2) show ?thesis by simp
qed

lemma switch_process_typed: "switch_process k = Some k' \<Longrightarrow> kernel_typed k \<Longrightarrow> kernel_typed k'"
  by (auto simp: switch_process_def set_tss_rsp_def switch_to_def Let_def bind_Some_iff
      split: if_splits dest!: kputs_typed create_process_typed upd_thread_other)

lemma scheduler_typed [typed]: "scheduler k = Some k' \<Longrightarrow> kernel_typed k \<Longrightarrow> kernel_typed k'"
  by (auto simp: scheduler_def wait_all_def bind_Some_iff dest!: wait_all_loop_typed switch_process_typed)

lemma wait_scan_typed:
  assumes "wait_scan w it c k = Some (r, k')" "kernel_typed k"
  shows "kernel_typed k'"
proof -
  have "kernel_typed k \<longrightarrow> kernel_typed (snd (r, k'))"
    by (rule wait_scan.raw_induct [where P = "\<lambda>w it c k rk. kernel_typed k \<longrightarrow> kernel_typed (snd rk)", OF _ assms(1)])
      (auto simp: bind_Some_iff split: if_splits dest!: reap_process_typed)
  with assms(2) show ?thesis by simp
qed

lemma wait_loop_typed:
  assumes "wait_loop w os me it k = Some (r, k')" "kernel_typed k"
    and os: "\<And>k k'. os k = Some k' \<Longrightarrow> kernel_typed k \<Longrightarrow> kernel_typed k'"
  shows "kernel_typed k'"
proof -
  have "os = os' \<longrightarrow> kernel_typed k \<longrightarrow> kernel_typed (snd (r, k'))" if "os' = os" for os'
  proof (rule wait_loop.raw_induct [where P = "\<lambda>w os me it k rk. os = os' \<longrightarrow> kernel_typed k \<longrightarrow> kernel_typed (snd rk)", OF _ assms(1)])
    fix f w os1 me it k and rk :: "int \<times> 'a kernel_scheme"
    assume ih: "\<And>w os1 me it k rk. f w os1 me it k = Some rk \<Longrightarrow> os1 = os' \<longrightarrow> kernel_typed k \<longrightarrow> kernel_typed (snd rk)"
      and b: "Option.bind (wait_scan w it False k) (\<lambda>(r, k). case r of Inl p \<Rightarrow> Some (p, k)
        | Inr c \<Rightarrow> if c then Option.bind (scheduler k) (\<lambda>k. Option.bind (os1 k) (f w os1 me me)) else Some (- 1, k)) = Some rk"
    obtain r k1 where s: "wait_scan w it False k = Some (r, k1)" using b by (auto simp: bind_Some_iff)
    show "os1 = os' \<longrightarrow> kernel_typed k \<longrightarrow> kernel_typed (snd rk)"
    proof (intro impI)
      assume e: "os1 = os'" and "kernel_typed k"
      then have t1: "kernel_typed k1" using wait_scan_typed [OF s] by blast
      show "kernel_typed (snd rk)"
      proof (cases r)
        case (Inr c)
        show ?thesis
        proof (cases c)
          case True
          then obtain z za where z: "scheduler k1 = Some z" "os1 z = Some za" "f w os1 me me za = Some rk"
            using b s Inr by (auto simp: bind_Some_iff)
          have "kernel_typed za" using os [of z za] z(2) scheduler_typed [OF z(1) t1] e that by simp
          then show ?thesis using ih [OF z(3)] e by simp
        qed (use b s t1 Inr in auto)
      qed (use b s t1 in auto)
    qed
  qed
  with assms(2) show ?thesis by auto
qed

lemma map_range_typed [typed]:
  assumes "map_range a e k = Some k'" "kernel_typed k"
  shows "kernel_typed k'"
proof -
  have "kernel_typed k \<longrightarrow> kernel_typed k'"
    by (rule map_range.raw_induct [where P = "\<lambda>a e k k'. kernel_typed k \<longrightarrow> kernel_typed k'", OF _ assms(1)])
      (auto simp: bind_Some_iff split: if_splits dest!: more_typed)
  with assms(2) show ?thesis by simp
qed

lemma free_range_typed [typed]:
  assumes "free_range a e k = Some k'" "kernel_typed k"
  shows "kernel_typed k'"
proof -
  have "kernel_typed k \<longrightarrow> kernel_typed k'"
    by (rule free_range.raw_induct [where P = "\<lambda>a e k k'. kernel_typed k \<longrightarrow> kernel_typed k'", OF _ assms(1)])
      (auto simp: bind_Some_iff split: if_splits dest!: more_typed)
  with assms(2) show ?thesis by simp
qed

lemma user_free_loop_typed [typed]:
  assumes "user_free_loop a it k = Some k'" "kernel_typed k"
  shows "kernel_typed k'"
proof -
  have "kernel_typed k \<longrightarrow> kernel_typed k'"
    by (rule user_free_loop.raw_induct [where P = "\<lambda>a it k k'. kernel_typed k \<longrightarrow> kernel_typed k'", OF _ assms(1)])
      (auto simp: bind_Some_iff split: if_splits dest!: free_range_typed)
  with assms(2) show ?thesis by simp
qed

lemma user_malloc_typed [typed]:
  assumes "user_malloc b k = Some (a, k')" "kernel_typed k"
  shows "kernel_typed k'"
  using assms by (clarsimp simp: user_malloc_def bind_Some_iff Let_def) (assumption | erule typed)+

lemma user_free_typed [typed]:
  assumes "user_free a k = Some k'" "kernel_typed k"
  shows "kernel_typed k'"
  using assms by (clarsimp simp: user_free_def bind_Some_iff) (assumption | erule typed)+

lemma ch_dir_typed [typed]:
  assumes "ch_dir f k = Some (r, k')" "kernel_typed k"
  shows "kernel_typed k'"
proof -
  have "kernel_typed k'" if "threads k (current_process k) = Some t" "copy_loop (cwd t) f = Some c"
    "upd_thread (current_process k) (\<lambda>t. t\<lparr>cwd := c\<rparr>) k = Some k'" for t c
    using that(3) assms(2)
    by (rule upd_thread_typed) (use length_copy_loop [OF that(2)] that(1) in \<open>auto simp: thread_typed_def\<close>)
  with assms show ?thesis by (auto simp: ch_dir_def bind_Some_iff split: if_splits)
qed

lemma copy_vmas_typed [typed]:
  assumes "copy_vmas p st mi k = Some (r, k')" "kernel_typed k"
  shows "kernel_typed k'"
proof -
  have "kernel_typed k \<longrightarrow> kernel_typed (snd (r, k'))"
    by (rule copy_vmas.raw_induct [where P = "\<lambda>p st mi k rk. kernel_typed k \<longrightarrow> kernel_typed (snd rk)", OF _ assms(1)])
      (auto simp: bind_Some_iff split: if_splits dest!: alloc_vma_typed upd_vma_typed link_vma_typed)
  with assms(2) show ?thesis by simp
qed

lemma copy_heap_vmas_typed [typed]:
  assumes "copy_heap_vmas p mi k = Some (r, k')" "kernel_typed k"
  shows "kernel_typed k'"
proof -
  have "kernel_typed k \<longrightarrow> kernel_typed (snd (r, k'))"
    by (rule copy_heap_vmas.raw_induct [where P = "\<lambda>p mi k rk. kernel_typed k \<longrightarrow> kernel_typed (snd rk)", OF _ assms(1)])
      (auto simp: bind_Some_iff split: if_splits dest!: alloc_vma_typed upd_vma_typed link_vma_typed)
  with assms(2) show ?thesis by simp
qed

lemma copy_mm_typed [typed]:
  assumes "copy_mm c p k = Some k'" "kernel_typed k"
  shows "kernel_typed k'"
  using assms by (clarsimp simp: copy_mm_def bind_Some_iff) (assumption | erule typed | simp)+

lemma copy_thread_typed:
  assumes "upd_thread p (\<lambda>t. t\<lparr>rsp_user := a, pid := b, ppid := c, process_mm := d, t_next := e, num_child := g, cwd := cwd pt\<rparr>) k = Some k'"
    and "kernel_typed k" "length (cwd pt) = BUF_SIZE"
  shows "kernel_typed k'"
  using assms(1,2) by (rule upd_thread_typed) (use assms(3) in \<open>auto simp: thread_typed_def\<close>)

lemma typed_cwd: "threads k p = Some t \<Longrightarrow> kernel_typed k \<Longrightarrow> length (cwd t) = BUF_SIZE"
  by (auto simp: kernel_typed_def thread_typed_def)

lemma copy_process_typed [typed]:
  assumes "copy_process p k = Some (c, k')" "kernel_typed k"
  shows "kernel_typed k'"
  using assms
  by (clarsimp simp: copy_process_def bind_Some_iff Let_def case_prod_beta)
    (assumption | erule copy_thread_typed | erule typed | erule typed_cwd | simp)+

lemma fork_typed [typed]:
  assumes "fork k = Some (r, k')" "kernel_typed k"
  shows "kernel_typed k'"
  using assms by (clarsimp simp: fork_def bind_Some_iff Let_def) (assumption | erule typed | simp)+

lemma orphan_typed [typed]:
  assumes "orphan c p it k = Some k'" "kernel_typed k"
  shows "kernel_typed k'"
proof -
  have "kernel_typed k \<longrightarrow> kernel_typed k'"
    by (rule orphan.raw_induct [where P = "\<lambda>c p it k k'. kernel_typed k \<longrightarrow> kernel_typed k'", OF _ assms(1)])
      (auto simp: bind_Some_iff split: if_splits dest!: upd_thread_other)
  with assms(2) show ?thesis by simp
qed

lemma cleanup_vmas_typed [typed]:
  assumes "cleanup_vmas v k = Some k'" "kernel_typed k"
  shows "kernel_typed k'"
proof -
  have "kernel_typed k \<longrightarrow> kernel_typed k'"
    by (rule cleanup_vmas.raw_induct [where P = "\<lambda>v k k'. kernel_typed k \<longrightarrow> kernel_typed k'", OF _ assms(1)])
      (clarsimp simp: bind_Some_iff split: if_splits; metis free_range_typed more_typed(4))
  with assms(2) show ?thesis by simp
qed

lemma shallow_cleanup_typed [typed]:
  assumes "shallow_cleanup p k = Some k'" "kernel_typed k"
  shows "kernel_typed k'"
  using assms by (clarsimp simp: shallow_cleanup_def bind_Some_iff) (assumption | erule typed | simp)+

lemma kill_process_typed [typed]:
  assumes "kill_process p k = Some k'" "kernel_typed k"
  shows "kernel_typed k'"
proof -
  obtain t where t: "threads k p = Some t" using assms(1) by (auto simp: kill_process_def bind_Some_iff)
  show ?thesis
  proof (cases "t_next t = p")
    case True
    then show ?thesis using assms t by (auto simp: kill_process_def dest: kputs_typed)
  next
    case False
    then show ?thesis using assms t
      by (clarsimp simp: kill_process_def bind_Some_iff) (assumption | erule typed | simp)+
  qed
qed

lemma kill_kern_typed [typed]:
  assumes "kill_kern p k = Some (r, k')" "kernel_typed k"
  shows "kernel_typed k'"
  using assms by (auto simp: kill_kern_def bind_Some_iff split: if_splits dest!: kputs_typed kill_process_typed)

lemma exit_current_process_typed [typed]: "exit_current_process s k = Some k' \<Longrightarrow> kernel_typed k \<Longrightarrow> kernel_typed k'"
  by (auto simp: exit_current_process_def bind_Some_iff dest!: kill_process_typed scheduler_typed)

subsection \<open>Replacing the program\<close>

lemma vstore64_typed: "vstore64 va v k = Some k' \<Longrightarrow> kernel_typed k \<Longrightarrow> kernel_typed k'"
  unfolding vstore64_def by (erule foldM_typed) (auto dest: more_typed)

lemma push_args_typed [typed]:
  assumes "push_args n st k = Some (p, k')" "kernel_typed k"
  shows "kernel_typed k'"
proof -
  obtain k1 where k1: "store_bytes (STACK_START + 4096 - 16 - of_nat (MAX_ARGS * BUF_SIZE)) st k = Some k1"
    "foldM (\<lambda>i. vstore64 (STACK_START + 4096 - 16 - of_nat (MAX_ARGS * BUF_SIZE) - 8 * of_nat i)
       (STACK_START + 4096 - 16 - of_nat (MAX_ARGS * BUF_SIZE) + of_nat BUF_SIZE * of_nat (n - i))) (rev [1..<n + 1]) k1 = Some k'"
    using assms(1) by (auto simp: push_args_def Let_def bind_Some_iff)
  have "kernel_typed k1" using k1(1) assms(2) unfolding store_bytes_def
    by (rule foldM_typed [where P = kernel_typed]) (auto dest: more_typed)
  with k1(2) show ?thesis by (rule foldM_typed [where P = kernel_typed]) (rule vstore64_typed)
qed

lemma replace_current_typed [typed]:
  assumes "replace_current n k = Some k'" "kernel_typed k"
  shows "kernel_typed k'"
  using assms by (clarsimp simp: replace_current_def bind_Some_iff) (assumption | erule typed | simp)+

lemma go_to_ring3_exec_typed [typed]: "go_to_ring3_exec k = Some k' \<Longrightarrow> kernel_typed k \<Longrightarrow> kernel_typed k'"
  by (auto simp: go_to_ring3_exec_def set_tss_rsp_def bind_Some_iff)

lemma exec_thread_typed:
  assumes "upd_thread p (\<lambda>t. t\<lparr>pid := a, ppid := b, t_next := c, num_child := d,
      fds := (fds t)[0 := fds ct ! 0, 1 := fds ct ! 1, 2 := fds ct ! 2], cwd := cwd ct\<rparr>) k = Some k'"
    and "kernel_typed k" "thread_typed k ct"
  shows "kernel_typed k'"
  using assms(1,2)
proof (rule upd_thread_typed)
  fix t assume t: "thread_typed k t"
  have "fds ct ! i \<in> insert 0 (dom (fos k))" if "i < 3" for i
  proof -
    have "fds ct ! i \<in> set (fds ct)" using assms(3) that by (simp add: thread_typed_def NUM_FDS_def)
    with assms(3) show ?thesis unfolding thread_typed_def by blast
  qed
  then have "set ((fds t)[0 := fds ct ! 0, 1 := fds ct ! 1, 2 := fds ct ! 2]) \<subseteq> insert 0 (dom (fos k))"
    using t by (intro set_update_subsetI) (simp_all add: thread_typed_def)
  then show "thread_typed k (t\<lparr>pid := a, ppid := b, t_next := c, num_child := d,
      fds := (fds t)[0 := fds ct ! 0, 1 := fds ct ! 1, 2 := fds ct ! 2], cwd := cwd ct\<rparr>)"
    using t assms(3) by (simp add: thread_typed_def)
qed

lemma exec_vpe_typed [typed]:
  assumes "exec_vpe f argv k = Some (r, k')" "kernel_typed k"
  shows "kernel_typed k'"
proof (cases "get_file_binary (tarfs k) f = Some None")
  case True
  then show ?thesis using assms by (simp add: exec_vpe_def)
next
  case False
  have c: "thread_typed k1 ct" if "threads k (current_process k) = Some ct" "alloc_thread k = Some (n, k1)" for ct n k1
    using that assms(2) alloc_thread_typed [OF that(2) assms(2)] by (auto simp: kernel_typed_def thread_typed_def)
  obtain l t where e: "get_file_binary (tarfs k) f = Some (Some l)" "cstr f = Some t" "length t < BUF_SIZE"
    using assms(1) False by (auto simp: exec_vpe_def bind_Some_iff split: if_split_asm)
  from assms show ?thesis
    by (clarsimp simp: exec_vpe_def bind_Some_iff Let_def e)
      (assumption | erule exec_thread_typed [unfolded One_nat_def] | erule typed | erule c | simp)+
qed

subsection \<open>System calls\<close>

lemma fail_with_typed: "fail_with m a k = Some (r, k') \<Longrightarrow> kernel_typed k \<Longrightarrow> kernel_typed k'"
  by (auto simp: fail_with_def dest: kputs_typed)

lemma sys_write_typed: "sys_write fd b n k = Some (r, k') \<Longrightarrow> kernel_typed k \<Longrightarrow> kernel_typed k'"
  by (auto simp: sys_write_def Let_def bind_Some_iff dest: fail_with_typed
      split: if_split_asm option.split_asm file_sys_impl.split_asm)
    (metis (full_types) file_sys_impl.exhaust con_typed fail_with_typed)

lemma read_object_typed: "read_object ev f i b n k = Some (r, b', k') \<Longrightarrow> kernel_typed k \<Longrightarrow> kernel_typed k'"
  by (auto simp: read_object_def split: file_sys_impl.splits)

lemma sys_read_typed: "sys_read ev fd b n k = Some (r, k') \<Longrightarrow> kernel_typed k \<Longrightarrow> kernel_typed k'"
  by (auto simp: sys_read_def Let_def bind_Some_iff dest: fail_with_typed read_object_typed upd_fo_typed
      split: if_split_asm option.split_asm)

lemma get_tarfs_impl_typed:
  "get_tarfs_impl k = Some (i, k') \<Longrightarrow> kernel_typed k \<Longrightarrow> kernel_typed k' \<and> fos k' = fos k"
  by (auto simp: get_tarfs_impl_def kernel_more [OF kmalloc_more] split: if_splits dest: more_typed)

lemma sys_open_typed:
  assumes "sys_open a n k = Some (r, k')" "kernel_typed k"
  shows "kernel_typed k'"
proof -
  have "kernel_typed k'"
    if "alloc_fo k = Some (fo, k1)" "upd_fo fo f k1 = Some k2" "get_tarfs_impl k2 = Some (i, k3)" "upd_fo fo g k3 = Some k4"
      "upd_thread p (\<lambda>t. t\<lparr>fds := (fds t)[j := fo]\<rparr>) k4 = Some k'" for fo k1 k2 k3 k4 i p j f g
  proof -
    have k1: "kernel_typed k1" "fo \<in> dom (fos k1)" using alloc_fo_typed [OF that(1) assms(2)] by auto
    have k4: "kernel_typed k4" "fo \<in> dom (fos k4)"
      using k1 get_tarfs_impl_typed [OF that(3) upd_fo_typed [OF that(2) k1(1)]] upd_fo_typed [OF that(4)] that(2,4)
      by (auto simp: upd_fo_def)
    show ?thesis
      by (rule set_fds_typed [OF that(5) k4(1), where i = fo]) (use k4(2) in \<open>auto dest: set_update_subset_insert [THEN subsetD]\<close>)
  qed
  with assms show ?thesis by (auto simp: sys_open_def bind_Some_iff split: option.splits)
qed

lemma sys_close_typed:
  assumes "sys_close fd k = Some (r, k')" "kernel_typed k"
  shows "kernel_typed k'"
proof -
  have c: "kernel_typed k'" if "upd_thread p (\<lambda>t. t\<lparr>fds := (fds t)[j := 0]\<rparr>) k = Some k'" "kernel_typed k"
    for p j and k k' :: "'a kernel_scheme"
    by (rule set_fds_typed [OF that, where i = 0]) (auto dest: set_update_subset_insert [THEN subsetD])
  from assms show ?thesis
    by (auto simp: sys_close_def Let_def bind_Some_iff split: if_splits dest!: fail_with_typed upd_fo_typed c kfree_more typed_more)
qed

lemma dir_calls_typed:
  "open_dir n k = Some (d, k') \<Longrightarrow> kernel_typed k \<Longrightarrow> kernel_typed k'"
  "read_dir d b k = Some (r, b', k') \<Longrightarrow> kernel_typed k \<Longrightarrow> kernel_typed k'"
  "close_dir d k = Some (r', k') \<Longrightarrow> kernel_typed k \<Longrightarrow> kernel_typed k'"
  by (auto simp: open_dir_def get_folder_def read_dir_def close_dir_def bind_Some_iff dest: more_typed)

lemma sleep_typed: "sleep n s k = Some (r, k') \<Longrightarrow> kernel_typed k \<Longrightarrow> kernel_typed k'"
  by (auto simp: sleep_def sleep_loop_ticks split: if_splits)

lemma ret_typed:
  "ret_int m = Some (r, k') \<Longrightarrow> \<exists>v. m = Some (v, k')" "ret_addr m' = Some (r, k') \<Longrightarrow> \<exists>v. m' = Some (v, k')"
  "ret_0 m'' = Some (r, k') \<Longrightarrow> m'' = Some k'"
  by (auto simp: ret_int_def ret_addr_def ret_0_def)




end
