(* ===== verification/Machine.thy ===== *)
theory Machine
  imports Snow_Prelude
begin

text \<open>
  The processor as far as the assembly of the kernel uses it: general registers, a memory of
  words, the stack, interrupts. A routine is the list of its instructions, in the order of the
  source and with the operands in its order (source first). Words are addressed by the address of
  their first byte; an access that is not aligned has no result. C functions that assembly calls
  keep to the calling convention of the platform: they find their arguments in registers, return
  in \<open>RAX\<close>, and may leave anything in the registers they need not preserve and in the memory
  outside the stack of their callers. What they leave there is an argument of the semantics.
\<close>

subsection \<open>State\<close>

datatype reg = RAX | RBX | RCX | RDX | RSI | RDI | RBP | RSP | R8 | R9 | R10 | R11 | R12 | R13 | R14 | R15

record 'w cpu =
  regs :: "reg \<Rightarrow> u64"
  cells :: "u64 \<Rightarrow> u64"
  ip :: u64
  cs :: u64
  ss :: u64
  rflags :: u64
  rsp0 :: u64
  world :: 'w

type_synonym 'w c_function = "u64 list \<Rightarrow> 'w \<Rightarrow> (u64 \<times> 'w) option"

datatype 'w instr =
    Push reg
  | PushI u64
  | Pushfq
  | Pop reg
  | Movq reg reg
  | MovI u64 reg
  | Load u64 reg reg
  | Store reg u64 reg
  | StoreI u64 u64 reg
  | AddI u64 reg
  | Cli
  | Sti
  | Callq "'w c_function"
  | Retq
  | Iretq

text \<open>What a called C function leaves behind: registers, flags, memory, and the end of the callers' stack.\<close>

record callee =
  left_regs :: "reg \<Rightarrow> u64"
  left_flags :: u64
  left_mem :: "u64 \<Rightarrow> u64"
  stack_end :: u64

subsection \<open>Instructions\<close>

definition aligned :: "u64 \<Rightarrow> bool" where "aligned a \<longleftrightarrow> a AND 7 = 0"

definition set_reg :: "reg \<Rightarrow> u64 \<Rightarrow> 'w cpu \<Rightarrow> 'w cpu" where
  "set_reg r v m = m\<lparr>regs := (regs m)(r := v)\<rparr>"

definition load :: "u64 \<Rightarrow> 'w cpu \<Rightarrow> u64 option" where
  "load a m = (if aligned a then Some (cells m a) else None)"

definition store :: "u64 \<Rightarrow> u64 \<Rightarrow> 'w cpu \<Rightarrow> 'w cpu option" where
  "store a v m = (if aligned a then Some (m\<lparr>cells := (cells m)(a := v)\<rparr>) else None)"

definition push :: "u64 \<Rightarrow> 'w cpu \<Rightarrow> 'w cpu option" where
  "push v m = store (regs m RSP - 8) v (set_reg RSP (regs m RSP - 8) m)"

definition pop :: "'w cpu \<Rightarrow> (u64 \<times> 'w cpu) option" where
  "pop m = map_option (\<lambda>v. (v, set_reg RSP (regs m RSP + 8) m)) (load (regs m RSP) m)"

definition IF_FLAG :: u64 where "IF_FLAG = 0x200"

definition arg_regs :: "reg list" where "arg_regs = [RDI, RSI, RDX, RCX, R8, R9]"

definition caller_saved :: "reg list" where "caller_saved = [RAX, RCX, RDX, RSI, RDI, R8, R9, R10, R11]"

definition c_call :: "callee \<Rightarrow> 'w c_function \<Rightarrow> 'w cpu \<Rightarrow> 'w cpu option" where
  "c_call j f m = map_option (\<lambda>(v, w). m\<lparr>
       regs := (\<lambda>r. if r = RAX then v else if r \<in> set caller_saved then left_regs j r else regs m r),
       cells := (\<lambda>a. if regs m RSP \<le> a \<and> a < stack_end j then cells m a else left_mem j a),
       rflags := left_flags j, world := w\<rparr>)
     (f (map (regs m) arg_regs) (world m))"

definition iretq :: "'w cpu \<Rightarrow> 'w cpu option" where
  "iretq m = do {
     (new_ip, m) \<leftarrow> pop m;
     (new_cs, m) \<leftarrow> pop m;
     (new_flags, m) \<leftarrow> pop m;
     (new_rsp, m) \<leftarrow> pop m;
     (new_ss, m) \<leftarrow> pop m;
     Some (set_reg RSP new_rsp (m\<lparr>ip := new_ip, cs := new_cs, rflags := new_flags, ss := new_ss\<rparr>))
   }"

fun step :: "callee \<Rightarrow> 'w instr \<Rightarrow> 'w cpu \<Rightarrow> 'w cpu option" where
  "step j (Push r) m = push (regs m r) m"
| "step j (PushI v) m = push v m"
| "step j Pushfq m = push (rflags m) m"
| "step j (Pop r) m = map_option (\<lambda>(v, m). set_reg r v m) (pop m)"
| "step j (Movq r r') m = Some (set_reg r' (regs m r) m)"
| "step j (MovI v r) m = Some (set_reg r v m)"
| "step j (Load d r r') m = map_option (\<lambda>v. set_reg r' v m) (load (regs m r + d) m)"
| "step j (Store r d r') m = store (regs m r' + d) (regs m r) m"
| "step j (StoreI v d r) m = store (regs m r + d) v m"
| "step j (AddI v r) m = Some (set_reg r (regs m r + v) m)"
| "step j Cli m = Some (m\<lparr>rflags := rflags m AND NOT IF_FLAG\<rparr>)"
| "step j Sti m = Some (m\<lparr>rflags := rflags m OR IF_FLAG\<rparr>)"
| "step j (Callq f) m = c_call j f m"
| "step j Retq m = map_option (\<lambda>(v, m). m\<lparr>ip := v\<rparr>) (pop m)"
| "step j Iretq m = iretq m"

definition run :: "callee \<Rightarrow> 'w instr list \<Rightarrow> 'w cpu \<Rightarrow> 'w cpu option" where
  "run j is m = foldM (step j) is m"

subsection \<open>Interrupts\<close>

text \<open>The processor's part of an interrupt: it changes to the stack of the task state segment when a
  program was running, aligns it, and pushes the interrupted state; some exceptions push an error code.
  All gates of the kernel are interrupt gates of its code segment.\<close>

definition interrupt_stack :: "'w cpu \<Rightarrow> u64" where
  "interrupt_stack m = (if cs m AND 3 = 3 then rsp0 m else regs m RSP) AND NOT 15"

definition deliver :: "u64 list \<Rightarrow> 'w cpu \<Rightarrow> 'w cpu option" where
  "deliver code m = foldM push ([ss m, regs m RSP, rflags m, cs m, ip m] @ code)
     (set_reg RSP (interrupt_stack m) (m\<lparr>rflags := rflags m AND NOT 0x34300, cs := 8,
        ss := (if cs m AND 3 = 3 then 0 else ss m)\<rparr>))"

definition interrupt :: "callee \<Rightarrow> u64 list \<Rightarrow> 'w instr list \<Rightarrow> 'w cpu \<Rightarrow> 'w cpu option" where
  "interrupt j code isr m = Option.bind (deliver code m) (run j isr)"


subsection \<open>Stacks\<close>

text \<open>The words from an address on, and writing words downwards from an address.\<close>

fun stack_frame :: "(u64 \<Rightarrow> u64) \<Rightarrow> u64 \<Rightarrow> u64 list \<Rightarrow> bool" where
  "stack_frame M a [] \<longleftrightarrow> True"
| "stack_frame M a (v # vs) \<longleftrightarrow> M a = v \<and> stack_frame M (a + 8) vs"

fun put_words :: "(u64 \<Rightarrow> u64) \<Rightarrow> u64 \<Rightarrow> u64 list \<Rightarrow> u64 \<Rightarrow> u64" where
  "put_words M a [] = M"
| "put_words M a (v # vs) = put_words (M(a - 8 := v)) (a - 8) vs"

definition words_below :: "u64 \<Rightarrow> nat \<Rightarrow> u64 set" where
  "words_below a n = (\<lambda>i. a - 8 * of_nat (Suc i)) ` {..<n}"

lemma words_below_Suc: "words_below a (Suc n) = insert (a - 8) (words_below (a - 8) n)"
  by (simp add: words_below_def lessThan_Suc_eq_insert_0 image_image algebra_simps)

lemma put_words_other: "x \<notin> words_below a (length vs) \<Longrightarrow> put_words M a vs x = M x"
  by (induction M a vs rule: put_words.induct) (auto simp: words_below_Suc)

lemma word_eight: "8 * of_nat i = (of_nat (8 * i) :: u64)" by simp

lemma below_inject:
  assumes "i < 2 ^ 61" "j < 2 ^ 61" "8 * of_nat i = (8 * of_nat j :: u64)"
  shows "i = j"
proof -
  have "of_nat (8 * i) = (of_nat (8 * j) :: u64)" using assms(3) by simp
  then have "unat (of_nat (8 * i) :: u64) = unat (of_nat (8 * j) :: u64)" by (rule arg_cong)
  with assms(1,2) show ?thesis by (simp only: unat_of_nat) simp
qed

lemma stack_frame_append:
  "stack_frame M a (xs @ ys) \<longleftrightarrow> stack_frame M a xs \<and> stack_frame M (a + 8 * of_nat (length xs)) ys"
  by (induction xs arbitrary: a) (auto simp: algebra_simps)

lemma stack_frame_nth: "stack_frame M a vs \<longleftrightarrow> (\<forall>i<length vs. M (a + 8 * of_nat i) = vs ! i)"
proof (induction vs arbitrary: a)
  case (Cons v vs)
  show ?case by (simp add: Cons.IH All_less_Suc2 algebra_simps)
qed simp

lemma stack_frame_cong:
  "stack_frame M a vs \<Longrightarrow> (\<And>i. i < length vs \<Longrightarrow> M' (a + 8 * of_nat i) = M (a + 8 * of_nat i)) \<Longrightarrow> stack_frame M' a vs"
  by (simp add: stack_frame_nth)

lemma put_words_frame:
  "length vs < 2 ^ 61 \<Longrightarrow> stack_frame (put_words M a vs) (a - 8 * of_nat (length vs)) (rev vs)"
proof (induction M a vs rule: put_words.induct)
  case (2 M a v vs)
  have "a - 8 \<notin> words_below (a - 8) (length vs)"
  proof
    assume "a - 8 \<in> words_below (a - 8) (length vs)"
    then obtain i where "i < length vs" "a - 8 = a - 8 - 8 * of_nat (Suc i)" unfolding words_below_def by blast
    then have "i < length vs" "8 * of_nat (Suc i) = (8 * of_nat 0 :: u64)" by (simp_all add: algebra_simps)
    with 2(2) below_inject [of "Suc i" 0] show False by simp
  qed
  with 2 show ?case by (simp add: stack_frame_append put_words_other diff_diff_eq distrib_left fun_upd_def)
qed simp

lemma aligned_uint: "aligned a \<longleftrightarrow> uint a mod 8 = 0"
proof -
  have "uint a AND 7 = take_bit 3 (uint a)" by (simp add: take_bit_eq_mask mask_eq_exp_minus_1)
  then have "uint (a AND 7) = uint a mod 8" by (simp add: uint_and take_bit_eq_mod)
  then show ?thesis by (simp add: aligned_def word_uint_eq_iff)
qed

lemma mod8_add:
  fixes x y :: int
  assumes "y mod 8 = 0"
  shows "((x + y) mod 8 = 0) = (x mod 8 = 0)" "((x - y) mod 8 = 0) = (x mod 8 = 0)"
  using assms by presburger+

lemma aligned_plus: "aligned b \<Longrightarrow> aligned (a + b) = aligned a" "aligned b \<Longrightarrow> aligned (b + a) = aligned a"
  "aligned b \<Longrightarrow> aligned (a - b) = aligned a"
proof -
  assume b: "aligned b"
  have "uint (a + b) mod 8 = (uint a + uint b) mod 8" "uint (a - b) mod 8 = (uint a - uint b) mod 8"
    by (simp_all add: uint_word_ariths mod_mod_cancel)
  with b show "aligned (a + b) = aligned a" "aligned (a - b) = aligned a" by (simp_all add: aligned_uint mod8_add)
  then show "aligned (b + a) = aligned a" by (simp add: add.commute [of b])
qed

lemma aligned_numeral [simp]:
  "numeral k AND 7 = (0 :: u64) \<Longrightarrow> aligned (a + numeral k) = aligned a"
  "numeral k AND 7 = (0 :: u64) \<Longrightarrow> aligned (numeral k + a) = aligned a"
  "numeral k AND 7 = (0 :: u64) \<Longrightarrow> aligned (a - numeral k) = aligned a"
  by (rule aligned_plus, simp add: aligned_def)+

lemma aligned_eight: "aligned (8 * of_nat n)"
proof (induction n)
  case (Suc n)
  then show ?case by (simp add: distrib_left)
qed (simp add: aligned_def)

lemmas aligned_add = aligned_plus [OF aligned_eight]

subsection \<open>Runs\<close>

lemma run_simps [simp]: "run j [] m = Some m" "run j (i # is) m = Option.bind (step j i m) (run j is)"
  by (simp_all add: run_def [abs_def])

lemma run_append: "run j (xs @ ys) m = Option.bind (run j xs m) (run j ys)"
  by (simp add: run_def [abs_def])

lemma foldM_push:
  "aligned (regs m RSP) \<Longrightarrow>
   foldM push vs m = Some (m\<lparr>regs := (regs m)(RSP := regs m RSP - 8 * of_nat (length vs)), cells := put_words (cells m) (regs m RSP) vs\<rparr>)"
proof (induction vs arbitrary: m)
  case (Cons v vs)
  let ?m = "m\<lparr>regs := (regs m)(RSP := regs m RSP - 8), cells := (cells m)(regs m RSP - 8 := v)\<rparr>"
  have "push v m = Some ?m" using Cons.prems by (simp add: push_def store_def set_reg_def)
  moreover have "aligned (regs ?m RSP)" using Cons.prems by simp
  ultimately show ?case using Cons.IH [of ?m] by (simp add: diff_diff_eq distrib_left fun_upd_def cong: if_cong)
qed simp

lemma run_pushes:
  "aligned (regs m RSP) \<Longrightarrow> RSP \<notin> set rs \<Longrightarrow>
   run j (map Push rs) m = Some (m\<lparr>regs := (regs m)(RSP := regs m RSP - 8 * of_nat (length rs)),
     cells := put_words (cells m) (regs m RSP) (map (regs m) rs)\<rparr>)"
proof (induction rs arbitrary: m)
  case (Cons r rs)
  let ?m = "m\<lparr>regs := (regs m)(RSP := regs m RSP - 8), cells := (cells m)(regs m RSP - 8 := regs m r)\<rparr>"
  have eq: "map (regs ?m) rs = map (regs m) rs" using Cons.prems by auto
  have "step j (Push r) m = Some ?m" using Cons.prems by (simp add: push_def store_def set_reg_def)
  moreover have "aligned (regs ?m RSP)" using Cons.prems by simp
  ultimately show ?case using Cons.IH [of ?m] Cons.prems unfolding eq by (simp add: diff_diff_eq distrib_left fun_upd_def cong: if_cong)
qed simp

lemma run_pops:
  "aligned (regs m RSP) \<Longrightarrow> RSP \<notin> set rs \<Longrightarrow> stack_frame (cells m) (regs m RSP) (map v rs) \<Longrightarrow>
   run j (map Pop rs) m = Some (m\<lparr>regs := (\<lambda>r. if r = RSP then regs m RSP + 8 * of_nat (length rs) else if r \<in> set rs then v r else regs m r)\<rparr>)"
proof (induction rs arbitrary: m)
  case (Cons r rs)
  let ?m = "m\<lparr>regs := (regs m)(RSP := regs m RSP + 8, r := v r)\<rparr>"
  have s: "step j (Pop r) m = Some ?m" using Cons.prems by (simp add: pop_def load_def set_reg_def)
  have "run j (map Pop rs) ?m = Some (?m\<lparr>regs := (\<lambda>r. if r = RSP then regs ?m RSP + 8 * of_nat (length rs) else if r \<in> set rs then v r else regs ?m r)\<rparr>)"
    by (rule Cons.IH) (use Cons.prems in simp_all)
  moreover have "(\<lambda>r. if r = RSP then regs ?m RSP + 8 * of_nat (length rs) else if r \<in> set rs then v r else regs ?m r) =
      (\<lambda>q. if q = RSP then regs m RSP + 8 * of_nat (length (r # rs)) else if q \<in> set (r # rs) then v q else regs m q)"
    using Cons.prems by (auto simp: fun_eq_iff distrib_left)
  ultimately show ?case by (simp add: s del: step.simps)
next
  case Nil
  have "(\<lambda>r. if r = RSP then regs m RSP + 8 * of_nat (length ([] :: reg list)) else if r \<in> set [] then v r else regs m r) = regs m" by auto
  then show ?case by simp
qed

lemma iretq_frame:
  "aligned (regs m RSP) \<Longrightarrow> stack_frame (cells m) (regs m RSP) [i, c, f, sp, s] \<Longrightarrow>
   iretq m = Some (m\<lparr>regs := (regs m)(RSP := sp), ip := i, cs := c, rflags := f, ss := s\<rparr>)"
  by (simp add: iretq_def pop_def load_def set_reg_def)

end
