(* ===== verification/Isr.thy ===== *)
theory Isr
  imports Machine
begin

text \<open>
  The entry points of interrupts, \<^verbatim>\<open>sys/pit_isr.s\<close>, \<^verbatim>\<open>sys/keyboard_isr.s\<close>,
  \<^verbatim>\<open>sys/page_fault_isr.s\<close> and \<^verbatim>\<open>sys/syscalls.s\<close>, each around the C function it calls,
  and the system call stubs of \<^verbatim>\<open>libc/syscall_wrapper.c\<close>, which enter the last one.
\<close>

subsection \<open>Entry points\<close>

definition timer_isr :: "'w c_function \<Rightarrow> 'w instr list" where
  "timer_isr pit_intr_handler = [
     Cli,
     Push RAX, Push RCX, Push RDX, Push RBX, Push RBP, Push RSI, Push RDI, Push R8, Push R9, Push R10, Push R11,
     Callq pit_intr_handler,
     Pop R11, Pop R10, Pop R9, Pop R8, Pop RDI, Pop RSI, Pop RBP, Pop RBX, Pop RDX, Pop RCX, Pop RAX,
     Sti,
     Iretq]"

definition keyboard_isr :: "'w c_function \<Rightarrow> 'w instr list" where
  "keyboard_isr keyboard_intr_handler = [
     Cli,
     Push RAX, Push RCX, Push RDX, Push RBX, Push RBP, Push RSI, Push RDI, Push R8, Push R9, Push R10, Push R11,
     Callq keyboard_intr_handler,
     Pop R11, Pop R10, Pop R9, Pop R8, Pop RDI, Pop RSI, Pop RBP, Pop RBX, Pop RDX, Pop RCX, Pop RAX,
     Sti,
     Iretq]"

definition page_fault_isr :: "'w c_function \<Rightarrow> 'w instr list" where
  "page_fault_isr page_fault_handler = [
     Push RAX, Push RCX, Push RDX, Push RBX, Push RBP, Push RSI, Push RDI, Push R8, Push R9, Push R10, Push R11,
     Push R12, Push R13, Push R14, Push R15, Push RDI,
     Callq page_fault_handler,
     Pop RDI, Pop R15, Pop R14, Pop R13, Pop R12, Pop R11, Pop R10, Pop R9, Pop R8, Pop RDI, Pop RSI, Pop RBP,
     Pop RBX, Pop RDX, Pop RCX, Pop RAX,
     AddI 8 RSP,
     Iretq]"

definition syscall_isr :: "'w c_function \<Rightarrow> 'w instr list" where
  "syscall_isr handle_syscall = [
     Sti,
     Push RCX, Push RDX, Push RBX, Push RBP, Push RSI, Push RDI, Push R8, Push R9, Push R10, Push R11,
     Push R12, Push R13, Push R14, Push R15, Push RDI,
     Movq RSI R8, Movq RDI R9, Movq RCX R15, Movq RDX RCX, Movq R15 RDX, Movq RBX RSI, Movq RAX RDI,
     Callq handle_syscall,
     Pop RDI, Pop R15, Pop R14, Pop R13, Pop R12, Pop R11, Pop R10, Pop R9, Pop R8, Pop RDI, Pop RSI, Pop RBP,
     Pop RBX, Pop RDX, Pop RCX,
     Iretq]"

subsection \<open>System call stubs\<close>

text \<open>The operands are variables in memory. The code is an enumeration of four bytes that is loaded as
  eight, so the upper half of the register is whatever stands next to it, the argument \<open>hi\<close>.\<close>

definition enum_word :: "u32 \<Rightarrow> u32 \<Rightarrow> u64" where
  "enum_word hi code = push_bit 32 (ucast hi) OR ucast code"

definition trap :: "callee \<Rightarrow> 'w instr list \<Rightarrow> 'w instr list \<Rightarrow> 'w cpu \<Rightarrow> (u64 \<times> 'w cpu) option" where
  "trap j isr moves m = do {
     m \<leftarrow> run j moves m;
     m \<leftarrow> interrupt j [] isr m;
     Some (regs m RAX, m)
   }"

definition syscall6 :: "callee \<Rightarrow> 'w instr list \<Rightarrow> u32 \<Rightarrow> u32 \<Rightarrow> u64 \<Rightarrow> u64 \<Rightarrow> u64 \<Rightarrow> u64 \<Rightarrow> u64 \<Rightarrow> 'w cpu \<Rightarrow> (u64 \<times> 'w cpu) option" where
  "syscall6 j isr hi code arg2 arg3 arg4 arg5 arg6 =
     trap j isr [MovI (enum_word hi code) RAX, MovI arg2 RBX, MovI arg3 RCX, MovI arg4 RDX, MovI arg5 RSI, MovI arg6 RDI]"

definition syscall5 :: "callee \<Rightarrow> 'w instr list \<Rightarrow> u32 \<Rightarrow> u32 \<Rightarrow> u64 \<Rightarrow> u64 \<Rightarrow> u64 \<Rightarrow> u64 \<Rightarrow> 'w cpu \<Rightarrow> (u64 \<times> 'w cpu) option" where
  "syscall5 j isr hi code arg2 arg3 arg4 arg5 =
     trap j isr [MovI (enum_word hi code) RAX, MovI arg2 RBX, MovI arg3 RCX, MovI arg4 RDX, MovI arg5 RSI]"

definition syscall4 :: "callee \<Rightarrow> 'w instr list \<Rightarrow> u32 \<Rightarrow> u32 \<Rightarrow> u64 \<Rightarrow> u64 \<Rightarrow> u64 \<Rightarrow> 'w cpu \<Rightarrow> (u64 \<times> 'w cpu) option" where
  "syscall4 j isr hi code arg2 arg3 arg4 =
     trap j isr [MovI (enum_word hi code) RAX, MovI arg2 RBX, MovI arg3 RCX, MovI arg4 RDX]"

definition syscall3 :: "callee \<Rightarrow> 'w instr list \<Rightarrow> u32 \<Rightarrow> u32 \<Rightarrow> u64 \<Rightarrow> u64 \<Rightarrow> 'w cpu \<Rightarrow> (u64 \<times> 'w cpu) option" where
  "syscall3 j isr hi code arg2 arg3 =
     trap j isr [MovI (enum_word hi code) RAX, MovI arg2 RBX, MovI arg3 RCX]"

definition syscall2 :: "callee \<Rightarrow> 'w instr list \<Rightarrow> u32 \<Rightarrow> u32 \<Rightarrow> u64 \<Rightarrow> 'w cpu \<Rightarrow> (u64 \<times> 'w cpu) option" where
  "syscall2 j isr hi code arg2 = trap j isr [MovI (enum_word hi code) RAX, MovI arg2 RBX]"

definition syscall1 :: "callee \<Rightarrow> 'w instr list \<Rightarrow> u32 \<Rightarrow> u32 \<Rightarrow> 'w cpu \<Rightarrow> (u64 \<times> 'w cpu) option" where
  "syscall1 j isr hi code = trap j isr [MovI (enum_word hi code) RAX]"

subsection \<open>Interrupts are transparent\<close>

text \<open>The interrupted state on the stack.\<close>

definition saved_state :: "'w cpu \<Rightarrow> u64 list" where
  "saved_state m = [ip m, cs m, rflags m, regs m RSP, ss m]"

lemma aligned_16 [simp]: "aligned (a AND NOT 15)"
proof -
  have "(a AND NOT 15) AND 7 = a AND (NOT 15 AND (7 :: u64))" by (simp only: and.assoc)
  also have "NOT 15 AND (7 :: u64) = 0" by simp
  finally show ?thesis by (simp add: aligned_def)
qed

lemma aligned_interrupt_stack [simp]: "aligned (interrupt_stack m)"
  using aligned_16 by (simp add: interrupt_stack_def del: not_numeral_eq)

lemma deliver_eq:
  "deliver code m = Some (m\<lparr>rflags := rflags m AND NOT 0x34300, cs := 8, ss := (if cs m AND 3 = 3 then 0 else ss m),
     regs := (regs m)(RSP := interrupt_stack m - 8 * of_nat (5 + length code)),
     cells := put_words (cells m) (interrupt_stack m) (rev (saved_state m) @ code)\<rparr>)"
  by (simp add: deliver_def foldM_push set_reg_def saved_state_def del: foldM.simps)

lemma above_stack:
  fixes a :: u64
  assumes "8 * n \<le> unat a" "i < n"
  shows "a - 8 * of_nat n \<le> a - 8 * of_nat n + 8 * of_nat i" "a - 8 * of_nat n + 8 * of_nat i < a"
proof -
  have u: "unat (8 * of_nat k :: u64) = 8 * k" if "k \<le> n" for k
  proof -
    have "8 * k \<le> unat a" "unat a < 2 ^ 64" using that assms(1) unsigned_less [of a, where 'a = nat] by simp_all
    then have "8 * k < 2 ^ 64" by (rule le_less_trans)
    then have "unat (of_nat (8 * k) :: u64) = 8 * k" by (simp only: unat_of_nat) simp
    then show ?thesis by simp
  qed
  then have le: "unat (a - 8 * of_nat n) = unat a - 8 * n" using assms by (simp add: unat_sub word_le_nat_alt)
  have i: "unat (8 * of_nat i :: u64) = 8 * i" using u assms by simp
  have "unat (a - 8 * of_nat n + 8 * of_nat i) = unat a - 8 * n + 8 * i"
    using assms le i unsigned_less [of a, where 'a = nat] by (subst unat_word_ariths) simp
  with assms le show "a - 8 * of_nat n \<le> a - 8 * of_nat n + 8 * of_nat i" "a - 8 * of_nat n + 8 * of_nat i < a"
    by (simp_all add: word_le_nat_alt word_less_nat_alt)
qed


lemma put_words_append: "put_words M a (xs @ ys) = put_words (put_words M a xs) (a - 8 * of_nat (length xs)) ys"
  by (induction xs arbitrary: M a) (simp_all add: diff_diff_eq distrib_left)

text \<open>What an interrupt has put on the stack, from its lowest word on, and the memory then.\<close>

definition isr_words :: "'w cpu \<Rightarrow> u64 list \<Rightarrow> reg list \<Rightarrow> u64 list" where
  "isr_words m code rs = rev (saved_state m) @ code @ map (regs m) rs"

definition isr_mem :: "'w cpu \<Rightarrow> u64 list \<Rightarrow> reg list \<Rightarrow> u64 \<Rightarrow> u64" where
  "isr_mem m code rs = put_words (cells m) (interrupt_stack m) (isr_words m code rs)"

definition isr_sp :: "'w cpu \<Rightarrow> u64 list \<Rightarrow> reg list \<Rightarrow> u64" where
  "isr_sp m code rs = interrupt_stack m - 8 * of_nat (length (isr_words m code rs))"

lemma length_isr_words [simp]: "length (isr_words m code rs) = 5 + length code + length rs"
  by (simp add: isr_words_def saved_state_def)

lemma isr_frame:
  "5 + length code + length rs < 2 ^ 61 \<Longrightarrow>
   stack_frame (isr_mem m code rs) (isr_sp m code rs) (map (regs m) (rev rs) @ rev code @ saved_state m)"
  using put_words_frame [of "isr_words m code rs" "cells m" "interrupt_stack m"]
  by (simp add: isr_mem_def isr_sp_def isr_words_def saved_state_def rev_map)

lemma entry:
  assumes "pre \<in> {[], [Cli], [Sti]}" "RSP \<notin> set rs"
  shows "\<exists>F S. Option.bind (deliver code m) (run j (pre @ map Push rs)) =
     Some (m\<lparr>rflags := F, cs := 8, ss := S, regs := (regs m)(RSP := isr_sp m code rs), cells := isr_mem m code rs\<rparr>)"
proof -
  define d where "d F S = m\<lparr>rflags := F, cs := 8, ss := S, regs := (regs m)(RSP := interrupt_stack m - 8 * of_nat (5 + length code)),
     cells := put_words (cells m) (interrupt_stack m) (rev (saved_state m) @ code)\<rparr>" for F S
  have al: "aligned (regs (d F S) RSP)" for F S by (simp add: d_def aligned_add del: of_nat_add)
  have eq: "map (regs (d F S)) rs = map (regs m) rs" for F S using assms(2) by (auto simp: d_def)
  have len: "length (rev (saved_state m) @ code) = 5 + length code" by (simp add: saved_state_def)
  have r: "run j (map Push rs) (d F S) = Some (m\<lparr>rflags := F, cs := 8, ss := S, regs := (regs m)(RSP := isr_sp m code rs), cells := isr_mem m code rs\<rparr>)" for F S
    using run_pushes [OF al assms(2), of j F S]
    unfolding eq isr_mem_def isr_sp_def isr_words_def append_assoc [symmetric] put_words_append [of _ _ "_ @ _"] len
    by (simp add: d_def saved_state_def diff_diff_eq distrib_left add.assoc)
  have "\<exists>F S. Option.bind (deliver code m) (run j pre) = Some (d F S)"
    by (rule exI [of _ "let F = rflags m AND NOT 0x34300 in if pre = [] then F else if pre = [Cli] then F AND NOT IF_FLAG else F OR IF_FLAG"],
        rule exI [of _ "if cs m AND 3 = 3 then 0 else ss m"]) (use assms(1) in \<open>auto simp: deliver_eq d_def Let_def\<close>)
  then obtain F S where "Option.bind (deliver code m) (run j pre) = Some (d F S)" by blast
  then have "Option.bind (deliver code m) (run j (pre @ map Push rs)) = run j (map Push rs) (d F S)"
    by (simp add: run_append [abs_def] flip: bind_assoc)
  then show ?thesis unfolding r by blast
qed


lemma call_keeps:
  assumes n: "8 * n \<le> unat hi" and top: "hi \<le> stack_end j" and i: "i < n" and sp: "regs m RSP = hi - 8 * of_nat n"
    and c: "c_call j f m = Some m'"
  shows "cells m' (regs m RSP + 8 * of_nat i) = cells m (regs m RSP + 8 * of_nat i)"
proof -
  have "regs m RSP + 8 * of_nat i < stack_end j" using less_le_trans [OF above_stack(2) [OF n i] top] by (simp add: sp)
  with above_stack(1) [OF n i] c show ?thesis by (auto simp: c_call_def sp)
qed

lemma c_call_eq:
  "f (map (regs m) arg_regs) (world m) = Some (x, w) \<Longrightarrow>
   c_call j f m = Some (m\<lparr>regs := (\<lambda>r. if r = RAX then x else if r \<in> set caller_saved then left_regs j r else regs m r),
     cells := (\<lambda>a. if regs m RSP \<le> a \<and> a < stack_end j then cells m a else left_mem j a),
     rflags := left_flags j, world := w\<rparr>)"
  by (simp add: c_call_def)

text \<open>The call of the handler, and the way back to the interrupted state.\<close>

lemma leave:
  assumes room: "8 * (5 + length code + length rs) \<le> unat (interrupt_stack m)" and top: "interrupt_stack m \<le> stack_end j"
    and e: "e = m\<lparr>rflags := F, cs := C, ss := S, regs := R, cells := isr_mem m code rs\<rparr>"
    and sp: "R RSP = isr_sp m code rs" and rs: "RSP \<notin> set rs"
    and f: "f (map R arg_regs) (world m) = Some (x, w)"
    and post: "post \<in> {[Iretq], [Sti, Iretq]} \<and> code = [] \<or> post = [AddI 8 RSP, Iretq] \<and> length code = 1"
  shows "\<exists>M. run j (Callq f # map Pop (rev rs) @ post) e = Some (m\<lparr>world := w, cells := M,
       regs := (\<lambda>r. if r = RSP \<or> r \<in> set rs then regs m r else if r = RAX then x else if r \<in> set caller_saved then left_regs j r else R r)\<rparr>) \<and>
     (\<forall>a. interrupt_stack m \<le> a \<and> a < stack_end j \<longrightarrow> M a = cells m a)"
proof -
  let ?n = "5 + length code + length rs" and ?I = "interrupt_stack m"
  define m1 where "m1 = e\<lparr>regs := (\<lambda>r. if r = RAX then x else if r \<in> set caller_saved then left_regs j r else R r),
     cells := (\<lambda>a. if R RSP \<le> a \<and> a < stack_end j then isr_mem m code rs a else left_mem j a), rflags := left_flags j, world := w\<rparr>"
  have c: "c_call j f e = Some m1"
    unfolding m1_def using c_call_eq [of f e x w j] f by (simp add: e cong: if_cong)
  have r1: "regs m1 RSP = isr_sp m code rs" by (simp add: m1_def sp caller_saved_def)
  have "?n < 2 ^ 61" using room unsigned_less [of ?I, where 'a = nat] by simp
  from isr_frame [OF this] have fr: "stack_frame (cells m1) (isr_sp m code rs) (map (regs m) (rev rs) @ rev code @ saved_state m)"
  proof (rule stack_frame_cong)
    fix i assume "i < length (map (regs m) (rev rs) @ rev code @ saved_state m)"
    then have "i < ?n" by (simp add: saved_state_def)
    from call_keeps [OF room top this _ c] show "cells m1 (isr_sp m code rs + 8 * of_nat i) = isr_mem m code rs (isr_sp m code rs + 8 * of_nat i)"
      by (simp add: e sp isr_sp_def del: of_nat_add)
  qed
  define m2 where "m2 = m1\<lparr>regs := (\<lambda>r. if r = RSP then regs m1 RSP + 8 * of_nat (length rs) else if r \<in> set rs then regs m r else regs m1 r)\<rparr>"
  have al: "aligned (isr_sp m code rs)" by (simp add: isr_sp_def aligned_add del: of_nat_add)
  have "run j (map Pop (rev rs)) m1 = Some m2"
    using run_pops [of m1 "rev rs" "regs m" j] fr al rs by (simp add: m2_def r1 stack_frame_append cong: if_cong)
  moreover have "run j post m2 = Some (m2\<lparr>regs := (regs m2)(RSP := regs m RSP), ip := ip m, cs := cs m, rflags := rflags m, ss := ss m\<rparr>)"
  proof -
    have fr2: "stack_frame (cells m2) (regs m2 RSP) (rev code @ saved_state m)" and al2: "aligned (regs m2 RSP)"
      using fr al by (simp_all add: m2_def r1 stack_frame_append aligned_add)
    from post show ?thesis
    proof (elim disjE conjE insertE emptyE)
      assume p: "post = [AddI 8 RSP, Iretq]" "length code = 1"
      then obtain y where "code = [y]" by (cases code) auto
      with fr2 al2 iretq_frame [of "set_reg RSP (regs m2 RSP + 8) m2" "ip m" "cs m" "rflags m" "regs m RSP" "ss m"]
      show ?thesis by (simp add: p saved_state_def set_reg_def)
    qed (use fr2 al2 iretq_frame [of m2 "ip m" "cs m" "rflags m" "regs m RSP" "ss m"]
        iretq_frame [of "m2\<lparr>rflags := rflags m2 OR IF_FLAG\<rparr>" "ip m" "cs m" "rflags m" "regs m RSP" "ss m"]
        in \<open>simp_all add: saved_state_def\<close>)
  qed
  moreover have "cells m1 a = cells m a" if "?I \<le> a" "a < stack_end j" for a
  proof -
    have "a \<notin> words_below ?I ?n"
    proof
      assume "a \<in> words_below ?I ?n"
      then obtain i where i: "i < ?n" "a = ?I - 8 * of_nat (Suc i)" by (auto simp: words_below_def)
      with above_stack(2) [of "Suc i" ?I 0] room that(1) show False by simp
    qed
    moreover have "R RSP \<le> a" using above_stack [OF room, of 0] that(1) by (simp add: sp isr_sp_def del: of_nat_add)
    ultimately show ?thesis using that put_words_other [of a ?I "isr_words m code rs" "cells m"]
      by (simp add: m1_def isr_mem_def)
  qed
  ultimately show ?thesis using c
    by (intro exI [of _ "cells m1"]) (auto simp: run_append m2_def m1_def e sp fun_eq_iff intro!: arg_cong [where f = "\<lambda>f. _"])
qed



text \<open>The interrupted state continues, in a new world and with the callers' stack as it was.\<close>

definition resumes :: "callee \<Rightarrow> (reg \<Rightarrow> u64) \<Rightarrow> 'w \<Rightarrow> 'w cpu \<Rightarrow> 'w cpu option \<Rightarrow> bool" where
  "resumes j R w m r \<longleftrightarrow> (\<exists>M. r = Some (m\<lparr>world := w, cells := M, regs := R\<rparr>) \<and>
     (\<forall>a. interrupt_stack m \<le> a \<and> a < stack_end j \<longrightarrow> M a = cells m a))"

lemma resumes_isr:
  assumes isr: "isr = (pre @ map Push rs) @ Callq f # map Pop (rev rs) @ post"
    and pre: "pre \<in> {[], [Cli], [Sti]}" and rs: "RSP \<notin> set rs" "set caller_saved \<subseteq> set rs"
    and room: "8 * (5 + length code + length rs) \<le> unat (interrupt_stack m)" "interrupt_stack m \<le> stack_end j"
    and f: "\<forall>args. f args (world m) = Some (x, w)"
    and post: "post \<in> {[Iretq], [Sti, Iretq]} \<and> code = [] \<or> post = [AddI 8 RSP, Iretq] \<and> length code = 1"
  shows "resumes j (regs m) w m (interrupt j code isr m)"
proof -
  obtain F S where e: "Option.bind (deliver code m) (run j (pre @ map Push rs)) =
      Some (m\<lparr>rflags := F, cs := 8, ss := S, regs := (regs m)(RSP := isr_sp m code rs), cells := isr_mem m code rs\<rparr>)"
    using entry [OF pre rs(1)] by blast
  let ?R = "(regs m)(RSP := isr_sp m code rs)"
  have R: "(\<lambda>r. if r = RSP \<or> r \<in> set rs then regs m r else if r = RAX then x else if r \<in> set caller_saved then left_regs j r else ?R r) = regs m"
    using rs(2) by (auto simp: fun_eq_iff caller_saved_def)
  have f': "f (map ?R arg_regs) (world m) = Some (x, w)" using f by blast
  have i: "interrupt j code isr m = run j (Callq f # map Pop (rev rs) @ post)
      (m\<lparr>rflags := F, cs := 8, ss := S, regs := ?R, cells := isr_mem m code rs\<rparr>)"
    unfolding interrupt_def isr run_append [abs_def, of j "pre @ map Push rs"] bind_assoc [symmetric] e by simp
  have "?R RSP = isr_sp m code rs" by simp
  from leave [where f = f and m = m and R = ?R and F = F and C = 8 and S = S, OF room refl this rs(1) f' post] show ?thesis unfolding resumes_def i R .
qed

lemma isr_resumes:
  assumes "\<forall>args. h args (world m) = Some (x, w)" "176 \<le> unat (interrupt_stack m)" "interrupt_stack m \<le> stack_end j"
  shows "resumes j (regs m) w m (interrupt j [] (timer_isr h) m)"
    and "resumes j (regs m) w m (interrupt j [] (keyboard_isr h) m)"
    and "resumes j (regs m) w m (interrupt j [err] (page_fault_isr h) m)"
proof -
  let ?rs = "[RAX, RCX, RDX, RBX, RBP, RSI, RDI, R8, R9, R10, R11]"
  let ?rs' = "?rs @ [R12, R13, R14, R15, RDI]"
  show "resumes j (regs m) w m (interrupt j [] (timer_isr h) m)" "resumes j (regs m) w m (interrupt j [] (keyboard_isr h) m)"
    by (rule resumes_isr [where pre = "[Cli]" and rs = ?rs and post = "[Sti, Iretq]" and f = h];
        use assms in \<open>simp add: timer_isr_def keyboard_isr_def caller_saved_def\<close>)+
  show "resumes j (regs m) w m (interrupt j [err] (page_fault_isr h) m)"
    by (rule resumes_isr [where pre = "[]" and rs = ?rs' and post = "[AddI 8 RSP, Iretq]" and f = h];
        use assms in \<open>simp add: page_fault_isr_def caller_saved_def\<close>)
qed

text \<open>System calls: the arguments arrive in order, and only the result register changes.\<close>

lemma resumes_syscall:
  assumes f: "f [regs m RAX, regs m RBX, regs m RCX, regs m RDX, regs m RSI, regs m RDI] (world m) = Some (x, w)"
    and room: "160 \<le> unat (interrupt_stack m)" "interrupt_stack m \<le> stack_end j"
  shows "resumes j ((regs m)(RAX := x)) w m (interrupt j [] (syscall_isr f) m)"
proof -
  let ?rs = "[RCX, RDX, RBX, RBP, RSI, RDI, R8, R9, R10, R11, R12, R13, R14, R15, RDI]"
  let ?sp = "isr_sp m [] ?rs"
  let ?R = "(regs m)(RSP := ?sp, R8 := regs m RSI, R9 := regs m RDI, R15 := regs m RCX, RCX := regs m RDX, RDX := regs m RCX,
    RSI := regs m RBX, RDI := regs m RAX)"
  have sp: "RSP \<notin> set ?rs" "?R RSP = ?sp" and rm: "8 * (5 + length ([] :: u64 list) + length ?rs) \<le> unat (interrupt_stack m)"
    using room by simp_all
  obtain F S where e: "Option.bind (deliver [] m) (run j ([Sti] @ map Push ?rs)) =
      Some (m\<lparr>rflags := F, cs := 8, ss := S, regs := (regs m)(RSP := ?sp), cells := isr_mem m [] ?rs\<rparr>)"
    using entry [of "[Sti]" ?rs "[]" m j] by auto
  have isr: "syscall_isr f = ([Sti] @ map Push ?rs) @ [Movq RSI R8, Movq RDI R9, Movq RCX R15, Movq RDX RCX, Movq R15 RDX,
      Movq RBX RSI, Movq RAX RDI] @ Callq f # map Pop (rev ?rs) @ [Iretq]" by (simp add: syscall_isr_def)
  have moves: "run j [Movq RSI R8, Movq RDI R9, Movq RCX R15, Movq RDX RCX, Movq R15 RDX, Movq RBX RSI, Movq RAX RDI]
      (m\<lparr>rflags := F, cs := 8, ss := S, regs := (regs m)(RSP := ?sp), cells := isr_mem m [] ?rs\<rparr>) =
      Some (m\<lparr>rflags := F, cs := 8, ss := S, regs := ?R, cells := isr_mem m [] ?rs\<rparr>)"
    by (simp add: set_reg_def fun_upd_twist)
  have i: "interrupt j [] (syscall_isr f) m = run j (Callq f # map Pop (rev ?rs) @ [Iretq])
      (m\<lparr>rflags := F, cs := 8, ss := S, regs := ?R, cells := isr_mem m [] ?rs\<rparr>)"
    unfolding interrupt_def isr run_append [abs_def, of j "[Sti] @ map Push ?rs"] bind_assoc [symmetric] e
    by (simp only: Option.bind.simps run_append moves)
  have f': "f (map ?R arg_regs) (world m) = Some (x, w)" using f by (simp add: arg_regs_def)
  have R: "(\<lambda>r. if r = RSP \<or> r \<in> set ?rs then regs m r else if r = RAX then x else if r \<in> set caller_saved then left_regs j r else ?R r) = (regs m)(RAX := x)"
  proof
    fix r show "(if r = RSP \<or> r \<in> set ?rs then regs m r else if r = RAX then x else if r \<in> set caller_saved then left_regs j r else ?R r) = ((regs m)(RAX := x)) r"
      by (cases r) (simp_all add: caller_saved_def)
  qed
  have "[Iretq] \<in> {[Iretq], [Sti, Iretq]} \<and> ([] :: u64 list) = [] \<or> [Iretq] = [AddI 8 RSP, Iretq] \<and> length ([] :: u64 list) = 1" by simp
  from leave [where f = f and m = m and R = ?R and F = F and C = 8 and S = S, OF rm room(2) refl sp(2,1) f' this] show ?thesis unfolding resumes_def i R .
qed

subsection \<open>Properties\<close>

definition machine_small :: "'w \<Rightarrow> 'w cpu" where
  "machine_small w = \<lparr>regs = (\<lambda>_. 0), cells = (\<lambda>_. 0), ip = 0x400000, cs = 0x2B, ss = 0x23, rflags = 0x202, rsp0 = 0x9000, world = w\<rparr>"

definition callee_small :: callee where
  "callee_small = \<lparr>left_regs = (\<lambda>_. 7), left_flags = 0, left_mem = (\<lambda>_. 7), stack_end = 0xA000\<rparr>"

lemma interrupt_stack_small [simp]: "interrupt_stack (machine_small w) = 0x9000"
  by (simp add: interrupt_stack_def machine_small_def)



end
