(* ===== verification/Context.thy ===== *)
theory Context
  imports Isr
begin

text \<open>
  Kernel stacks: the assembly of \<^verbatim>\<open>sys/kthread.s\<close>, the stacks that \<^verbatim>\<open>sys/process.c\<close>
  prepares for the first run of a process and for a forked child, and the ways into user mode. A
  thread is the address \<open>t\<close> of its structure: its first word is the saved stack pointer \<open>rsp_val\<close>,
  and \<open>k_stack\<close> starts two words further.
\<close>

subsection \<open>Assembly\<close>

definition set_rsp_asm :: "'w instr list" where
  "set_rsp_asm = [Movq RDI RSP, Retq]"

definition set_rsp_arg1_asm :: "'w instr list" where
  "set_rsp_arg1_asm = [Movq RDI RSP, Movq RSI RDI, Retq]"

definition get_rsp_val_asm :: "'w instr list" where
  "get_rsp_val_asm = [Movq RSP RAX, Retq]"

definition put_in_rax_asm :: "'w instr list" where
  "put_in_rax_asm = [Movq RDI RAX, Retq]"

definition setup_forked_kthread_stack_asm :: "'w instr list" where
  "setup_forked_kthread_stack_asm = [
     StoreI 0 0 RDI,
     Store RCX (-8) RDI,
     Store RDX (-16) RDI,
     Store RBX (-24) RDI,
     Store RBP (-32) RDI,
     Store RSI (-40) RDI,
     Store RDI (-48) RDI,
     Store R8 (-56) RDI,
     Store R9 (-64) RDI,
     Store R10 (-72) RDI,
     Store R11 (-80) RDI,
     Store R12 (-88) RDI,
     Store R13 (-96) RDI,
     Store R14 (-104) RDI,
     Store R15 (-112) RDI,
     Store RDI (-120) RDI,
     Retq]"

definition switch_to_asm :: "'w instr list" where
  "switch_to_asm = [
     Push RAX, Push RCX, Push RDX, Push RBX, Push RBP, Push RSI, Push RDI, Push R8, Push R9, Push R10, Push R11,
     Push R12, Push R13, Push R14, Push R15, Push RDI,
     Load 0 RDI R15,
     Store RSP 0 R15,
     Store RSI 0 RDI,
     Load 0 RSI RSP,
     Pop RDI, Pop R15, Pop R14, Pop R13, Pop R12, Pop R11, Pop R10, Pop R9, Pop R8, Pop RDI, Pop RSI, Pop RBP,
     Pop RBX, Pop RDX, Pop RCX, Pop RAX,
     Retq]"

text \<open>A call of an assembly routine: the return address is pushed first.\<close>

definition call_asm :: "callee \<Rightarrow> u64 \<Rightarrow> 'w instr list \<Rightarrow> 'w cpu \<Rightarrow> 'w cpu option" where
  "call_asm j ret is m = Option.bind (push ret m) (run j is)"

subsection \<open>Threads and their stacks\<close>

definition K_STACK_SIZE :: nat where "K_STACK_SIZE = 4096"

definition k_stack :: "u64 \<Rightarrow> nat \<Rightarrow> u64" where
  "k_stack t i = t + 16 + 8 * of_nat i"

text \<open>The registers in the order in which \<open>switch_to\<close> takes them from the stack.\<close>

definition context_regs :: "reg list" where
  "context_regs = [RDI, R15, R14, R13, R12, R11, R10, R9, R8, RDI, RSI, RBP, RBX, RDX, RCX, RAX]"

text \<open>A suspended thread: switched to, it continues at \<open>pc\<close> with the registers \<open>v\<close>.\<close>

definition suspended :: "(u64 \<Rightarrow> u64) \<Rightarrow> u64 \<Rightarrow> (reg \<Rightarrow> u64) \<times> u64 \<Rightarrow> bool" where
  "suspended M t c \<longleftrightarrow> aligned (M t) \<and> stack_frame M (M t) (map (fst c) context_regs @ [snd c]) \<and> fst c RSP = M t + 136"

text \<open>Where the words of a thread lie: its structure is one block of memory, and its suspended state
  lies on its own stack.\<close>

definition thread_block :: "u64 \<Rightarrow> u64 set" where
  "thread_block t = {a. unat t \<le> unat a \<and> unat a < unat t + 33096}"

definition on_stack :: "u64 \<Rightarrow> u64 \<Rightarrow> nat \<Rightarrow> bool" where
  "on_stack t a n \<longleftrightarrow> unat t + 16 \<le> unat a \<and> unat a + 8 * n \<le> unat t + 16 + 8 * K_STACK_SIZE"

definition threads_apart :: "u64 \<Rightarrow> u64 set \<Rightarrow> bool" where
  "threads_apart cur T \<longleftrightarrow> aligned cur \<and> (\<forall>t\<in>T. aligned t \<and> unat t + 33096 < 2 ^ 64 \<and> cur \<notin> thread_block t) \<and>
     (\<forall>t\<in>T. \<forall>u\<in>T. t \<noteq> u \<longrightarrow> thread_block t \<inter> thread_block u = {})"

text \<open>All threads but the running one are suspended, each in its context.\<close>

definition contexts :: "u64 \<Rightarrow> u64 set \<Rightarrow> (u64 \<Rightarrow> u64) \<Rightarrow> (u64 \<Rightarrow> (reg \<Rightarrow> u64) \<times> u64) \<Rightarrow> bool" where
  "contexts cur T M ctx \<longleftrightarrow> (\<forall>t\<in>T - {M cur}. suspended M t (ctx t) \<and> on_stack t (M t) 17)"

subsection \<open>Switching\<close>

lemma word_range:
  fixes a :: u64
  assumes "unat a + 8 * n < 2 ^ 64" "i \<le> n"
  shows "unat (a + 8 * of_nat i) = unat a + 8 * i"
proof -
  have "8 * i < 2 ^ 64" using assms by simp
  then have "unat (of_nat (8 * i) :: u64) = 8 * i" by (simp only: unat_of_nat) simp
  with assms show ?thesis by (simp add: unat_word_ariths(1))
qed

lemma on_stack_block:
  assumes "on_stack t a n" "unat t + 33096 < 2 ^ 64" "i < n"
  shows "a + 8 * of_nat i \<in> thread_block t" "a + 8 * of_nat i \<noteq> t"
proof -
  have "unat a + 8 * n < 2 ^ 64" using assms by (simp add: on_stack_def K_STACK_SIZE_def)
  from word_range [OF this, of i] assms have u: "unat (a + 8 * of_nat i) = unat a + 8 * i" by simp
  with assms show "a + 8 * of_nat i \<in> thread_block t" by (simp add: on_stack_def thread_block_def K_STACK_SIZE_def)
  from u assms show "a + 8 * of_nat i \<noteq> t" by (auto simp: on_stack_def)
qed

lemma self_block: "t \<in> thread_block t" by (simp add: thread_block_def)

text \<open>A thread stays suspended when the words of its block stay.\<close>

lemma suspended_cong:
  assumes "suspended M t c" "on_stack t (M t) 17" "unat t + 33096 < 2 ^ 64" "\<And>a. a \<in> thread_block t \<Longrightarrow> M' a = M a"
  shows "suspended M' t c" "on_stack t (M' t) 17"
proof -
  have e: "M' t = M t" by (rule assms(4)) (rule self_block)
  have fr: "stack_frame M (M t) (map (fst c) context_regs @ [snd c])" using assms(1) by (simp add: suspended_def)
  have "stack_frame M' (M t) (map (fst c) context_regs @ [snd c])"
  proof (rule stack_frame_cong [OF fr])
    fix i assume "i < length (map (fst c) context_regs @ [snd c])"
    then have "i < 17" by (simp add: context_regs_def)
    then show "M' (M t + 8 * of_nat i) = M (M t + 8 * of_nat i)" by (intro assms(4) on_stack_block(1) [OF assms(2,3)])
  qed
  with assms(1,2) show "suspended M' t c" "on_stack t (M' t) 17" by (simp_all add: suspended_def e)
qed


text \<open>What \<open>switch_to\<close> does, instruction by instruction, from a running thread \<open>t\<close> to the thread \<open>u\<close>.\<close>

lemma switch_to_run:
  assumes al: "aligned (regs m RSP)" "aligned cur" "aligned t" "aligned u" and args: "regs m RDI = cur" "regs m RSI = u"
    and M1: "M1 = put_words (cells m) (regs m RSP) (map (regs m) (rev context_regs))" and cur: "M1 cur = t"
    and M2: "M2 = M1(t := regs m RSP - 128, cur := u)" and s: "suspended M2 u c"
  shows "run j switch_to_asm m = Some (m\<lparr>regs := fst c, cells := M2, ip := snd c\<rparr>)"
proof -
  let ?sw = "[Load 0 RDI R15, Store RSP 0 R15, Store RSI 0 RDI, Load 0 RSI RSP]"
  have asm: "switch_to_asm = map Push (rev context_regs) @ ?sw @ map Pop context_regs @ [Retq]"
    by (simp add: switch_to_asm_def context_regs_def)
  have rs: "RSP \<notin> set context_regs" "length context_regs = 16" by (simp_all add: context_regs_def)
  define m1 where "m1 = m\<lparr>regs := (regs m)(RSP := regs m RSP - 128), cells := M1\<rparr>"
  have p1: "run j (map Push (rev context_regs)) m = Some m1"
    using run_pushes [of m "rev context_regs" j] al(1) rs by (simp add: m1_def M1)
  define m2 where "m2 = m1\<lparr>regs := (regs m)(R15 := t, RSP := M2 u), cells := M2\<rparr>"
  have p2: "run j ?sw m1 = Some m2"
    using al args cur by (simp add: m1_def m2_def load_def store_def set_reg_def M2)
  define m3 where "m3 = m2\<lparr>regs := (\<lambda>r. if r = RSP then M2 u + 128 else if r \<in> set context_regs then fst c r else regs m2 r)\<rparr>"
  have al2: "aligned (M2 u)" and fr: "stack_frame M2 (M2 u) (map (fst c) context_regs @ [snd c])" and sp: "fst c RSP = M2 u + 136"
    using s by (simp_all add: suspended_def)
  have r2: "regs m2 RSP = M2 u" "cells m2 = M2" by (simp_all add: m2_def)
  have p3: "run j (map Pop context_regs) m2 = Some m3"
    using run_pops [of m2 context_regs "fst c" j] al2 fr rs r2 by (simp add: m3_def stack_frame_append cong: if_cong)
  have "M2 (M2 u + 128) = snd c" using fr rs(2) by (simp add: stack_frame_append)
  then have p4: "run j [Retq] m3 = Some (m3\<lparr>regs := (regs m3)(RSP := M2 u + 136), ip := snd c\<rparr>)"
    using al2 by (simp add: m3_def m2_def pop_def load_def set_reg_def add.commute [of 136])
  have eq: "(regs m3)(RSP := M2 u + 136) = fst c"
  proof
    fix r show "((regs m3)(RSP := M2 u + 136)) r = fst c r"
      by (cases r) (simp_all add: m3_def context_regs_def sp)
  qed
  have "run j switch_to_asm m = Some (m3\<lparr>regs := fst c, ip := snd c\<rparr>)"
    by (simp only: asm run_append p1 p2 p3 p4 Option.bind.simps eq)
  then show ?thesis by (simp add: m3_def m2_def m1_def)
qed


lemma saved_on_stack:
  assumes "unat t + 16 + 128 \<le> unat sp" "unat sp + 8 \<le> unat t + 16 + 8 * K_STACK_SIZE" "unat t + 33096 < 2 ^ 64"
  shows "on_stack t (sp - 128) 17" "unat (sp - 128) = unat sp - 128"
proof -
  have "(128 :: u64) \<le> sp" using assms by (simp add: word_le_nat_alt)
  then show u: "unat (sp - 128) = unat sp - 128" by (simp add: unat_sub)
  show "on_stack t (sp - 128) 17" using assms u by (simp add: on_stack_def)
qed

lemma words_below_block:
  assumes st: "on_stack t (sp - 128) 17" and fits: "unat t + 33096 < 2 ^ 64"
  shows "words_below sp 16 \<subseteq> thread_block t - {t, sp}"
proof
  fix a assume "a \<in> words_below sp 16"
  then obtain i where i: "i < 16" "a = sp - 8 * of_nat (Suc i)" by (auto simp: words_below_def)
  then have "a = sp - 128 + 8 * of_nat (15 - i)" by (simp add: of_nat_diff algebra_simps)
  moreover have "15 - i < 17" by simp
  moreover have "8 * of_nat (Suc i) \<noteq> (8 * of_nat 0 :: u64)" using below_inject [of "Suc i" 0] i by auto
  then have "a \<noteq> sp" using i by auto
  ultimately show "a \<in> thread_block t - {t, sp}" using on_stack_block [OF st fits] by blast
qed

text \<open>C5. The context switch: while every other thread is suspended in its context, \<open>switch_to\<close> from the
  running thread to another one continues exactly there, with all registers of that thread's context;
  the thread left is now suspended in the state from which it called, and all others are as before.\<close>

theorem switch_to_contexts:
  assumes apart: "threads_apart cur T" and ctx: "contexts cur T (cells m) ctx"
    and t: "cells m cur = t" "t \<in> T" and u: "u \<in> T" "u \<noteq> t"
    and args: "regs m RDI = cur" "regs m RSI = u" and al: "aligned (regs m RSP)"
    and room: "unat t + 16 + 128 \<le> unat (regs m RSP)" "unat (regs m RSP) + 8 \<le> unat t + 16 + 8 * K_STACK_SIZE"
  shows "\<exists>M. run j switch_to_asm m = Some (m\<lparr>regs := fst (ctx u), cells := M, ip := snd (ctx u)\<rparr>) \<and> M cur = u \<and>
     contexts cur T M (ctx(t := ((regs m)(RSP := regs m RSP + 8), cells m (regs m RSP))))"
proof -
  let ?sp = "regs m RSP" and ?c = "((regs m)(RSP := regs m RSP + 8), cells m (regs m RSP))"
  define M1 where "M1 = put_words (cells m) ?sp (map (regs m) (rev context_regs))"
  define M2 where "M2 = M1(t := ?sp - 128, cur := u)"
  have fits: "unat v + 33096 < 2 ^ 64" "cur \<notin> thread_block v" "aligned v" if "v \<in> T" for v using apart that by (auto simp: threads_apart_def)
  note st = saved_on_stack [OF room fits(1) [OF t(2)]]
  note below = words_below_block [OF st(1) fits(1) [OF t(2)]]
  have len: "length (map (regs m) (rev context_regs)) = 16" by (simp add: context_regs_def)
  have other: "M1 a = cells m a" if "a \<notin> words_below ?sp 16" for a using put_words_other [of a ?sp "map (regs m) (rev context_regs)"] that len by (simp add: M1_def)
  have cur: "M1 cur = t" using other [of cur] below fits(2) [OF t(2)] t(1) by blast
  have ne: "cur \<noteq> v" if "v \<in> T" for v using fits(2) [OF that] self_block by blast
  have keep: "M2 a = cells m a" if "a \<in> thread_block v" "v \<in> T" "v \<noteq> t" for a v
  proof -
    have "thread_block v \<inter> thread_block t = {}" using that apart t(2) unfolding threads_apart_def by blast
    with that fits(2) have "a \<notin> thread_block t" "a \<noteq> cur" by auto
    then show ?thesis using other [of a] below self_block by (auto simp: M2_def)
  qed
  have sus: "suspended M2 v (ctx v) \<and> on_stack v (M2 v) 17" if v: "v \<in> T" "v \<noteq> t" for v
  proof -
    have "suspended (cells m) v (ctx v)" "on_stack v (cells m v) 17" using ctx v t(1) by (auto simp: contexts_def)
    then show ?thesis using suspended_cong [of "cells m" v "ctx v" M2] fits(1) keep v by blast
  qed
  have "suspended M2 u (ctx u)" using sus u by blast
  with switch_to_run [OF al _ _ _ args M1_def cur M2_def] fits(3) t(2) u apart
  have r: "run j switch_to_asm m = Some (m\<lparr>regs := fst (ctx u), cells := M2, ip := snd (ctx u)\<rparr>)" by (auto simp: threads_apart_def)
  have t2: "M2 t = ?sp - 128" using ne [OF t(2)] by (simp add: M2_def)
  have "stack_frame M1 (?sp - 128) (map (regs m) context_regs @ [cells m ?sp])"
    using put_words_frame [of "map (regs m) (rev context_regs)" "cells m" ?sp] other [of ?sp] below len
    by (auto simp: M1_def stack_frame_append rev_map context_regs_def)
  then have "stack_frame M2 (?sp - 128) (map (regs m) context_regs @ [cells m ?sp])"
  proof (rule stack_frame_cong)
    fix i assume "i < length (map (regs m) context_regs @ [cells m ?sp])"
    then have "i < 17" by (simp add: context_regs_def)
    from on_stack_block [OF st(1) fits(1) [OF t(2)] this] fits(2) [OF t(2)]
    show "M2 (?sp - 128 + 8 * of_nat i) = M1 (?sp - 128 + 8 * of_nat i)" by (auto simp: M2_def)
  qed
  moreover have "map (fst ?c) context_regs = map (regs m) context_regs" by (simp add: context_regs_def)
  ultimately have "stack_frame M2 (?sp - 128) (map (fst ?c) context_regs @ [snd ?c])" by (simp only: snd_conv)
  then have "suspended M2 t ?c \<and> on_stack t (M2 t) 17"
    using st(1) al by (simp add: suspended_def t2)
  with sus have "contexts cur T M2 (ctx(t := ?c))" by (simp add: contexts_def)
  moreover have "M2 cur = u" by (simp add: M2_def)
  ultimately show ?thesis using r by blast
qed

subsection \<open>The stack of a new process\<close>

text \<open>\<open>memset\<close> is given the number of words as its number of bytes, so it clears an eighth of the stack.\<close>

definition clear_stack :: "u64 \<Rightarrow> (u64 \<Rightarrow> u64) \<Rightarrow> u64 \<Rightarrow> u64" where
  "clear_stack t M = fold (\<lambda>i M. M(k_stack t i := 0)) [0..<K_STACK_SIZE div 8] M"

text \<open>\<open>init_idle_process\<close> and \<open>create_process\<close>; the functions to start in are addresses.\<close>

definition idle_stack :: "u64 \<Rightarrow> u64 \<Rightarrow> (u64 \<Rightarrow> u64) \<Rightarrow> u64 \<Rightarrow> u64" where
  "idle_stack init_scheduler t M = (clear_stack t M)(k_stack t (K_STACK_SIZE - 1) := init_scheduler, t := k_stack t (K_STACK_SIZE - 1))"

definition new_stack :: "u64 \<Rightarrow> u64 \<Rightarrow> (u64 \<Rightarrow> u64) \<Rightarrow> u64 \<Rightarrow> u64" where
  "new_stack go_to_ring3 t M = (clear_stack t M)(k_stack t (K_STACK_SIZE - 1) := go_to_ring3, t := k_stack t (K_STACK_SIZE - 17))"

subsection \<open>The stack of a forked child\<close>

definition copy_stack :: "u64 \<Rightarrow> u64 \<Rightarrow> (u64 \<Rightarrow> u64) \<Rightarrow> u64 \<Rightarrow> u64" where
  "copy_stack parent child M = fold (\<lambda>i M. M(k_stack child i := M (k_stack parent i))) [0..<K_STACK_SIZE] M"

partial_function (option) find_return :: "u64 \<Rightarrow> u64 \<Rightarrow> (u64 \<Rightarrow> u64) \<Rightarrow> u64 option" where
  "find_return return_val a M = (if M a = return_val then Some a else find_return return_val (a + 8) M)"

text \<open>The end of \<open>fork\<close>, lines 334 to 349, in the state \<open>m\<close> of the processor; \<open>ret\<close> stands for the return
  addresses of its calls. The registers other than the argument are as the compiler left them.\<close>

definition fork_stack :: "callee \<Rightarrow> u64 \<Rightarrow> u64 \<Rightarrow> u64 \<Rightarrow> u64 \<Rightarrow> u64 \<Rightarrow> 'w cpu \<Rightarrow> 'w cpu option" where
  "fork_stack j ret pid return_val parent child m = do {
     let m = m\<lparr>cells := copy_stack parent child (cells m)\<rparr>;
     m \<leftarrow> call_asm j ret get_rsp_val_asm m;
     let var = regs m RAX + 8;
     m \<leftarrow> call_asm j ret get_rsp_val_asm m;
     m \<leftarrow> store parent (regs m RAX + 8) m;
     let diff = signed_drop_bit 3 (k_stack parent (K_STACK_SIZE - 1) - var);
     let rsp_val = cells m child - 8 * diff;
     rsp_val \<leftarrow> find_return return_val rsp_val (cells m);
     m \<leftarrow> call_asm j ret put_in_rax_asm (set_reg RDI 0 m);
     let rsp_val = rsp_val - 8;
     m \<leftarrow> call_asm j ret setup_forked_kthread_stack_asm (set_reg RDI rsp_val m);
     m \<leftarrow> store child (rsp_val - 8 * 15) m;
     call_asm j ret put_in_rax_asm (set_reg RDI pid m)
   }"


lemma k_stack_add: "k_stack t i + 8 * of_nat n = k_stack t (i + n)"
  by (simp add: k_stack_def algebra_simps)

lemma k_stack_Suc: "k_stack t i + 8 = k_stack t (Suc i)"
  by (simp add: k_stack_def)

lemma k_stack_sub: "n \<le> i \<Longrightarrow> k_stack t i - 8 * of_nat n = k_stack t (i - n)"
  by (simp add: k_stack_def of_nat_diff algebra_simps)

lemma aligned_k_stack [simp]: "aligned (k_stack t i) = aligned t"
  by (simp add: k_stack_def aligned_add)

lemma k_stack_eq: "i < 2 ^ 61 \<Longrightarrow> k < 2 ^ 61 \<Longrightarrow> k_stack t i = k_stack t k \<longleftrightarrow> i = k"
  using below_inject [of i k] by (auto simp: k_stack_def)

lemma k_stack_block:
  assumes "unat t + 33096 < 2 ^ 64" "i < K_STACK_SIZE"
  shows "k_stack t i \<in> thread_block t" "k_stack t i \<noteq> t"
proof -
  have "unat (t + 16) = unat t + 16" using assms by (simp add: unat_word_ariths(1))
  then have "on_stack t (t + 16) K_STACK_SIZE" by (simp add: on_stack_def)
  from on_stack_block [OF this assms] show "k_stack t i \<in> thread_block t" "k_stack t i \<noteq> t" by (simp_all add: k_stack_def)
qed

lemma fold_copy:
  assumes "thread_block p \<inter> thread_block c = {}" "unat p + 33096 < 2 ^ 64" "unat c + 33096 < 2 ^ 64" "n \<le> K_STACK_SIZE"
  shows "(\<forall>a. (\<forall>i<n. a \<noteq> k_stack c i) \<longrightarrow> fold (\<lambda>i M. M(k_stack c i := M (k_stack p i))) [0..<n] M a = M a) \<and>
     (\<forall>i<n. fold (\<lambda>i M. M(k_stack c i := M (k_stack p i))) [0..<n] M (k_stack c i) = M (k_stack p i))"
  using assms(4)
proof (induction n)
  case (Suc n)
  have pc: "k_stack p n \<noteq> k_stack c i" if "i < Suc n" for i
    using that Suc.prems k_stack_block(1) [OF assms(2), of n] k_stack_block(1) [OF assms(3), of i] assms(1) by force
  have inj: "k_stack c i = k_stack c n \<longleftrightarrow> i = n" if "i < Suc n" for i
    using that Suc.prems by (intro k_stack_eq) (simp_all add: K_STACK_SIZE_def)
  show ?case using Suc pc inj by (auto simp: less_Suc_eq)
qed simp

lemma copy_stack_simps:
  assumes "thread_block p \<inter> thread_block c = {}" "unat p + 33096 < 2 ^ 64" "unat c + 33096 < 2 ^ 64"
  shows "i < K_STACK_SIZE \<Longrightarrow> copy_stack p c M (k_stack c i) = M (k_stack p i)"
    and "a \<notin> thread_block c \<or> a = c \<Longrightarrow> copy_stack p c M a = M a"
proof -
  note c = fold_copy [OF assms order_refl, of M, folded copy_stack_def]
  show "i < K_STACK_SIZE \<Longrightarrow> copy_stack p c M (k_stack c i) = M (k_stack p i)" by (rule c [THEN conjunct2, rule_format])
  assume "a \<notin> thread_block c \<or> a = c"
  then have "a \<noteq> k_stack c i" if "i < K_STACK_SIZE" for i using k_stack_block [OF assms(3) that] by auto
  then show "copy_stack p c M a = M a" by (intro c [THEN conjunct1, rule_format])
qed

lemma find_return_first:
  "(\<And>i. i < n \<Longrightarrow> M (a + 8 * of_nat i) \<noteq> r) \<Longrightarrow> M (a + 8 * of_nat n) = r \<Longrightarrow> find_return r a M = Some (a + 8 * of_nat n)"
proof (induction n arbitrary: a)
  case 0
  then show ?case by (subst find_return.simps) simp
next
  case (Suc n)
  have "M a \<noteq> r" using Suc.prems(1) [of 0] by simp
  moreover have "find_return r (a + 8) M = Some (a + 8 + 8 * of_nat n)"
  proof (rule Suc.IH)
    show "M (a + 8 + 8 * of_nat i) \<noteq> r" if "i < n" for i using Suc.prems(1) [of "Suc i"] that by (simp add: algebra_simps)
    show "M (a + 8 + 8 * of_nat n) = r" using Suc.prems(2) by (simp add: algebra_simps)
  qed
  ultimately show ?case by (subst find_return.simps) (simp add: algebra_simps)
qed

lemma eight_drop: "aligned x \<Longrightarrow> 8 * signed_drop_bit 3 x = x"
proof -
  assume "aligned x"
  then have low: "\<not> bit x n" if "n < 3" for n
  proof -
    have "bit (x AND 7) n = bit x n" using that by (auto simp: bit_and_iff bit_numeral_rec numeral_eq_Suc less_Suc_eq)
    with \<open>aligned x\<close> show ?thesis by (simp add: aligned_def)
  qed
  have "push_bit 3 (signed_drop_bit 3 x) = x"
  proof (rule bit_word_eqI)
    fix n assume "n < LENGTH(64)"
    then show "bit (push_bit 3 (signed_drop_bit 3 x)) n = bit x n"
      using low [of n] by (cases "n < 3") (auto simp: bit_push_bit_iff bit_signed_drop_bit_iff)
  qed
  then show ?thesis by (simp add: push_bit_eq_mult mult.commute)
qed

lemma call_get_rsp:
  "aligned (regs m RSP) \<Longrightarrow> call_asm j ret get_rsp_val_asm m =
     Some (m\<lparr>regs := (regs m)(RAX := regs m RSP - 8), cells := (cells m)(regs m RSP - 8 := ret), ip := ret\<rparr>)"
  by (simp add: call_asm_def get_rsp_val_asm_def push_def pop_def store_def load_def set_reg_def fun_upd_twist)

lemma call_put_rax:
  assumes "aligned (regs m RSP)"
  shows "call_asm j ret put_in_rax_asm m =
     Some (m\<lparr>regs := (regs m)(RAX := regs m RDI), cells := (cells m)(regs m RSP - 8 := ret), ip := ret\<rparr>)"
proof -
  have "(regs m)(RAX := regs m RDI, RSP := regs m RSP) = (regs m)(RAX := regs m RDI)" by auto
  then show ?thesis
    using assms by (simp add: call_asm_def put_in_rax_asm_def push_def pop_def store_def load_def set_reg_def fun_upd_twist)
qed

lemma run_stores:
  assumes "aligned (regs m RDI)"
  shows "run j (map (\<lambda>(r, i). Store r (- 8 * of_nat i) RDI) (zip rs [k..<k + length rs])) m =
     Some (m\<lparr>cells := put_words (cells m) (regs m RDI - 8 * of_nat k + 8) (map (regs m) rs)\<rparr>)"
  using assms
proof (induction rs arbitrary: k m)
  case (Cons r rs)
  let ?m = "m\<lparr>cells := (cells m)(regs m RDI - 8 * of_nat k := regs m r)\<rparr>"
  have "zip (r # rs) [k..<k + length (r # rs)] = (r, k) # zip rs [Suc k..<Suc k + length rs]" by (simp add: upt_conv_Cons del: upt_Suc)
  moreover have "step j (Store r (- 8 * of_nat k) RDI) m = Some ?m"
    using Cons.prems by (simp add: store_def aligned_add)
  moreover note Cons.IH [of ?m "Suc k"]
  ultimately show ?case using Cons.prems by (simp add: diff_diff_eq distrib_left fun_upd_def del: step.simps upt_Suc cong: if_cong)
qed simp

lemma call_setup_forked:
  assumes "aligned (regs m RSP)" "aligned c" "regs m RDI = c" "regs m RSP - 8 \<notin> words_below (c + 8) 16"
    and M: "M = put_words ((cells m)(regs m RSP - 8 := ret)) (c + 8) (map ((regs m)(RAX := 0)) (rev context_regs))"
  shows "call_asm j ret setup_forked_kthread_stack_asm m = Some (m\<lparr>cells := M, ip := ret\<rparr>)"
proof -
  let ?rs = "[RCX, RDX, RBX, RBP, RSI, RDI, R8, R9, R10, R11, R12, R13, R14, R15, RDI]"
  let ?st = "map (\<lambda>(r, i). Store r (- 8 * of_nat i) RDI) (zip ?rs [1..<1 + length ?rs])"
  have asm: "setup_forked_kthread_stack_asm = StoreI 0 0 RDI # ?st @ [Retq]"
    by (simp add: setup_forked_kthread_stack_asm_def upt_conv_Cons)
  have rs: "rev context_regs = RAX # ?rs" by (simp add: context_regs_def)
  define m0 where "m0 = m\<lparr>regs := (regs m)(RSP := regs m RSP - 8), cells := (cells m)(regs m RSP - 8 := ret, c := 0)\<rparr>"
  have p: "Option.bind (push ret m) (step j (StoreI 0 0 RDI)) = Some m0"
    using assms(1-3) by (simp add: push_def store_def set_reg_def m0_def)
  define vs where "vs = map (regs m0) ?rs"
  have vs: "map ((regs m)(RAX := 0)) (rev context_regs) = 0 # vs" unfolding rs vs_def by (simp add: m0_def)
  have "M = put_words (cells m0) c vs" unfolding M vs by (simp add: m0_def)
  then have s: "run j ?st m0 = Some (m0\<lparr>cells := M\<rparr>)"
    using run_stores [of m0 j ?rs 1] assms(2,3) unfolding vs_def [symmetric] by (simp add: m0_def del: run_simps list.map zip_Cons_Cons upt_Suc)
  have len: "length (map ((regs m)(RAX := 0)) (rev context_regs)) = 16" by (simp add: context_regs_def)
  have "M (regs m RSP - 8) = ret"
    unfolding M by (subst put_words_other) (simp_all only: len assms(4) fun_upd_same not_False_eq_True)
  then have r: "run j [Retq] (m0\<lparr>cells := M\<rparr>) = Some (m\<lparr>cells := M, ip := ret\<rparr>)"
    using assms(1) by (simp add: m0_def pop_def load_def set_reg_def)
  have "call_asm j ret setup_forked_kthread_stack_asm m = Option.bind (Option.bind (push ret m) (step j (StoreI 0 0 RDI))) (run j (?st @ [Retq]))"
    unfolding call_asm_def asm by (simp only: run_simps [abs_def] bind_assoc)
  then show ?thesis by (simp only: p Option.bind.simps run_append s r)
qed

text \<open>The memory at the end of \<open>fork\<close>: \<open>x\<close> is the word below the parent's stack pointer, where the
  calls put their return addresses.\<close>

definition forked_mem :: "u64 \<Rightarrow> u64 \<Rightarrow> u64 \<Rightarrow> nat \<Rightarrow> nat \<Rightarrow> 'w cpu \<Rightarrow> u64 \<Rightarrow> u64" where
  "forked_mem ret parent child s0 s m =
     (put_words ((copy_stack parent child (cells m))(k_stack parent (s0 - 1) := ret, parent := k_stack parent s0))
       (k_stack child s) (map ((regs m)(RDI := k_stack child (s - 1), RAX := 0)) (rev context_regs)))
     (child := k_stack child (s - 16))"

text \<open>A state in which \<open>fork\<close> reaches its end: the parent's stack pointer is at word \<open>s0\<close> of its stack, the
  return address at word \<open>s\<close>, not found before, and the child's \<open>rsp_val\<close> is the top of its stack.\<close>

definition fork_ready :: "u64 \<Rightarrow> u64 \<Rightarrow> nat \<Rightarrow> nat \<Rightarrow> u64 \<Rightarrow> 'w cpu \<Rightarrow> bool" where
  "fork_ready parent child s0 s rv m \<longleftrightarrow>
     thread_block parent \<inter> thread_block child = {} \<and> unat parent + 33096 < 2 ^ 64 \<and> unat child + 33096 < 2 ^ 64 \<and>
     aligned parent \<and> aligned child \<and> regs m RSP = k_stack parent s0 \<and> 0 < s0 \<and> s0 \<le> s \<and> 16 \<le> s \<and> s < K_STACK_SIZE \<and>
     cells m child = k_stack child (K_STACK_SIZE - 1) \<and>
     cells m (k_stack parent s) = rv \<and> (\<forall>i\<in>{s0..<s}. cells m (k_stack parent i) \<noteq> rv)"

lemma apart_ne:
  assumes "fork_ready parent child s0 s rv m" "i < K_STACK_SIZE" "i' < K_STACK_SIZE"
  shows "parent \<noteq> child" "k_stack parent i \<noteq> child" "k_stack child i \<noteq> parent" "k_stack parent i \<noteq> k_stack child i'"
  using assms self_block [of parent] self_block [of child] k_stack_block(1) [of parent i]
    k_stack_block(1) [of child i] k_stack_block(1) [of child i'] by (auto simp: fork_ready_def)

lemma below_child:
  assumes "16 \<le> s"
  shows "words_below (k_stack child s) 16 = k_stack child ` {s - 16..<s}"
proof -
  have "words_below (k_stack child s) 16 = (\<lambda>i. k_stack child (s - Suc i)) ` {..<16}"
    unfolding words_below_def using assms by (intro image_cong) (simp_all add: k_stack_sub del: of_nat_Suc)
  also have "\<dots> = k_stack child ` ((\<lambda>i. s - Suc i) ` {..<16})" by (simp add: image_image)
  also have "(\<lambda>i. s - Suc i) ` {..<16} = {s - 16..<s}"
  proof
    show "{s - 16..<s} \<subseteq> (\<lambda>i. s - Suc i) ` {..<16}"
    proof
      fix k assume "k \<in> {s - 16..<s}"
      then show "k \<in> (\<lambda>i. s - Suc i) ` {..<16}" using assms by (intro image_eqI [of _ _ "s - Suc k"]) auto
    qed
  qed (use assms in auto)
  finally show ?thesis .
qed

lemma length_context: "length (map f (rev context_regs)) = 16"
  by (simp add: context_regs_def)

lemma forked_mem_other:
  assumes "16 \<le> s" "a \<notin> k_stack child ` {s - 16..<s}" "a \<noteq> child" "a \<noteq> parent" "a \<noteq> k_stack parent (s0 - 1)"
  shows "forked_mem ret parent child s0 s m a = copy_stack parent child (cells m) a"
  using assms by (simp add: forked_mem_def put_words_other below_child length_context del: length_map length_rev)

lemma forked_mem_copy:
  assumes f: "fork_ready parent child s0 s rv m"
  shows "s \<le> i \<Longrightarrow> i < K_STACK_SIZE \<Longrightarrow> forked_mem ret parent child s0 s m (k_stack child i) = cells m (k_stack parent i)"
    and "s0 \<le> i \<Longrightarrow> i < K_STACK_SIZE \<Longrightarrow> forked_mem ret parent child s0 s m (k_stack parent i) = cells m (k_stack parent i)"
    and "a \<notin> thread_block parent \<union> thread_block child \<Longrightarrow> forked_mem ret parent child s0 s m a = cells m a"
proof -
  from f have r: "thread_block parent \<inter> thread_block child = {}" "unat parent + 33096 < 2 ^ 64" "unat child + 33096 < 2 ^ 64"
    "16 \<le> s" "0 < s0" "s0 \<le> s" "s < K_STACK_SIZE" by (simp_all add: fork_ready_def)
  note cp = copy_stack_simps [OF r(1-3), of _ "cells m"]
  note blk = k_stack_block [OF r(3)] k_stack_block [OF r(2)]
  note ne = apart_ne [OF f]
  have eq: "k_stack t i = k_stack t k \<longleftrightarrow> i = k" if "i < K_STACK_SIZE" "k < K_STACK_SIZE" for t i k
    using that by (intro k_stack_eq) (simp_all add: K_STACK_SIZE_def)
  have s0: "s0 - 1 < K_STACK_SIZE" using r by simp
  {
    assume i: "s \<le> i" "i < K_STACK_SIZE"
    have "k_stack child i \<notin> k_stack child ` {s - 16..<s}" using i eq by auto
    then show "forked_mem ret parent child s0 s m (k_stack child i) = cells m (k_stack parent i)"
      using forked_mem_other [OF r(4)] blk(2) ne(3) ne(4) [OF s0] cp(1) i by metis
  next
    assume i: "s0 \<le> i" "i < K_STACK_SIZE"
    have "k_stack parent i \<notin> k_stack child ` {s - 16..<s}" "k_stack parent i \<noteq> k_stack parent (s0 - 1)"
      using i r eq [of i "s0 - 1"] ne(4) [of i] by (auto simp: image_iff)
    moreover have "k_stack parent i \<notin> thread_block child" using blk(3) [OF i(2)] r(1) by blast
    ultimately show "forked_mem ret parent child s0 s m (k_stack parent i) = cells m (k_stack parent i)"
      using forked_mem_other [OF r(4)] blk(4) ne(2) cp(2) i by metis
  next
    assume a: "a \<notin> thread_block parent \<union> thread_block child"
    have "a \<notin> k_stack child ` {s - 16..<s}" using a blk(1) r by auto
    moreover have "a \<noteq> child" "a \<noteq> parent" "a \<noteq> k_stack parent (s0 - 1)" using a self_block blk(3) [OF s0] by auto
    ultimately show "forked_mem ret parent child s0 s m a = cells m a"
      using forked_mem_other [OF r(4), of a child parent s0 ret m] cp(2) [of a] a by simp
  }
qed

lemma forked_suspended:
  assumes f: "fork_ready parent child s0 s rv m"
  shows "suspended (forked_mem ret parent child s0 s m) child
      ((regs m)(RAX := 0, RDI := k_stack child (s - 1), RSP := k_stack child (s + 1)), rv)"
    and "forked_mem ret parent child s0 s m child = k_stack child (s - 16)"
    and "on_stack child (k_stack child (s - 16)) 17"
proof -
  let ?M = "forked_mem ret parent child s0 s m" and ?v = "(regs m)(RAX := 0, RDI := k_stack child (s - 1), RSP := k_stack child (s + 1))"
  from f have r: "unat child + 33096 < 2 ^ 64" "16 \<le> s" "s < K_STACK_SIZE" "aligned child" "cells m (k_stack parent s) = rv" by (simp_all add: fork_ready_def)
  show c: "?M child = k_stack child (s - 16)" by (simp add: forked_mem_def)
  have u: "unat (k_stack child (s - 16)) = unat child + 16 + 8 * (s - 16)"
  proof -
    have "unat (child + 16) = unat child + 16" using r(1) by (simp add: unat_word_ariths(1))
    then show ?thesis using word_range [of "child + 16" "s - 16" "s - 16"] r(1,3) by (simp add: k_stack_def K_STACK_SIZE_def)
  qed
  then show "on_stack child (k_stack child (s - 16)) 17" using r by (simp add: on_stack_def K_STACK_SIZE_def)
  define vs where "vs = map ((regs m)(RDI := k_stack child (s - 1), RAX := 0)) (rev context_regs)"
  have len: "length vs = 16" by (simp add: vs_def length_context del: length_map length_rev)
  have "stack_frame (put_words M' (k_stack child s) vs) (k_stack child (s - 16)) (rev vs)" for M'
    using put_words_frame [of vs M' "k_stack child s"] len k_stack_sub [OF r(2), of child] by simp
  then have "stack_frame ?M (k_stack child (s - 16)) (rev vs)"
  proof (rule stack_frame_cong)
    fix i assume "i < length (rev vs)"
    with r len have "k_stack child (s - 16) + 8 * of_nat i \<noteq> child" using k_stack_block(2) [OF r(1), of "s - 16 + i"] by (simp add: k_stack_add)
    then show "?M (k_stack child (s - 16) + 8 * of_nat i) = put_words ((copy_stack parent child (cells m))(k_stack parent (s0 - 1) := ret, parent := k_stack parent s0))
       (k_stack child s) vs (k_stack child (s - 16) + 8 * of_nat i)" by (simp add: forked_mem_def vs_def)
  qed
  moreover have "rev vs = map ?v context_regs" by (simp add: vs_def context_regs_def)
  moreover have "?M (k_stack child s) = rv" using forked_mem_copy(1) [OF f, of s] r by simp
  ultimately have "stack_frame ?M (k_stack child (s - 16)) (map ?v context_regs @ [rv])"
    using len k_stack_add [of child "s - 16" 16] r(2) unfolding stack_frame_append by (metis le_add_diff_inverse2 length_rev stack_frame.simps)
  then show "suspended ?M child (?v, rv)"
    using r k_stack_add [of child "s - 16" 17] by (simp add: suspended_def c)
qed


lemma fork_stack_eq:
  assumes f: "fork_ready parent child s0 s rv m"
  shows "fork_stack j ret pid rv parent child m =
     Some (m\<lparr>regs := (regs m)(RDI := pid, RAX := pid), cells := forked_mem ret parent child s0 s m, ip := ret\<rparr>)"
proof -
  from f have r: "thread_block parent \<inter> thread_block child = {}" "unat parent + 33096 < 2 ^ 64" "unat child + 33096 < 2 ^ 64"
    "aligned parent" "aligned child" "regs m RSP = k_stack parent s0" "0 < s0" "s0 \<le> s" "16 \<le> s" "s < K_STACK_SIZE"
    "cells m child = k_stack child (K_STACK_SIZE - 1)" "cells m (k_stack parent s) = rv"
    "\<forall>i\<in>{s0..<s}. cells m (k_stack parent i) \<noteq> rv" by (simp_all add: fork_ready_def)
  let ?x = "k_stack parent (s0 - 1)" and ?c = "k_stack child (s - 1)"
  define A where "A = (copy_stack parent child (cells m))(?x := ret, parent := k_stack parent s0)"
  have x: "k_stack parent s0 - 8 = ?x" using k_stack_sub [of 1 s0 parent] r(7) by simp
  have s0: "s0 - 1 < K_STACK_SIZE" "s < K_STACK_SIZE" using r by simp_all
  note ne = apart_ne [OF f] and cp = copy_stack_simps [OF r(1-3), of _ "cells m"]
  have Ac: "A (k_stack child i) = cells m (k_stack parent i)" if "i < K_STACK_SIZE" for i
    using ne(3) [OF that that] ne(4) [OF s0(1) that] cp(1) [OF that] by (simp add: A_def)
  have Ach: "A child = k_stack child (K_STACK_SIZE - 1)"
    using ne(1,2) [OF s0(1) s0(2)] cp(2) [of child] r(11) by (simp add: A_def)
  have d: "8 * signed_drop_bit 3 (k_stack parent (K_STACK_SIZE - 1) - k_stack parent s0) = 8 * of_nat (K_STACK_SIZE - 1 - s0)"
  proof -
    have "k_stack parent (K_STACK_SIZE - 1) - k_stack parent s0 = 8 * of_nat (K_STACK_SIZE - 1 - s0)"
      using r by (simp add: k_stack_def of_nat_diff K_STACK_SIZE_def right_diff_distrib)
    then show ?thesis using eight_drop [of "8 * of_nat (K_STACK_SIZE - 1 - s0)"] aligned_eight by simp
  qed
  have start: "A child - 8 * signed_drop_bit 3 (k_stack parent (K_STACK_SIZE - 1) - k_stack parent s0) = k_stack child s0"
    unfolding d Ach using r by (subst k_stack_sub) (simp_all add: K_STACK_SIZE_def)
  have found: "find_return rv (k_stack child s0) A = Some (k_stack child s)"
  proof -
    obtain n where n: "s = s0 + n" using r(8) le_iff_add by blast
    have "find_return rv (k_stack child s0) A = Some (k_stack child s0 + 8 * of_nat n)"
      using r Ac n by (intro find_return_first) (simp_all add: k_stack_add)
    then show ?thesis by (simp add: k_stack_add n)
  qed
  define m2 where "m2 = m\<lparr>regs := (regs m)(RAX := ?x), cells := A, ip := ret\<rparr>"
  have al: "aligned (k_stack parent s0)" using r(4) by simp
  have Ax: "A(?x := ret) = A" using ne k_stack_block(2) [OF r(2) s0(1)] by (auto simp: A_def)
  define m3 where "m3 = m\<lparr>regs := (regs m)(RDI := ?c, RAX := 0), cells := A, ip := ret\<rparr>"
  define M where "M = put_words A (k_stack child s) (map ((regs m)(RDI := ?c, RAX := 0)) (rev context_regs))"
  have c8: "?c + 8 = k_stack child s" using k_stack_Suc [of child "s - 1"] r(9) by simp
  have xb: "?x \<notin> words_below (k_stack child s) 16"
    unfolding below_child [OF r(9)] using ne(4) [OF s0(1) less_trans [OF _ s0(2)]] by (force simp del: One_nat_def)
  have su: "call_asm j ret setup_forked_kthread_stack_asm m3 = Some (m3\<lparr>cells := M, ip := ret\<rparr>)"
    by (rule call_setup_forked [of m3 ?c]) (use al r(5,6) xb in \<open>simp_all add: m3_def x c8 Ax M_def fun_upd_twist del: One_nat_def\<close>)
  have Mx: "M ?x = ret" unfolding M_def using xb Ax by (subst put_words_other) (simp_all add: length_context fun_upd_idem_iff del: length_map length_rev One_nat_def)
  have c128: "k_stack child s - 128 = k_stack child (s - 16)" using k_stack_sub [of 16 s child] r(9) by simp
  have fin: "(M(child := k_stack child (s - 16)))(?x := ret) = forked_mem ret parent child s0 s m"
    using Mx ne(2) [OF s0(1,1)] by (auto simp: forked_mem_def M_def A_def simp del: One_nat_def)
  have x8: "?x + 8 = k_stack parent s0" using x by (simp add: algebra_simps)
  define m1 where "m1 = m\<lparr>regs := (regs m)(RAX := ?x), cells := (copy_stack parent child (cells m))(?x := ret), ip := ret\<rparr>"
  have "call_asm j ret get_rsp_val_asm (m\<lparr>cells := copy_stack parent child (cells m)\<rparr>) = Some m1" "call_asm j ret get_rsp_val_asm m1 = Some m1"
    using al r(6) x by (simp_all add: call_get_rsp m1_def del: One_nat_def)
  moreover have "store parent (regs m1 RAX + 8) m1 = Some m2" using r(4) by (simp add: store_def m1_def m2_def A_def x8 del: One_nat_def)
  moreover have "call_asm j ret put_in_rax_asm (set_reg RDI 0 m2) = Some (set_reg RDI 0 (set_reg RAX 0 m2))"
    using al r(6) by (simp add: call_put_rax set_reg_def m2_def x Ax fun_upd_twist del: One_nat_def)
  moreover have "set_reg RDI ?c (set_reg RDI 0 (set_reg RAX 0 m2)) = m3" by (simp add: set_reg_def m2_def m3_def fun_upd_twist del: One_nat_def)
  moreover have "store child (k_stack child s - 128) (m3\<lparr>cells := M, ip := ret\<rparr>) = Some (m3\<lparr>cells := M(child := k_stack child (s - 16)), ip := ret\<rparr>)"
    using r(5) by (simp add: store_def c128 del: One_nat_def)
  moreover have "call_asm j ret put_in_rax_asm (set_reg RDI pid (m3\<lparr>cells := M(child := k_stack child (s - 16)), ip := ret\<rparr>)) =
      Some (m\<lparr>regs := (regs m)(RDI := pid, RAX := pid), cells := forked_mem ret parent child s0 s m, ip := ret\<rparr>)"
    using al r(6) by (simp add: call_put_rax set_reg_def m3_def x fin fun_upd_twist del: One_nat_def)
  moreover have "k_stack child s - 8 = ?c" using c8 by (simp add: algebra_simps)
  moreover have "regs m1 RAX + 8 = k_stack parent s0" "cells m2 = A" by (simp_all add: m1_def m2_def x8 del: One_nat_def)
  ultimately show ?thesis unfolding fork_stack_def using start found su by (simp add: Let_def del: One_nat_def)
qed


text \<open>C6. Fork returns twice: the parent continues with the child's identifier in the result register, its stack
  from the stack pointer up as it was; the child is suspended at the return address of \<open>fork\<close> with \<open>0\<close> in
  the result register and otherwise the parent's registers, and its own stack holds the parent's words
  from the return address up. No other thread's memory changes.\<close>

theorem fork_returns_twice:
  assumes "fork_ready parent child s0 s rv m"
  shows "\<exists>m'. fork_stack j ret pid rv parent child m = Some m' \<and> regs m' RAX = pid \<and> regs m' RSP = regs m RSP \<and>
     suspended (cells m') child ((regs m)(RAX := 0, RDI := k_stack child (s - 1), RSP := k_stack child (s + 1)), rv) \<and>
     on_stack child (cells m' child) 17 \<and>
     (\<forall>i. s \<le> i \<and> i < K_STACK_SIZE \<longrightarrow> cells m' (k_stack child i) = cells m (k_stack parent i)) \<and>
     (\<forall>i. s0 \<le> i \<and> i < K_STACK_SIZE \<longrightarrow> cells m' (k_stack parent i) = cells m (k_stack parent i)) \<and>
     (\<forall>a. a \<notin> thread_block parent \<union> thread_block child \<longrightarrow> cells m' a = cells m a)"
  by (rule exI, rule conjI, rule fork_stack_eq [OF assms])
    (use forked_suspended(1,2) [OF assms, where ret = ret] forked_suspended(3) [OF assms] forked_mem_copy [OF assms, where ret = ret] in simp)

definition stacks_small :: "u64 \<Rightarrow> u64" where
  "stacks_small = (\<lambda>_. 0)(k_stack 0x10000 40 := 0x1234, 0x20000 := k_stack 0x20000 (K_STACK_SIZE - 1))"

lemma fork_ready_small:
  "fork_ready 0x10000 0x20000 30 40 0x1234 (\<lparr>regs = (\<lambda>_. 5)(RSP := k_stack 0x10000 30), cells = stacks_small, ip = 0, cs = 8, ss = 0x10, rflags = 2, rsp0 = 0, world = ()\<rparr>)"
proof -
  have "thread_block 0x10000 \<inter> thread_block 0x20000 = {}" by (auto simp: thread_block_def)
  moreover have "stacks_small (k_stack 0x10000 i) \<noteq> 0x1234" if "30 \<le> i" "i < 40" for i
  proof -
    have "k_stack 0x10000 i \<noteq> k_stack 0x10000 40" using that k_stack_eq [of i 40 "0x10000"] by simp
    moreover have "k_stack 0x10000 i \<noteq> 0x20000"
      using k_stack_block(1) [of "0x10000" i] that by (auto simp: thread_block_def K_STACK_SIZE_def)
    ultimately show ?thesis by (simp add: stacks_small_def)
  qed
  ultimately show ?thesis by (simp add: fork_ready_def stacks_small_def aligned_def K_STACK_SIZE_def k_stack_def)
qed

theorem fork_returns_twice_witness:
  "\<exists>m'. fork_stack callee_small 0x99 3 0x1234 0x10000 0x20000
      (\<lparr>regs = (\<lambda>_. 5)(RSP := k_stack 0x10000 30), cells = stacks_small, ip = 0, cs = 8, ss = 0x10, rflags = 2, rsp0 = 0, world = ()\<rparr>) = Some m' \<and>
     regs m' RAX = 3 \<and> suspended (cells m') 0x20000 ((\<lambda>_. 5)(RAX := 0, RDI := k_stack 0x20000 39, RSP := k_stack 0x20000 41), 0x1234)"
  using fork_returns_twice [OF fork_ready_small, where j = callee_small and ret = "0x99" and pid = 3] by (auto simp: fun_upd_twist)

subsection \<open>First runs\<close>

lemma clear_stack_keeps:
  "(\<And>i. i < K_STACK_SIZE div 8 \<Longrightarrow> a \<noteq> k_stack t i) \<Longrightarrow> clear_stack t M a = M a"
proof -
  have "(\<forall>i<n. a \<noteq> k_stack t i) \<Longrightarrow> fold (\<lambda>i M. M(k_stack t i := 0)) [0..<n] M a = M a" for n
    by (induction n) auto
  then show "(\<And>i. i < K_STACK_SIZE div 8 \<Longrightarrow> a \<noteq> k_stack t i) \<Longrightarrow> clear_stack t M a = M a"
    unfolding clear_stack_def by blast
qed

text \<open>A new process is suspended at its first instruction in the kernel, with cleared registers, if the
  memory of its structure was clear.\<close>

lemma new_stack_suspended:
  assumes t: "aligned t" "unat t + 33096 < 2 ^ 64" and zero: "\<And>a. a \<in> thread_block t \<Longrightarrow> M a = 0"
  shows "suspended (new_stack start t M) t ((\<lambda>_. 0)(RSP := k_stack t K_STACK_SIZE), start)"
    and "on_stack t (new_stack start t M t) 17"
proof -
  let ?M = "new_stack start t M" and ?top = "K_STACK_SIZE - 1"
  have eq: "k_stack t i = k_stack t k \<longleftrightarrow> i = k" if "i < K_STACK_SIZE" "k < K_STACK_SIZE" for i k
    using that by (intro k_stack_eq) (simp_all add: K_STACK_SIZE_def)
  have z: "?M (k_stack t i) = 0" if "K_STACK_SIZE div 8 \<le> i" "i < ?top" for i
  proof -
    have "clear_stack t M (k_stack t i) = M (k_stack t i)" using that eq [of i] by (intro clear_stack_keeps) (auto simp: K_STACK_SIZE_def)
    then show ?thesis using that eq [of i ?top] k_stack_block [OF t(2), of i] zero by (auto simp: new_stack_def)
  qed
  have top_word: "?M (k_stack t ?top) = start" using k_stack_block(2) [OF t(2), of ?top] by (simp add: new_stack_def K_STACK_SIZE_def)
  have rv: "?M t = k_stack t (K_STACK_SIZE - 17)" by (simp add: new_stack_def)
  have "stack_frame ?M (k_stack t (K_STACK_SIZE - 17)) (replicate 16 0 @ [start])"
    unfolding stack_frame_nth
  proof (intro allI impI)
    fix i :: nat assume "i < length (replicate 16 0 @ [start])"
    then have i: "i < 16 \<or> i = 16" by auto
    have "K_STACK_SIZE - 17 + 16 = ?top" by (simp add: K_STACK_SIZE_def)
    with i z [of "K_STACK_SIZE - 17 + i"] top_word show "?M (k_stack t (K_STACK_SIZE - 17) + 8 * of_nat i) = (replicate 16 0 @ [start]) ! i"
      by (auto simp: k_stack_add nth_append K_STACK_SIZE_def simp del: One_nat_def)
  qed
  moreover have "map ((\<lambda>_. 0)(RSP := k_stack t K_STACK_SIZE)) context_regs = replicate 16 0" by (simp add: context_regs_def numeral_eq_Suc)
  ultimately show "suspended ?M t ((\<lambda>_. 0)(RSP := k_stack t K_STACK_SIZE), start)"
    using t(1) k_stack_add [of t "K_STACK_SIZE - 17" 17] by (simp add: suspended_def rv K_STACK_SIZE_def)
  have "unat (t + 16) = unat t + 16" using t(2) by (simp add: unat_word_ariths(1))
  then show "on_stack t (?M t) 17"
    using word_range [of "t + 16" "K_STACK_SIZE - 17" "K_STACK_SIZE - 17"] t(2) by (simp add: rv on_stack_def k_stack_def K_STACK_SIZE_def)
qed

text \<open>The idle process is entered by loading its stack pointer.\<close>

lemma idle_starts:
  assumes "aligned t" "regs m RDI = cells m t" "cells m = idle_stack init_scheduler t M" "unat t + 33096 < 2 ^ 64"
  shows "run j set_rsp_asm m = Some (m\<lparr>regs := (regs m)(RSP := k_stack t K_STACK_SIZE), ip := init_scheduler\<rparr>)"
proof -
  have "k_stack t (K_STACK_SIZE - 1) \<noteq> t" by (rule k_stack_block(2) [OF assms(4)]) (simp add: K_STACK_SIZE_def)
  moreover have "k_stack t (K_STACK_SIZE - 1) + 8 = k_stack t K_STACK_SIZE" by (simp add: k_stack_Suc K_STACK_SIZE_def)
  ultimately show ?thesis using assms(1,2)
    by (simp add: set_rsp_asm_def set_reg_def pop_def load_def assms(3) idle_stack_def del: One_nat_def)
qed

definition two_threads :: "u64 \<Rightarrow> u64" where
  "two_threads = new_stack 0x5678 0x20000 ((\<lambda>_. 0)(8 := 0x10000))"

definition switching :: "unit cpu" where
  "switching = \<lparr>regs = (\<lambda>_. 5)(RSP := k_stack 0x10000 100, RDI := 8, RSI := 0x20000), cells = two_threads, ip = 0, cs = 8, ss = 0x10, rflags = 2, rsp0 = 0, world = ()\<rparr>"

lemma two_threads_apart: "threads_apart 8 {0x10000, 0x20000}"
  by (auto simp: threads_apart_def thread_block_def aligned_def)

lemma two_threads_contexts:
  "two_threads 8 = 0x10000" "contexts 8 {0x10000, 0x20000} two_threads (\<lambda>_. ((\<lambda>_. 0)(RSP := k_stack 0x20000 K_STACK_SIZE), 0x5678))"
proof -
  have zero: "((\<lambda>_. 0)(8 := 0x10000)) a = (0 :: u64)" if "a \<in> thread_block 0x20000" for a using that by (auto simp: thread_block_def)
  have ne: "8 \<noteq> k_stack 0x20000 i" if "i < K_STACK_SIZE" for i using k_stack_block(1) [of "0x20000" i] that by (auto simp: thread_block_def)
  have "clear_stack 0x20000 M 8 = M 8" for M by (rule clear_stack_keeps) (rule ne, simp)
  then show cur: "two_threads 8 = 0x10000" using ne [of "K_STACK_SIZE - 1"] by (simp add: two_threads_def new_stack_def K_STACK_SIZE_def)
  show "contexts 8 {0x10000, 0x20000} two_threads (\<lambda>_. ((\<lambda>_. 0)(RSP := k_stack 0x20000 K_STACK_SIZE), 0x5678))"
    using new_stack_suspended [of "0x20000" "(\<lambda>_. 0)(8 := 0x10000)" "0x5678"] zero cur
    by (simp add: contexts_def two_threads_def [symmetric] aligned_def)
qed

theorem switch_to_contexts_witness:
  "\<exists>M. run callee_small switch_to_asm switching = Some (switching\<lparr>regs := (\<lambda>_. 0)(RSP := k_stack 0x20000 K_STACK_SIZE), cells := M, ip := 0x5678\<rparr>) \<and> M 8 = 0x20000 \<and>
     suspended M 0x10000 ((regs switching)(RSP := k_stack 0x10000 101), 0)"
proof -
  let ?ctx = "\<lambda>_. ((\<lambda>_. 0)(RSP := k_stack 0x20000 K_STACK_SIZE), 0x5678) :: (reg \<Rightarrow> u64) \<times> u64"
  have c: "contexts 8 {0x10000, 0x20000} (cells switching) ?ctx" "cells switching 8 = 0x10000"
    using two_threads_contexts by (simp_all add: switching_def)
  have r: "regs switching RDI = 8" "regs switching RSI = 0x20000" "regs switching RSP = k_stack 0x10000 100" by (simp_all add: switching_def)
  have u: "unat (k_stack 0x10000 100) = 0x10000 + 16 + 800" by (simp add: k_stack_def)
  have al: "aligned (regs switching RSP)" unfolding r(3) aligned_k_stack by (simp add: aligned_def)
  have room: "unat (0x10000 :: u64) + 16 + 128 \<le> unat (regs switching RSP)" "unat (regs switching RSP) + 8 \<le> unat (0x10000 :: u64) + 16 + 8 * K_STACK_SIZE"
    by (simp_all add: r(3) u K_STACK_SIZE_def)
  have "k_stack 0x10000 100 \<noteq> 8" "k_stack 0x10000 100 \<noteq> 0x20000" by (simp_all add: k_stack_def)
  moreover have "k_stack 0x10000 100 \<noteq> k_stack 0x20000 i" if "i < K_STACK_SIZE" for i
    using k_stack_block(1) [of "0x20000" i] that by (auto simp: thread_block_def k_stack_def [of "0x10000"])
  moreover from this have "clear_stack 0x20000 M (k_stack 0x10000 100) = M (k_stack 0x10000 100)" for M by (intro clear_stack_keeps) simp
  ultimately have top_word: "cells switching (regs switching RSP) = 0"
    unfolding r(3) by (simp add: switching_def two_threads_def new_stack_def K_STACK_SIZE_def)
  let ?R = "run callee_small switch_to_asm switching"
  obtain M where M: "?R = Some (switching\<lparr>regs := (\<lambda>_. 0)(RSP := k_stack 0x20000 K_STACK_SIZE), cells := M, ip := 0x5678\<rparr>)" "M 8 = 0x20000"
    "contexts 8 {0x10000, 0x20000} M (?ctx(0x10000 := ((regs switching)(RSP := regs switching RSP + 8), cells switching (regs switching RSP))))"
    using switch_to_contexts [OF two_threads_apart c _ _ _ r(1,2) al room, of callee_small] by auto
  have "suspended M 0x10000 ((regs switching)(RSP := k_stack 0x10000 101), 0)"
    using M(3) [unfolded contexts_def M(2), rule_format, of "0x10000"] top_word by (simp add: r(3) k_stack_Suc)
  with M(1,2) show ?thesis by blast
qed

end
