(* ===== verification/Descriptors.thy ===== *)
theory Descriptors
  imports Snow_Prelude
begin

text \<open>
  The descriptor tables: the interrupt gates of \<^verbatim>\<open>sys/interrupt.c\<close> and the segment descriptors of
  \<^verbatim>\<open>sys/gdt.c\<close>. The addresses of the handlers and of the tables are arguments; loading the tables
  into the processor is not part of the model.
\<close>

subsection \<open>Interrupt gates\<close>

record idt_struct =
  offset_1 :: u16
  gate_selector :: u16
  gate_zero :: u8
  type_attr :: u8
  offset_2 :: u16
  offset_3 :: u32
  gate_reserved :: u32

record idtr_struct =
  idtr_limit :: u16
  idtr_offset :: u64

definition PAGE_FAULT :: u8 where "PAGE_FAULT = 14"

definition IRQ0 :: u8 where "IRQ0 = 32"

definition IRQ1 :: u8 where "IRQ1 = 33"

definition SOFT_INTR :: u8 where "SOFT_INTR = 128"

definition DOUBLE_PAGE_FAULT :: u8 where "DOUBLE_PAGE_FAULT = 8"

definition set_irq :: "u8 \<Rightarrow> u64 \<Rightarrow> u16 \<Rightarrow> u8 \<Rightarrow> idt_struct list \<Rightarrow> idt_struct list" where
  "set_irq int_n addr sel attr idt_t = idt_t[unat int_n :=
     \<lparr>offset_1 = ucast addr AND 0xFFFF, gate_selector = sel, gate_zero = 0, type_attr = attr,
      offset_2 = ucast (drop_bit 16 addr AND 0xFFFF), offset_3 = ucast (drop_bit 32 addr AND 0xFFFFFFFF),
      gate_reserved = 0\<rparr>]"

definition gate_null :: idt_struct where
  "gate_null = \<lparr>offset_1 = 0, gate_selector = 0, gate_zero = 0, type_attr = 0, offset_2 = 0, offset_3 = 0, gate_reserved = 0\<rparr>"

definition init_idt :: "u64 \<Rightarrow> u64 \<Rightarrow> u64 \<Rightarrow> u64 \<Rightarrow> u64 \<Rightarrow> idtr_struct \<times> idt_struct list" where
  "init_idt timer_isr keyboard_isr syscall_isr page_fault_isr idt_addr =
     (\<lparr>idtr_limit = 16 * 256 - 1, idtr_offset = idt_addr\<rparr>,
      set_irq DOUBLE_PAGE_FAULT page_fault_isr 0x8 0x8E
        (set_irq PAGE_FAULT page_fault_isr 0x8 0x8E
          (set_irq SOFT_INTR syscall_isr 0x8 0xEE
            (set_irq IRQ1 keyboard_isr 0x8 0x8E
              (set_irq IRQ0 timer_isr 0x8 0x8E (replicate 256 gate_null))))))"

subsection \<open>Segment descriptors\<close>

definition GDT_CS :: u64 where "GDT_CS = 0x00180000000000"

definition GDT_DS :: u64 where "GDT_DS = 0x00100000000000"

definition DPL0 :: u64 where "DPL0 = 0"

definition DPL3 :: u64 where "DPL3 = 0x00600000000000"

definition seg_P :: u64 where "seg_P = 0x00800000000000"

definition seg_L :: u64 where "seg_L = 0x20000000000000"

definition seg_W :: u64 where "seg_W = 0x00020000000000"

definition MAX_GDT :: nat where "MAX_GDT = 32"

definition gdt :: "u64 list" where
  "gdt = [0, GDT_CS OR seg_P OR DPL0 OR seg_L, GDT_DS OR seg_P OR seg_W OR DPL0, 0,
     GDT_DS OR seg_P OR seg_W OR DPL3, GDT_CS OR seg_P OR DPL3 OR seg_L] @ replicate (MAX_GDT - 6) 0"

text \<open>A store to a bit field, in the two table entries the descriptor occupies.\<close>

definition put_field :: "nat \<Rightarrow> nat \<Rightarrow> u64 \<Rightarrow> 128 word \<Rightarrow> 128 word" where
  "put_field pos w v d = (d AND NOT (push_bit pos (mask w))) OR push_bit pos (take_bit w (ucast v))"

definition tss_descriptor :: "u64 \<Rightarrow> 128 word \<Rightarrow> 128 word" where
  "tss_descriptor tss d = fold (\<lambda>(pos, w, v). put_field pos w v)
     [(0, 16, 104 - 1), (16, 24, tss), (40, 5, 9), (45, 2, 0), (47, 1, 1), (48, 4, 0), (55, 1, 0), (56, 40, drop_bit 24 tss)] d"

definition init_gdt :: "u64 \<Rightarrow> u64 list \<Rightarrow> u64 list" where
  "init_gdt tss table =
     (let d = tss_descriptor tss (ucast (table ! 6) OR push_bit 64 (ucast (table ! 7)))
      in table[6 := ucast d, 7 := ucast (drop_bit 64 d)])"

subsection \<open>Lemmas\<close>

definition gate_offset :: "idt_struct \<Rightarrow> u64" where
  "gate_offset g = ucast (offset_1 g) OR push_bit 16 (ucast (offset_2 g)) OR push_bit 32 (ucast (offset_3 g))"

lemma gate_offset_split:
  fixes addr :: u64
  shows "ucast (ucast addr AND 0xFFFF :: u16) OR push_bit 16 (ucast (ucast (drop_bit 16 addr AND 0xFFFF) :: u16)) OR
     push_bit 32 (ucast (ucast (drop_bit 32 addr AND 0xFFFFFFFF) :: u32)) = addr"
proof -
  have m: "(0xFFFF :: u16) = mask 16" "(0xFFFF :: u64) = mask 16" "(0xFFFFFFFF :: u64) = mask 32" by (simp_all add: mask_eq_exp_minus_1)
  have "bit addr (32 + (n - 32)) \<or> n < 32" if "bit addr n" for n using that by (cases "n < 32") auto
  then show ?thesis unfolding m
    by (intro bit_word_eqI) (auto simp: bit_simps, fastforce+)
qed

text \<open>The base address a descriptor of a task state segment denotes.\<close>

definition descriptor_base :: "128 word \<Rightarrow> u64" where
  "descriptor_base d = ucast (take_bit 24 (drop_bit 16 d)) OR push_bit 24 (ucast (take_bit 40 (drop_bit 56 d)))"

lemma bit_put_field:
  "n < 128 \<Longrightarrow> w \<le> 64 \<Longrightarrow> bit (put_field pos w v d) n = (if pos \<le> n \<and> n < pos + w then bit v (n - pos) else bit d n)"
  by (auto simp: put_field_def bit_simps)

lemma tss_descriptor_base: "descriptor_base (tss_descriptor tss d) = tss"
proof (rule bit_word_eqI)
  fix n assume "n < LENGTH(64)"
  then have n: "n < 64" by simp
  show "bit (descriptor_base (tss_descriptor tss d)) n = bit tss n"
  proof (cases "n < 24")
    case True
    have "bit (tss_descriptor tss d) (16 + n) = bit tss n"
      using True by (simp add: tss_descriptor_def bit_put_field)
    then show ?thesis using True by (simp add: descriptor_base_def bit_simps)
  next
    case False
    have "bit (tss_descriptor tss d) (56 + (n - 24)) = bit tss n"
      using False n by (simp add: tss_descriptor_def bit_put_field bit_simps)
    then show ?thesis using False n by (auto simp: descriptor_base_def bit_simps)
  qed
qed

subsection \<open>Properties\<close>

text \<open>C38. The descriptor tables denote what they are built from: after \<open>init_idt\<close> the gates of the
  timer, the keyboard, system calls and the two page faults lead to their handlers' full 64-bit
  addresses and all others are empty, only the gate of system calls may be used from user mode; after
  \<open>init_gdt\<close> the descriptor of the task state segment has its address as base and no other entry has
  changed.\<close>

theorem descriptors_decode:
  "map gate_offset (snd (init_idt t kb sc pf a)) = (replicate 256 0)[32 := t, 33 := kb, 128 := sc, 14 := pf, 8 := pf] \<and>
   map (\<lambda>g. drop_bit 5 (type_attr g) AND 3) (snd (init_idt t kb sc pf a)) = (replicate 256 0)[128 := 3] \<and>
   descriptor_base (ucast (init_gdt tss gdt ! 6) OR push_bit 64 (ucast (init_gdt tss gdt ! 7))) = tss \<and>
   take 6 (init_gdt tss gdt) = take 6 gdt \<and> drop 8 (init_gdt tss gdt) = drop 8 gdt"
proof -
  have g: "gate_offset gate_null = 0" "drop_bit 5 (type_attr gate_null) AND 3 = 0"
    by (simp_all add: gate_offset_def gate_null_def)
  note d = init_idt_def set_irq_def IRQ0_def IRQ1_def SOFT_INTR_def PAGE_FAULT_def DOUBLE_PAGE_FAULT_def
  have "map gate_offset (snd (init_idt t kb sc pf a)) = (replicate 256 0)[32 := t, 33 := kb, 128 := sc, 14 := pf, 8 := pf]"
    by (simp only: d snd_conv map_update map_replicate g) (simp add: gate_offset_def gate_offset_split)
  moreover have "map (\<lambda>g. drop_bit 5 (type_attr g) AND 3) (snd (init_idt t kb sc pf a)) = (replicate 256 0)[128 := 3]"
    by (simp only: d snd_conv map_update map_replicate g idt_struct.simps) (rule nth_equalityI; simp add: nth_list_update)
  moreover have "ucast (ucast d :: u64) OR push_bit 64 (ucast (ucast (drop_bit 64 d) :: u64)) = d" for d :: "128 word"
    by (rule bit_word_eqI) (auto simp: bit_simps)
  then have "descriptor_base (ucast (init_gdt tss gdt ! 6) OR push_bit 64 (ucast (init_gdt tss gdt ! 7))) = tss"
    by (simp add: init_gdt_def Let_def gdt_def MAX_GDT_def tss_descriptor_base)
  moreover have "take 6 (init_gdt tss gdt) = take 6 gdt" "drop 8 (init_gdt tss gdt) = drop 8 gdt"
    by (simp_all add: init_gdt_def Let_def)
  ultimately show ?thesis by blast
qed

end
