(* ===== verification/Ring3.thy ===== *)
theory Ring3
  imports Context Descriptors
begin

text \<open>
  The ways into user mode, the inline assembly of \<^verbatim>\<open>sys/process.c\<close>, with the segments of \<open>Descriptors\<close>.
\<close>

subsection \<open>Entering user mode\<close>

text \<open>The inline assembly of \<open>go_to_ring3\<close> and \<open>go_to_ring3_exec\<close>. The compiler chooses the registers that
  hold the operands; they are arguments, in the order of the operands.\<close>

definition go_to_ring3_asm :: "reg \<Rightarrow> reg \<Rightarrow> 'w instr list" where
  "go_to_ring3_asm rip rsp_user = [
     Movq rsp_user RAX,
     PushI 0x23,
     Push RAX,
     Pushfq,
     PushI 0x2B,
     Push rip,
     Iretq]"

definition go_to_ring3_exec_asm :: "reg \<Rightarrow> reg \<Rightarrow> reg \<Rightarrow> reg \<Rightarrow> reg \<Rightarrow> 'w instr list" where
  "go_to_ring3_exec_asm rsp_val rip rsp_user user_stack_ptr argc = [
     Sti,
     Movq rsp_val RSP,
     Movq rsp_user RAX,
     PushI 0x23,
     Push RAX,
     Pushfq,
     PushI 0x2B,
     Push rip,
     Movq user_stack_ptr RSI,
     Movq argc RDI,
     Iretq]"

lemma foldM_push_iretq:
  assumes "aligned (regs m RSP)"
  shows "Option.bind (foldM push [s, sp, f, c, i] m) iretq =
     Some (m\<lparr>regs := (regs m)(RSP := sp), cells := put_words (cells m) (regs m RSP) [s, sp, f, c, i], ip := i, cs := c, rflags := f, ss := s\<rparr>)"
proof -
  let ?M = "put_words (cells m) (regs m RSP) [s, sp, f, c, i]"
  let ?m = "m\<lparr>regs := (regs m)(RSP := regs m RSP - 40), cells := ?M\<rparr>"
  have "stack_frame ?M (regs m RSP - 40) [i, c, f, sp, s]"
    using put_words_frame [of "[s, sp, f, c, i]" "cells m" "regs m RSP"] by (simp del: put_words.simps stack_frame.simps)
  then have "iretq ?m = Some (?m\<lparr>regs := (regs ?m)(RSP := sp), ip := i, cs := c, rflags := f, ss := s\<rparr>)"
    using assms by (intro iretq_frame) (simp_all del: put_words.simps stack_frame.simps)
  then show ?thesis using assms by (simp add: foldM_push del: put_words.simps stack_frame.simps foldM.simps)
qed


text \<open>A selector names a segment of the table for user mode, and asks for that privilege.\<close>

definition user_selector :: "u64 \<Rightarrow> u64 \<Rightarrow> bool" where
  "user_selector sel kind \<longleftrightarrow> sel AND 3 = 3 \<and> unat (sel div 8) < length gdt \<and>
     (let d = gdt ! unat (sel div 8) in d AND DPL3 = DPL3 \<and> d AND seg_P = seg_P \<and> d AND kind = kind)"

lemma user_selectors: "user_selector 0x2B (GDT_CS OR seg_L)" "user_selector 0x23 (GDT_DS OR seg_W)"
  by (simp_all add: user_selector_def gdt_def GDT_CS_def GDT_DS_def DPL3_def DPL0_def seg_P_def seg_L_def seg_W_def MAX_GDT_def)

text \<open>The state in which a program starts or continues.\<close>

definition in_program :: "u64 \<Rightarrow> u64 \<Rightarrow> 'w cpu \<Rightarrow> bool" where
  "in_program i sp m \<longleftrightarrow> ip m = i \<and> regs m RSP = sp \<and> user_selector (cs m) (GDT_CS OR seg_L) \<and> user_selector (ss m) (GDT_DS OR seg_W)"

text \<open>C20. Entering user mode: both ways into a program continue at its instruction pointer and stack pointer, in
  the code and data segments of user mode, and a program started by \<open>exec\<close> finds its argument count and
  arguments in the registers of the first two parameters, with interrupts enabled. This holds for every
  choice of operand registers that avoids those the assembly overwrites without declaring it; if the
  instruction pointer is kept in \<open>RAX\<close>, control goes to the stack pointer.\<close>

theorem user_mode_entered:
  assumes al: "aligned (regs m RSP)" "aligned (regs m rv)" and no_sp: "RSP \<notin> {rip, usp, ptr, n}"
  shows "(rip \<noteq> RAX \<longrightarrow> (\<exists>m'. run j (go_to_ring3_asm rip usp) m = Some m' \<and> in_program (regs m rip) (regs m usp) m')) \<and>
     (rip = RAX \<longrightarrow> (\<exists>m'. run j (go_to_ring3_asm rip usp) m = Some m' \<and> in_program (regs m usp) (regs m usp) m')) \<and>
     (rip \<noteq> RAX \<and> ptr \<noteq> RAX \<and> n \<notin> {RAX, RSI} \<longrightarrow>
       (\<exists>m'. run j (go_to_ring3_exec_asm rv rip usp ptr n) m = Some m' \<and> in_program (regs m rip) (regs m usp) m' \<and>
          regs m' RDI = regs m n \<and> regs m' RSI = regs m ptr \<and> rflags m' AND IF_FLAG = IF_FLAG))"
proof -
  let ?a = "set_reg RAX (regs m usp) m"
  have ring3: "run j (go_to_ring3_asm r usp) m = Option.bind (foldM push [0x23, regs m usp, rflags m, 0x2B, regs ?a r] ?a) iretq"
    if "r \<noteq> RSP" for r
    using no_sp that by (auto simp: go_to_ring3_asm_def push_def store_def set_reg_def split: Option.bind_split)
  have ne: "rip \<noteq> RSP" "usp \<noteq> RSP" "ptr \<noteq> RSP" "n \<noteq> RSP" using no_sp by auto
  have nil: "Option.bind x (run j []) = x" for x :: "'a cpu option" by (cases x) simp_all
  have swap: "x\<lparr>cells := M, regs := R\<rparr> = x\<lparr>regs := R, cells := M\<rparr>" for x :: "'a cpu" and M R by simp
  let ?b = "m\<lparr>rflags := rflags m OR IF_FLAG, regs := (regs m)(RSP := regs m rv, RAX := regs m usp, RSI := regs m ptr, RDI := regs m n)\<rparr>"
  have exec: "run j (go_to_ring3_exec_asm rv rip usp ptr n) m = Option.bind (foldM push [0x23, regs m usp, rflags m OR IF_FLAG, 0x2B, regs m rip] ?b) iretq"
    if "rip \<noteq> RAX" "ptr \<noteq> RAX" "n \<notin> {RAX, RSI}"
    using ne that al(2) by (simp add: go_to_ring3_exec_asm_def push_def store_def set_reg_def fun_upd_twist nil swap)
  have if_flag: "(rflags m OR IF_FLAG) AND IF_FLAG = IF_FLAG" by (simp add: bit.conj_disj_distrib2)
  note e = foldM_push_iretq in_program_def user_selectors
  show ?thesis
    using al if_flag no_sp exec by (auto simp: ring3 e set_reg_def simp del: foldM.simps put_words.simps)
qed


theorem user_mode_entered_witness:
  "\<exists>m'. run callee_small (go_to_ring3_exec_asm RCX RDX RBX RSI RDI)
      (machine_small ()\<lparr>regs := (\<lambda>_. 0)(RSP := 0x8000, RCX := 0x8F00, RDX := 0x400000, RBX := 0xF0000B00, RSI := 0xF0000B00, RDI := 2)\<rparr>) = Some m' \<and>
     in_program 0x400000 0xF0000B00 m' \<and> regs m' RDI = 2 \<and> regs m' RSI = 0xF0000B00"
  using user_mode_entered [of "machine_small ()\<lparr>regs := (\<lambda>_. 0)(RSP := 0x8000, RCX := 0x8F00, RDX := 0x400000, RBX := 0xF0000B00, RSI := 0xF0000B00, RDI := 2)\<rparr>"
      RCX RDX RBX RSI RDI callee_small] by (auto simp: aligned_def)

subsection \<open>The interrupt flag\<close>

text \<open>\<^verbatim>\<open>sys/interrupt.s\<close>: called from C, the two routines set and clear the flag that admits interrupts and
  return to their caller with every register as it was.\<close>

definition enable_interrupts_asm :: "'w instr list" where
  "enable_interrupts_asm = [Sti, Retq]"

definition disable_interrupts_asm :: "'w instr list" where
  "disable_interrupts_asm = [Cli, Retq]"

lemma interrupt_flag:
  assumes "aligned (regs m RSP)"
  obtains m1 m2 where "call_asm j ret enable_interrupts_asm m = Some m1" "call_asm j ret disable_interrupts_asm m = Some m2"
    "rflags m1 AND IF_FLAG = IF_FLAG" "rflags m2 AND IF_FLAG = 0" "regs m1 = regs m" "regs m2 = regs m" "ip m1 = ret" "ip m2 = ret"
proof -
  have "(rflags m OR IF_FLAG) AND IF_FLAG = IF_FLAG" "(rflags m AND NOT IF_FLAG) AND IF_FLAG = 0"
    by (simp_all add: bit.conj_disj_distrib2 and.assoc)
  with assms show thesis
    by (intro that [of "m\<lparr>cells := (cells m)(regs m RSP - 8 := ret), rflags := rflags m OR IF_FLAG, ip := ret\<rparr>"
          "m\<lparr>cells := (cells m)(regs m RSP - 8 := ret), rflags := rflags m AND NOT IF_FLAG, ip := ret\<rparr>"])
      (simp_all add: call_asm_def enable_interrupts_asm_def disable_interrupts_asm_def push_def pop_def store_def load_def set_reg_def)
qed

end
