(* ===== verification/Traps.thy ===== *)
theory Traps
  imports Isr User_Lib
begin

text \<open>
  System calls of programs down to the registers: the stubs and the entry point of \<open>Isr\<close> around the
  dispatcher of \<open>Syscalls\<close>. The dispatcher's model takes the contents of the buffers its arguments
  point to; \<open>text\<close> and \<open>vec\<close> are the program's memory as strings and as arrays of strings.
\<close>

definition decode_syscall ::
    "(u64 \<Rightarrow> char list) \<Rightarrow> (u64 \<Rightarrow> char list list option) \<Rightarrow> u32 \<Rightarrow> u64 \<Rightarrow> u64 \<Rightarrow> u64 \<Rightarrow> u64 \<Rightarrow> u64 \<Rightarrow> syscall option" where
  "decode_syscall text vec code arg2 arg3 arg4 arg5 arg6 =
     (if code = 0x1 then Some (SYSCALL_READ arg2 (text arg3) arg4)
      else if code = 0x2 then Some (SYSCALL_WRITE arg2 (text arg3) arg4)
      else if code = 0x3 then Some (SYSCALL_OPEN arg2 (text arg2))
      else if code = 0x4 then Some (SYSCALL_CLOSE arg2)
      else if code = 0x5 then Some (SYSCALL_UNLINK arg2 arg3 arg4 arg5 arg6)
      else if code = 0x6 then Some (SYSCALL_CHDIR (text arg2))
      else if code = 0x7 then Some (SYSCALL_GETCWD (text arg2) arg3)
      else if code = 0x8 then Some SYSCALL_FORK
      else if code = 0x9 then Some (SYSCALL_EXECVPE (text arg2) (vec arg3))
      else if code = 0xA then Some SYSCALL_WAIT
      else if code = 0xB then Some SYSCALL_YIELD
      else if code = 0xC then Some SYSCALL_PID
      else if code = 0xD then Some SYSCALL_PPID
      else if code = 0xE then Some (SYSCALL_MALLOC arg2)
      else if code = 0xF then Some (SYSCALL_FREE arg2)
      else if code = 0x10 then Some (SYSCALL_OPENDIR (text arg2))
      else if code = 0x11 then Some (SYSCALL_READDIR arg2 (text arg3))
      else if code = 0x12 then Some (SYSCALL_CLOSEDIR arg2)
      else if code = 0x13 then Some (SYSCALL_SLEEP (ucast arg2))
      else if code = 0x14 then Some (SYSCALL_PS (text arg2))
      else if code = 0x15 then Some (SYSCALL_WAITPID (as_int arg2))
      else if code = 0x16 then Some (SYSCALL_EXIT (as_int arg2))
      else if code = 0x17 then Some (SYSCALL_KILL (as_int arg2))
      else None)"

text \<open>The dispatcher as the C function the entry point calls. Its first parameter is the four-byte
  enumeration; a code outside it takes the default branch.\<close>

definition handle_syscall_c ::
    "(u64 \<Rightarrow> char list) \<Rightarrow> (u64 \<Rightarrow> char list list option) \<Rightarrow> 'a kernel_scheme world \<Rightarrow> 'a kernel_scheme c_function" where
  "handle_syscall_c text vec w args k =
     (let code = ucast (args ! 0); arg2 = args ! 1; arg3 = args ! 2; arg4 = args ! 3; arg5 = args ! 4; arg6 = args ! 5
      in case decode_syscall text vec code arg2 arg3 arg4 arg5 arg6 of
           Some c \<Rightarrow> syscall_val (handle_syscall w) c k
         | None \<Rightarrow> syscall_val (\<lambda>c. sys_other (ucast code) arg2 arg3 arg4 arg5 arg6) SYSCALL_PID k)"

subsection \<open>The way through the registers\<close>

text \<open>A stub returns \<open>v\<close>, and the program continues with the registers \<open>R\<close>.\<close>

definition returns :: "callee \<Rightarrow> (reg \<Rightarrow> u64) \<Rightarrow> u64 \<Rightarrow> 'w \<Rightarrow> 'w cpu \<Rightarrow> (u64 \<times> 'w cpu) option \<Rightarrow> bool" where
  "returns j R v w m r \<longleftrightarrow> (\<exists>m'. r = Some (v, m') \<and> resumes j R w m (Some m'))"

lemma enum_word_code [simp]: "ucast (enum_word hi code) = code"
  by (rule bit_word_eqI) (auto simp: enum_word_def bit_simps)

lemma trap_returns:
  assumes mv: "run j moves m = Some (m\<lparr>regs := R\<rparr>)" "R RSP = regs m RSP"
    and h: "h [R RAX, R RBX, R RCX, R RDX, R RSI, R RDI] (world m) = Some (v, k)"
    and room: "160 \<le> unat (interrupt_stack m)" "interrupt_stack m \<le> stack_end j"
  shows "returns j (R(RAX := v)) v k m (trap j (syscall_isr h) moves m)"
proof -
  have st: "interrupt_stack (m\<lparr>regs := R\<rparr>) = interrupt_stack m" by (simp add: interrupt_stack_def mv(2))
  have "resumes j (R(RAX := v)) k (m\<lparr>regs := R\<rparr>) (interrupt j [] (syscall_isr h) (m\<lparr>regs := R\<rparr>))"
    using resumes_syscall [of h "m\<lparr>regs := R\<rparr>" v k j] h room st by simp
  then show ?thesis by (auto simp: returns_def resumes_def trap_def mv(1) st)
qed

lemma handle_syscall_c_decode:
  "decode_syscall text vec code a2 a3 a4 a5 a6 = Some c \<Longrightarrow>
   handle_syscall_c text vec w [enum_word hi code, a2, a3, a4, a5, a6] k = syscall_val (handle_syscall w) c k"
  by (simp add: handle_syscall_c_def)

text \<open>C8. System calls through the registers: each stub of the user library hands its code and arguments
  to the dispatcher in order, and returns what the dispatcher returns; the kernel changes as by the call
  itself. The program continues with its stack, segments and flags, and with all registers but those the
  stub declares as changed.\<close>

theorem stubs_reach_dispatcher:
  assumes call: "decode_syscall text vec code a2 a3 a4 a5 a6 = Some c" "syscall_val (handle_syscall w) c (world m) = Some (v, k)"
    and room: "160 \<le> unat (interrupt_stack m)" "interrupt_stack m \<le> stack_end j"
    and isr: "isr = syscall_isr (handle_syscall_c text vec w)"
  shows "returns j ((regs m)(RBX := a2, RCX := a3, RDX := a4, RSI := a5, RDI := a6, RAX := v)) v k m (syscall6 j isr hi code a2 a3 a4 a5 a6 m) \<and>
    (regs m RDI = a6 \<longrightarrow>
      returns j ((regs m)(RBX := a2, RCX := a3, RDX := a4, RSI := a5, RAX := v)) v k m (syscall5 j isr hi code a2 a3 a4 a5 m)) \<and>
    (regs m RSI = a5 \<and> regs m RDI = a6 \<longrightarrow>
      returns j ((regs m)(RBX := a2, RCX := a3, RDX := a4, RAX := v)) v k m (syscall4 j isr hi code a2 a3 a4 m)) \<and>
    (regs m RDX = a4 \<and> regs m RSI = a5 \<and> regs m RDI = a6 \<longrightarrow>
      returns j ((regs m)(RBX := a2, RCX := a3, RAX := v)) v k m (syscall3 j isr hi code a2 a3 m)) \<and>
    (regs m RCX = a3 \<and> regs m RDX = a4 \<and> regs m RSI = a5 \<and> regs m RDI = a6 \<longrightarrow>
      returns j ((regs m)(RBX := a2, RAX := v)) v k m (syscall2 j isr hi code a2 m)) \<and>
    (regs m RBX = a2 \<and> regs m RCX = a3 \<and> regs m RDX = a4 \<and> regs m RSI = a5 \<and> regs m RDI = a6 \<longrightarrow>
      returns j ((regs m)(RAX := v)) v k m (syscall1 j isr hi code m))"
proof -
  let ?h = "handle_syscall_c text vec w" and ?e = "enum_word hi code"
  have h: "?h [?e, a2, a3, a4, a5, a6] (world m) = Some (v, k)" by (simp add: handle_syscall_c_decode [OF call(1)] call(2))
  have stub: "returns j (R(RAX := v)) v k m (trap j isr moves m)"
    if "run j moves m = Some (m\<lparr>regs := R(RAX := ?e)\<rparr>)" "R RSP = regs m RSP" "[R RBX, R RCX, R RDX, R RSI, R RDI] = [a2, a3, a4, a5, a6]" for R moves
    using trap_returns [of j moves m "R(RAX := ?e)" ?h v k] that h room by (simp add: isr)
  show ?thesis
    unfolding syscall6_def syscall5_def syscall4_def syscall3_def syscall2_def syscall1_def
    by (intro conjI impI stub) (simp_all add: set_reg_def fun_upd_twist)
qed

theorem stubs_reach_dispatcher_witness:
  "returns callee_small (\<lambda>r. if r = RAX then 1 else 0) 1 kernel_small (machine_small kernel_small)
     (syscall1 callee_small (syscall_isr (handle_syscall_c (\<lambda>_. []) (\<lambda>_. None) \<lparr>keys = [], seconds = 0, others = Some, names = (\<lambda>_. [])\<rparr>))
        5 0xC (machine_small kernel_small))"
proof -
  let ?w = "\<lparr>keys = [], seconds = 0, others = Some, names = (\<lambda>_. [])\<rparr> :: kernel world" and ?m = "machine_small kernel_small"
  have c: "decode_syscall (\<lambda>_. []) (\<lambda>_. None) 0xC 0 0 0 0 0 = Some SYSCALL_PID" by (simp add: decode_syscall_def)
  have p: "get_process_pid kernel_small = Some 1"
    by (simp add: get_process_pid_def kernel_small_def vm.defs kernel.defs thread_small_def)
  have s: "syscall_val (handle_syscall ?w) SYSCALL_PID (world ?m) = Some (1, kernel_small)"
    using p by (simp add: syscall_val_def syscall_def ret_int_def machine_small_def)
  have "160 \<le> unat (interrupt_stack ?m)" "interrupt_stack ?m \<le> stack_end callee_small" by (simp_all add: callee_small_def)
  from stubs_reach_dispatcher [OF c s this refl, of 5] show ?thesis by (simp add: machine_small_def fun_upd_def cong: if_cong)
qed

end
