(* ===== verification/Layout.thy ===== *)
theory Layout
  imports Context Descriptors Kernel_State
begin

text \<open>
  The layout of structures in memory: the declarations of the structures whose bytes something else
  than compiled C code depends on. The processor reads the descriptor tables and the task state
  segment, the assembly reads \<open>kthread_t\<close>, the archive and the programs are files, the disk controller
  of \<^verbatim>\<open>include/sys/ahci.h\<close> reads its command structures; and the sizes are arguments of \<open>kmalloc\<close>.
  The layout rules are those of the platform: members in order, each at a multiple of its alignment,
  without gaps in a packed structure, bit fields from the low bits on.
\<close>

subsection \<open>Rules\<close>

datatype ctype = U8 | U16 | U32 | U64 | Ptr | Bits nat | Arr nat ctype | Block nat

datatype struct =
    Packed "(string \<times> ctype) list"
  | Natural "(string \<times> ctype) list"
  | Aligned nat "(string \<times> ctype) list"

primrec bits_of :: "ctype \<Rightarrow> nat" where
  "bits_of U8 = 8"
| "bits_of U16 = 16"
| "bits_of U32 = 32"
| "bits_of U64 = 64"
| "bits_of Ptr = 64"
| "bits_of (Bits n) = n"
| "bits_of (Arr n t) = n * bits_of t"
| "bits_of (Block n) = 8 * n"

text \<open>The alignment of a type, in bits, where it is not packed; structures and bit fields occur in packed ones only.\<close>

primrec align_of :: "ctype \<Rightarrow> nat" where
  "align_of U8 = 8"
| "align_of U16 = 16"
| "align_of U32 = 32"
| "align_of U64 = 64"
| "align_of Ptr = 64"
| "align_of (Bits n) = 1"
| "align_of (Arr n t) = align_of t"
| "align_of (Block n) = 8"

definition round_up :: "nat \<Rightarrow> nat \<Rightarrow> nat" where "round_up n a = (n + a - 1) div a * a"

text \<open>Positions of the members, in bits, and the end of the last one.\<close>

primrec place :: "(ctype \<Rightarrow> nat) \<Rightarrow> (string \<times> ctype) list \<Rightarrow> nat \<Rightarrow> (string \<times> nat) list" where
  "place al [] pos = []"
| "place al (m # ms) pos =
     (fst m, round_up pos (al (snd m))) # place al ms (round_up pos (al (snd m)) + bits_of (snd m))"

primrec extent :: "(ctype \<Rightarrow> nat) \<Rightarrow> (string \<times> ctype) list \<Rightarrow> nat \<Rightarrow> nat" where
  "extent al [] pos = pos"
| "extent al (m # ms) pos = extent al ms (round_up pos (al (snd m)) + bits_of (snd m))"

fun layout :: "struct \<Rightarrow> (string \<times> nat) list" where
  "layout (Packed ms) = place (\<lambda>_. 1) ms 0"
| "layout (Natural ms) = place align_of ms 0"
| "layout (Aligned n ms) = place (\<lambda>_. 1) ms 0"

fun layout_end :: "struct \<Rightarrow> nat" where
  "layout_end (Packed ms) = extent (\<lambda>_. 1) ms 0"
| "layout_end (Natural ms) = extent align_of ms 0"
| "layout_end (Aligned n ms) = extent (\<lambda>_. 1) ms 0"

fun struct_align :: "struct \<Rightarrow> nat" where
  "struct_align (Packed ms) = 8"
| "struct_align (Natural ms) = fold (\<lambda>m. max (align_of (snd m))) ms 8"
| "struct_align (Aligned n ms) = 8 * n"

definition sizeof :: "struct \<Rightarrow> nat" where "sizeof s = round_up (layout_end s) (struct_align s) div 8"

definition bit_offset :: "struct \<Rightarrow> string \<Rightarrow> nat option" where "bit_offset s f = map_of (layout s) f"

definition offset_of :: "struct \<Rightarrow> string \<Rightarrow> nat option" where "offset_of s f = map_option (\<lambda>b. b div 8) (bit_offset s f)"

definition Struct_of :: "struct \<Rightarrow> ctype" where "Struct_of s = Block (sizeof s)"

subsection \<open>Structures of the kernel\<close>

definition kthread_struct :: struct where
  "kthread_struct = Packed [
     (''rsp_val'', Ptr), (''rsp_user'', U64), (''k_stack'', Arr K_STACK_SIZE U64), (''pid'', U32),
     (''cr3'', U64), (''process_mm'', Ptr), (''rip'', U64), (''ppid'', U32), (''num_child'', U32),
     (''process_name'', Ptr), (''next'', Ptr), (''fds'', Arr NUM_FDS Ptr), (''cwd'', Arr 128 U8),
     (''state'', U32)]"

definition vma_layout :: struct where
  "vma_layout = Packed [
     (''start'', U64), (''end'', U64), (''type'', U64), (''flags'', U64), (''next'', Ptr)]"

definition mm_layout :: struct where
  "mm_layout = Packed [
     (''vma_map'', Ptr), (''vma_map_iter'', Ptr), (''vma_stack'', Ptr), (''vma_heap'', Ptr)]"

definition file_sys_impl_layout :: struct where
  "file_sys_impl_layout = Natural [
     (''read_impl'', U64), (''write_impl'', U64)]"

definition file_object_layout :: struct where
  "file_object_layout = Natural [
     (''file_path'', Ptr), (''file_sys_impl'', Ptr), (''ref_count'', U16), (''content_start'', Ptr),
     (''offset'', U32)]"

definition posix_header_layout :: struct where
  "posix_header_layout = Natural [
     (''name'', Arr 100 U8), (''mode'', Arr 8 U8), (''uid'', Arr 8 U8), (''gid'', Arr 8 U8),
     (''size'', Arr 12 U8), (''mtime'', Arr 12 U8), (''checksum'', Arr 8 U8), (''typeflag'', Arr 1 U8),
     (''linkname'', Arr 100 U8), (''magic'', Arr 6 U8), (''version'', Arr 2 U8), (''uname'', Arr 32 U8),
     (''gname'', Arr 32 U8), (''devmajor'', Arr 8 U8), (''devminor'', Arr 8 U8), (''prefix'', Arr 155 U8),
     (''pad'', Arr 12 U8)]"

definition dir_header_layout :: struct where
  "dir_header_layout = Packed [
     (''current_point'', U32), (''file_count'', U32), (''files'', Arr 64 (Arr 128 U8)), (''dir_exists'', U32)]"

definition physical_page_layout :: struct where
  "physical_page_layout = Packed [
     (''page_number'', U64), (''next'', Ptr), (''ref_count'', U32)]"

definition tss_t :: struct where
  "tss_t = Packed [
     (''reserved_0'', U32), (''rsp0'', Ptr), (''rsp1'', Ptr), (''rsp2'', Ptr), (''reserved_1'', U64),
     (''ist1'', Ptr), (''ist2'', Ptr), (''ist3'', Ptr), (''ist4'', Ptr), (''ist5'', Ptr), (''ist6'', Ptr),
     (''ist7'', Ptr), (''reserved_2'', U64), (''reserved_3'', U16), (''iomap_base'', U16)]"

definition sys_segment_descriptor :: struct where
  "sys_segment_descriptor = Packed [
     (''sd_lolimit'', Bits 16), (''sd_lobase'', Bits 24), (''sd_type'', Bits 5), (''sd_dpl'', Bits 2),
     (''sd_p'', Bits 1), (''sd_hilimit'', Bits 4), (''sd_xx1'', Bits 3), (''sd_gran'', Bits 1),
     (''sd_hibase'', Bits 40), (''sd_xx2'', Bits 8), (''sd_zero'', Bits 5), (''sd_xx3'', Bits 19)]"

definition gdtr_t :: struct where
  "gdtr_t = Packed [
     (''size'', U16), (''addr'', U64)]"

definition idtr_layout :: struct where
  "idtr_layout = Packed [
     (''limit'', U16), (''offset'', U64)]"

definition idt_layout :: struct where
  "idt_layout = Packed [
     (''offset_1'', U16), (''selector'', U16), (''zero'', U8), (''type_attr'', U8), (''offset_2'', U16),
     (''offset_3'', U32), (''reserved'', U32)]"

definition Elf64_Ehdr_layout :: struct where
  "Elf64_Ehdr_layout = Natural [
     (''e_ident'', Arr 16 U8), (''e_type'', U16), (''e_machine'', U16), (''e_version'', U32),
     (''e_entry'', U64), (''e_phoff'', U64), (''e_shoff'', U64), (''e_flags'', U32), (''e_ehsize'', U16),
     (''e_phentsize'', U16), (''e_phnum'', U16), (''e_shentsize'', U16), (''e_shnum'', U16),
     (''e_shstrndx'', U16)]"

definition Elf64_Phdr_layout :: struct where
  "Elf64_Phdr_layout = Natural [
     (''p_type'', U32), (''p_flags'', U32), (''p_offset'', U64), (''p_vaddr'', U64), (''p_paddr'', U64),
     (''p_filesz'', U64), (''p_memsz'', U64), (''p_align'', U64)]"

subsection \<open>Structures of the disk controller\<close>

definition MAX_CMD_SLOT_CNT :: nat where "MAX_CMD_SLOT_CNT = 32"

definition MAX_PORT_CNT :: nat where "MAX_PORT_CNT = 32"

definition fis_reg_h2d_t :: struct where
  "fis_reg_h2d_t = Packed [
     (''fis_type'', U8), (''pmport'', Bits 4), (''rsv0'', Bits 3), (''c'', Bits 1), (''command'', U8),
     (''featurel'', U8), (''lba0'', U8), (''lba1'', U8), (''lba2'', U8), (''device'', U8), (''lba3'', U8),
     (''lba4'', U8), (''lba5'', U8), (''featureh'', U8), (''count'', U16), (''icc'', U8), (''control'', U8),
     (''aux'', U16), (''rsv1'', Arr 2 U8)]"

definition fis_reg_d2h_t :: struct where
  "fis_reg_d2h_t = Packed [
     (''fis_type'', U8), (''pmport'', Bits 4), (''rsv0'', Bits 2), (''i'', Bits 1), (''rsv1'', Bits 1),
     (''status'', U8), (''error'', U8), (''lba0'', U8), (''lba1'', U8), (''lba2'', U8), (''device'', U8),
     (''lba3'', U8), (''lba4'', U8), (''lba5'', U8), (''rsv2'', U8), (''count'', U16), (''rsv3'', Arr 2 U8),
     (''rsv4'', Arr 4 U8)]"

definition fis_dev_bits_t :: struct where
  "fis_dev_bits_t = Packed [
     (''fis_type'', U8), (''pmport'', Bits 4), (''rsv0'', Bits 2), (''i'', Bits 1), (''n'', Bits 1),
     (''statusl'', Bits 3), (''rsv1'', Bits 1), (''statush'', Bits 3), (''rsv2'', Bits 1), (''error'', U8),
     (''protocol'', U32)]"

definition fis_dma_setup_t :: struct where
  "fis_dma_setup_t = Packed [
     (''fis_type'', U8), (''pmport'', Bits 4), (''rsv0'', Bits 1), (''d'', Bits 1), (''i'', Bits 1),
     (''a'', Bits 1), (''rsved'', Arr 2 U8), (''buf_id'', U64), (''rsv1'', U32), (''buf_offset'', U32),
     (''trans_count'', U32), (''rsv2'', U32)]"

definition fis_pio_setup_t :: struct where
  "fis_pio_setup_t = Packed [
     (''fis_type'', U8), (''pmport'', Bits 4), (''rsv0'', Bits 1), (''d'', Bits 1), (''i'', Bits 1),
     (''rsv1'', Bits 1), (''status'', U8), (''error'', U8), (''lba0'', U8), (''lba1'', U8), (''lba2'', U8),
     (''device'', U8), (''lba3'', U8), (''lba4'', U8), (''lba5'', U8), (''rsv2'', U8), (''count'', U16),
     (''rsv3'', U8), (''e_status'', U8), (''trans_count'', U16), (''rsv4'', Arr 2 U8)]"

definition fis_data_t :: struct where
  "fis_data_t = Packed [
     (''fis_type'', U8), (''pmport'', Bits 4), (''rsv0'', Bits 4), (''rsv1'', Arr 2 U8), (''data'', Arr 1 U32)]"

definition hba_prdt_entry_t :: struct where
  "hba_prdt_entry_t = Packed [
     (''dba'', U64), (''rsv0'', U32), (''dbc'', Bits 22), (''rsv1'', Bits 9), (''i'', Bits 1)]"

definition hba_cmd_tbl_t :: struct where
  "hba_cmd_tbl_t = Aligned 128 [
     (''cfis'', Arr 64 U8), (''acmd'', Arr 16 U8), (''rsv'', Arr 48 U8),
     (''prdt_entry'', Arr 1 (Struct_of hba_prdt_entry_t))]"

definition hba_cmd_header_t :: struct where
  "hba_cmd_header_t = Packed [
     (''cfl'', Bits 5), (''a'', Bits 1), (''w'', Bits 1), (''p'', Bits 1), (''r'', Bits 1), (''b'', Bits 1),
     (''c'', Bits 1), (''rsv0'', Bits 1), (''pmp'', Bits 4), (''prdtl'', U16), (''prdbc'', U32),
     (''ctba'', U64), (''rsv1'', Arr 4 U32)]"

definition hba_fis_t :: struct where
  "hba_fis_t = Aligned 256 [
     (''dsfis'', Struct_of fis_dma_setup_t), (''pad0'', Arr 4 U8), (''psfis'', Struct_of fis_pio_setup_t),
     (''pad1'', Arr 12 U8), (''rfis'', Struct_of fis_reg_d2h_t), (''pad2'', Arr 4 U8),
     (''sdbfis'', Struct_of fis_dev_bits_t), (''ufis'', Arr 64 U8), (''rsv'', Arr 96 U8)]"

definition hba_cmd_list_t :: struct where
  "hba_cmd_list_t = Aligned 1024 [
     (''headers'', Arr MAX_CMD_SLOT_CNT (Struct_of hba_cmd_header_t))]"

definition hba_port_t :: struct where
  "hba_port_t = Packed [
     (''clb'', U64), (''fb'', U64), (''is_rwc'', U32), (''ie'', U32), (''cmd'', U32), (''rsv0'', U32),
     (''tfd'', U32), (''sig'', U32), (''ssts'', U32), (''sctl'', U32), (''serr_rwc'', U32), (''sact'', U32),
     (''ci'', U32), (''sntf_rwc'', U32), (''fbs'', U32), (''rsv1'', Arr 11 U32), (''vendor'', Arr 4 U32)]"

definition hba_mem_t :: struct where
  "hba_mem_t = Packed [
     (''cap'', U32), (''ghc'', U32), (''is_rwc'', U32), (''pi'', U32), (''vs'', U32), (''ccc_ctl'', U32),
     (''ccc_pts'', U32), (''em_loc'', U32), (''em_ctl'', U32), (''cap2'', U32), (''bohc'', U32),
     (''rsv'', Arr (160 - 44) U8), (''vendor'', Arr (256 - 160) U8),
     (''ports'', Arr MAX_PORT_CNT (Struct_of hba_port_t))]"

subsection \<open>Properties\<close>

lemmas layout_defs = kthread_struct_def vma_layout_def mm_layout_def file_object_layout_def file_sys_impl_layout_def posix_header_layout_def
  dir_header_layout_def physical_page_layout_def tss_t_def sys_segment_descriptor_def gdtr_t_def idtr_layout_def idt_layout_def
  Elf64_Ehdr_layout_def Elf64_Phdr_layout_def

lemmas ahci_defs = fis_reg_h2d_t_def fis_reg_d2h_t_def fis_dev_bits_t_def fis_dma_setup_t_def fis_pio_setup_t_def fis_data_t_def
  hba_prdt_entry_t_def hba_cmd_tbl_t_def hba_cmd_header_t_def hba_fis_t_def hba_cmd_list_t_def hba_port_t_def hba_mem_t_def

lemmas layout_simps = sizeof_def offset_of_def bit_offset_def round_up_def Struct_of_def


text \<open>Layout of the disk controller's structures: every member lies where the comments of the header place it, each
  frame has the length in double words it is sent with, and the aligned structures keep their alignment
  in arrays.\<close>

lemma ahci_layouts:
  "map (offset_of hba_port_t) [''clb'', ''fb'', ''is_rwc'', ''ie'', ''cmd'', ''rsv0'', ''tfd'', ''sig'', ''ssts'', ''sctl'', ''serr_rwc'',
     ''sact'', ''ci'', ''sntf_rwc'', ''fbs'', ''rsv1'', ''vendor''] =
   map Some [0x00, 0x08, 0x10, 0x14, 0x18, 0x1C, 0x20, 0x24, 0x28, 0x2C, 0x30, 0x34, 0x38, 0x3C, 0x40, 0x44, 0x70] \<and>
   map (offset_of hba_mem_t) [''cap'', ''ghc'', ''is_rwc'', ''pi'', ''vs'', ''ccc_ctl'', ''ccc_pts'', ''em_loc'', ''em_ctl'', ''cap2'', ''bohc'',
     ''rsv'', ''vendor'', ''ports''] =
   map Some [0x00, 0x04, 0x08, 0x0C, 0x10, 0x14, 0x18, 0x1C, 0x20, 0x24, 0x28, 0x2C, 0xA0, 0x100] \<and>
   map (offset_of hba_fis_t) [''dsfis'', ''psfis'', ''rfis'', ''sdbfis'', ''ufis'', ''rsv''] = map Some [0x00, 0x20, 0x40, 0x58, 0x60, 0xA0] \<and>
   map (offset_of hba_cmd_tbl_t) [''cfis'', ''acmd'', ''rsv'', ''prdt_entry''] = map Some [0x00, 0x40, 0x50, 0x80] \<and>
   map (offset_of hba_cmd_header_t) [''prdtl'', ''prdbc'', ''ctba'', ''rsv1''] = map Some [2, 4, 8, 16] \<and>
   map sizeof [fis_reg_h2d_t, fis_reg_d2h_t, fis_dev_bits_t, fis_dma_setup_t, fis_pio_setup_t, fis_data_t] = map ((*) 4) [5, 5, 2, 7, 5, 2] \<and>
   map sizeof [hba_prdt_entry_t, hba_cmd_header_t, hba_fis_t, hba_cmd_list_t, hba_port_t, hba_mem_t] = [16, 32, 256, 1024, 128, 0x1100] \<and>
   sizeof hba_cmd_tbl_t mod 128 = 0"
  by (intro conjI) (simp_all add: ahci_defs layout_simps MAX_CMD_SLOT_CNT_def MAX_PORT_CNT_def)

end
