(* ===== verification/Boot.thy ===== *)
theory Boot
  imports User_Lib
begin

text \<open>
  Starting the kernel, \<open>start\<close> of \<^verbatim>\<open>sys/main.c\<close>: the loader's memory map, the memory managers, the
  idle process and the first user process. The loader's data are 32-bit words, read through
  \<open>modulep\<close>, which is an index into them.
\<close>

record smap_t =
  smap_base :: u64
  smap_length :: u64
  smap_type :: u32

definition word_at :: "u32 list \<Rightarrow> nat \<Rightarrow> u32 option" where
  "word_at m i = (if i < length m then Some (m ! i) else None)"

text \<open>Modules are skipped by their length field, taken as a number of words.\<close>

partial_function (option) find_smap :: "u32 list \<Rightarrow> nat \<Rightarrow> nat option" where
  "find_smap m p = do {
     tag \<leftarrow> word_at m p;
     if tag = 0x9001 then Some p
     else do {
       n \<leftarrow> word_at m (p + 1);
       find_smap m (p + unat n + 2)
     }
   }"

definition smap_at :: "u32 list \<Rightarrow> nat \<Rightarrow> smap_t option" where
  "smap_at m i = do {
     b0 \<leftarrow> word_at m i;
     b1 \<leftarrow> word_at m (i + 1);
     l0 \<leftarrow> word_at m (i + 2);
     l1 \<leftarrow> word_at m (i + 3);
     ty \<leftarrow> word_at m (i + 4);
     Some \<lparr>smap_base = ucast b0 OR push_bit 32 (ucast b1), smap_length = ucast l0 OR push_bit 32 (ucast l1), smap_type = ty\<rparr>
   }"

definition choose_region :: "u64 \<Rightarrow> smap_t \<Rightarrow> u64 \<times> u64 \<Rightarrow> u64 \<times> u64" where
  "choose_region physfree e bl =
     (if smap_type e = 1 \<and> smap_length e \<noteq> 0 \<and> smap_base e \<le> physfree \<and> physfree < smap_base e + smap_length e
      then (smap_base e, smap_length e) else bl)"

text \<open>Here the length field is a number of bytes, and an entry has 20.\<close>

definition memory_map :: "u32 list \<Rightarrow> u64 \<Rightarrow> (u64 \<times> u64) option" where
  "memory_map m physfree = do {
     p \<leftarrow> find_smap m 0;
     n \<leftarrow> word_at m (p + 1);
     foldM (\<lambda>i bl. map_option (\<lambda>e. choose_region physfree e bl) (smap_at m (p + 2 + 5 * i)))
       [0..<(unat n + 19) div 20] (0, 0)
   }"

definition start_memory :: "u32 list \<Rightarrow> u64 \<Rightarrow> u64 \<Rightarrow> u64 \<Rightarrow> 'a vm_scheme \<Rightarrow> 'a vm_scheme option" where
  "start_memory m kernmem physbase physfree s = do {
     (base, len) \<leftarrow> memory_map m physfree;
     s \<leftarrow> init_physical_memory physfree base len s;
     init_paging kernmem physbase physfree s
   }"

definition start :: "u64 \<Rightarrow> u32 list \<Rightarrow> u64 \<Rightarrow> u64 \<Rightarrow> u64 \<Rightarrow> 'a kernel_scheme \<Rightarrow> (u64 \<times> 'a kernel_scheme) option" where
  "start init_scheduler m kernmem physbase physfree k = do {
     k \<leftarrow> start_memory m kernmem physbase physfree k;
     let k = init_processes k;
     (idle, k) \<leftarrow> init_idle_process init_scheduler k;
     (new, k) \<leftarrow> create_process (''bin/init'' @ [NUL]) k;
     Some (idle, k)
   }"

lemma kmalloc_heap_pages:
  fixes k :: "'a kernel_scheme"
  assumes h: "heap_ok k" and b: "0 < pages_of b" and av: "4 * pages_of b + 9 \<le> length (free_frames k)"
  obtains a k' where "kmalloc b k = Some (a, k')" "heap_ok k'" "vm.more k' = vm.more k" "a \<noteq> 0"
    "a \<notin> dom (threads k) \<union> dom (mms k) \<union> dom (vmas k) \<union> dom (fos k) \<union> dom (dirs k)"
    "length (free_frames k) \<le> length (free_frames k') + 4 * pages_of b"
    "\<forall>g \<in> set (free_frames k'). a \<noteq> kernel_virtual_base k' + g"
proof -
  have inv: "vm_inv k" using h by (simp add: heap_ok_def)
  have "4 * pages_of b + 10 \<le> length (free_frames k) + 1" using av by simp
  from kmalloc_ok [OF inv b this] obtain ps k' where
    r: "kmalloc b k = Some (kernel_virtual_base k + hd ps, k')" "vm_inv k'" "kernel_virtual_base k' = kernel_virtual_base k"
      "length ps = pages_of b" "set ps \<subseteq> set (free_frames k)" "set ps \<inter> (set (free_frames k') \<union> vm_tables k') = {}"
      "\<exists>j \<le> 4 * pages_of b. free_frames k' = drop j (free_frames k)" by blast
  note more = kernel_more [OF kmalloc_more [OF r(1)]]
  have p: "hd ps \<in> set ps" using r(4) b by (cases ps) auto
  have s: "set (free_frames k') \<subseteq> set (free_frames k)" using r(7) by (auto dest: in_set_dropD)
  show thesis
  proof (rule that [OF r(1) _ kmalloc_more [OF r(1)]])
    show "heap_ok k'" using h r(2) s by (auto simp: heap_ok_def more r(3))
    show "kernel_virtual_base k + hd ps \<noteq> 0" "kernel_virtual_base k + hd ps \<notin>
        dom (threads k) \<union> dom (mms k) \<union> dom (vmas k) \<union> dom (fos k) \<union> dom (dirs k)"
      using h r(5) p by (auto simp: heap_ok_def)
    show "\<forall>g \<in> set (free_frames k'). kernel_virtual_base k + hd ps \<noteq> kernel_virtual_base k' + g"
      using r(3,6) p by auto
  qed (use r(7) in auto)
qed

lemma heap_ok_upd:
  assumes "heap_ok k" "\<forall>g \<in> set (free_frames k). a \<noteq> kernel_virtual_base k + g"
  shows "heap_ok (k\<lparr>threads := (threads k)(a \<mapsto> t)\<rparr>)" "heap_ok (k\<lparr>fos := (fos k)(a \<mapsto> f)\<rparr>)"
  using assms by (auto simp: heap_ok_def)

text \<open>The first request for a standard file object creates it.\<close>

lemma create_terminal_fo_ok:
  fixes k :: "'a kernel_scheme"
  assumes h: "heap_ok k" and av: "13 \<le> length (free_frames k)"
  obtains fo k' where "create_terminal_fo name k = Some (fo, k')" "heap_ok k'" "fo \<noteq> 0" "fo \<notin> dom (threads k)" "fos k fo = None"
    "\<forall>g \<in> set (free_frames k'). fo \<noteq> kernel_virtual_base k' + g"
    "fos k' = (fos k)(fo \<mapsto> \<lparr>file_path = name, fo_impl = Some TERMINAL_FS, fo_ref_count = 0, content_start = 0, fo_offset = 0\<rparr>)"
    "vm.more k' = vm.more (k\<lparr>fos := fos k'\<rparr>)" "length (free_frames k) \<le> length (free_frames k') + 4"
proof -
  have b: "pages_of 40 = 1" by (simp add: pages_of_def)
  obtain fo k1 where r: "kmalloc 40 k = Some (fo, k1)" "heap_ok k1" "vm.more k1 = vm.more k" "fo \<noteq> 0"
    "fo \<notin> dom (threads k) \<union> dom (mms k) \<union> dom (vmas k) \<union> dom (fos k) \<union> dom (dirs k)"
    "length (free_frames k) \<le> length (free_frames k1) + 4 * pages_of 40"
    "\<forall>g \<in> set (free_frames k1). fo \<noteq> kernel_virtual_base k1 + g"
    by (rule kmalloc_heap_pages [OF h, of 40]) (use av b in auto)
  let ?f = "\<lparr>file_path = name, fo_impl = Some TERMINAL_FS, fo_ref_count = 0, content_start = 0, fo_offset = 0\<rparr>"
  show thesis
  proof (rule that [of fo "k1\<lparr>fos := (fos k)(fo \<mapsto> ?f)\<rparr>"])
    show "create_terminal_fo name k = Some (fo, k1\<lparr>fos := (fos k)(fo \<mapsto> ?f)\<rparr>)"
      using r(1) by (simp add: create_terminal_fo_def alloc_fo_def upd_fo_def fo_zero_def kernel_more [OF r(3)])
    show "heap_ok (k1\<lparr>fos := (fos k)(fo \<mapsto> ?f)\<rparr>)" using heap_ok_upd(2) [OF r(2,7), of ?f] by (simp add: kernel_more [OF r(3)])
    show "vm.more (k1\<lparr>fos := (fos k)(fo \<mapsto> ?f)\<rparr>) = vm.more (k\<lparr>fos := fos (k1\<lparr>fos := (fos k)(fo \<mapsto> ?f)\<rparr>)\<rparr>)"
      using r(3) by (cases k; cases k1) simp
  qed (use r b in auto)
qed

lemma vm_only_more [simp]:
  "free_frames (k\<lparr>processes := ps\<rparr>) = free_frames k" "free_frames (k\<lparr>current_process := c\<rparr>) = free_frames k"
  "free_frames (k\<lparr>stdin_fo := i\<rparr>) = free_frames k" "free_frames (k\<lparr>stdout_fo := i\<rparr>) = free_frames k"
  "vm_inv (k\<lparr>processes := ps\<rparr>) = vm_inv k" "vm_inv (k\<lparr>current_process := c\<rparr>) = vm_inv k"
  "vm_inv (k\<lparr>stdin_fo := i\<rparr>) = vm_inv k" "vm_inv (k\<lparr>stdout_fo := i\<rparr>) = vm_inv k"
  by (rule vm_cong; simp add: phys.defs)+

lemma set_std_fds_ok:
  fixes k :: "'a kernel_scheme"
  assumes h: "heap_ok k" and av: "17 \<le> length (free_frames k)" and t: "threads k p = Some t" "length (fds t) = NUM_FDS"
    and std: "stdin_fo k = 0" "stdout_fo k = 0"
  obtains i out k' where "set_std_fds p k = Some k'" "heap_ok k'" "i \<noteq> 0" "out \<noteq> 0"
    "threads k' = (threads k)(p \<mapsto> t\<lparr>fds := (fds t)[0 := i, 1 := out, 2 := out]\<rparr>)"
    "map_option fo_impl (fos k' out) = Some (Some TERMINAL_FS)" "current_process k' = current_process k"
    "processes k' = processes k" "con k' = con k"
proof -
  let ?f = "\<lparr>file_path = 0, fo_impl = Some TERMINAL_FS, fo_ref_count = 0, content_start = 0, fo_offset = 0\<rparr>"
  have "13 \<le> length (free_frames k)" using av by simp
  then obtain i k1 where k1: "create_terminal_fo 0 k = Some (i, k1)" "heap_ok k1" "i \<noteq> 0" "i \<notin> dom (threads k)" "fos k i = None"
    "\<forall>g \<in> set (free_frames k1). i \<noteq> kernel_virtual_base k1 + g" "fos k1 = (fos k)(i \<mapsto> ?f)"
    "vm.more k1 = vm.more (k\<lparr>fos := fos k1\<rparr>)" "length (free_frames k) \<le> length (free_frames k1) + 4"
    by (rule create_terminal_fo_ok [OF h])
  note m1 = kernel_more [OF k1(8)]
  have s1: "stdout_fo k1 = 0" using std(2) k1(8) by (cases k; cases k1) simp
  define k2 where "k2 = k1\<lparr>stdin_fo := i, fos := (fos k1)(i \<mapsto> ?f\<lparr>fo_ref_count := 1\<rparr>),
     threads := (threads k)(p \<mapsto> t\<lparr>fds := (fds t)[0 := i]\<rparr>)\<rparr>"
  have h2: "heap_ok k2" "13 \<le> length (free_frames k2)"
    using k1(2,6,7,9) t(1) av m1 by (auto simp: k2_def heap_ok_def)
  obtain out k3 where k3: "create_terminal_fo 0 k2 = Some (out, k3)" "heap_ok k3" "out \<noteq> 0" "out \<notin> dom (threads k2)" "fos k2 out = None"
    "\<forall>g \<in> set (free_frames k3). out \<noteq> kernel_virtual_base k3 + g" "fos k3 = (fos k2)(out \<mapsto> ?f)"
    "vm.more k3 = vm.more (k2\<lparr>fos := fos k3\<rparr>)"
    by (rule create_terminal_fo_ok [OF h2])
  note m3 = kernel_more [OF k3(8)]
  define k4 where "k4 = k3\<lparr>stdout_fo := out, fos := (fos k3)(out \<mapsto> ?f\<lparr>fo_ref_count := 1\<rparr>),
     threads := (threads k2)(p \<mapsto> t\<lparr>fds := (fds t)[0 := i, 1 := out, 2 := out]\<rparr>)\<rparr>"
  have "get_stdin_fo k = Some (i, k1\<lparr>stdin_fo := i\<rparr>)" using k1(1) std by (simp add: get_stdin_fo_def)
  moreover have "get_stdout_fo k2 = Some (out, k3\<lparr>stdout_fo := out\<rparr>)"
    using k3(1) s1 by (simp add: get_stdout_fo_def k2_def)
  ultimately have "set_std_fds p k = Some k4"
    using t(1) m1 m3 k1(7) k3(7) by (simp add: set_std_fds_def upd_fo_def upd_thread_def k4_def) (simp add: k2_def)
  moreover have "heap_ok k4" using k3(2,6,7) m3 by (auto simp: k4_def heap_ok_def k2_def)
  ultimately show thesis using k1(3) k3(3) m1 m3
    by (intro that [of k4 i out]) (simp_all add: k4_def k2_def)
qed

subsection \<open>What the memory managers leave alone\<close>

lemma init_pages_more: "init_pages n pf s = Some s' \<Longrightarrow> vm.more s' = vm.more (s :: 'a vm_scheme) \<and> cr3 s' = cr3 s"
  by (induction n arbitrary: s') (auto simp: bind_Some_iff init_page_def Let_def split: if_splits)

lemma init_physical_memory_more: "init_physical_memory pf base len s = Some s' \<Longrightarrow> vm.more s' = vm.more (s :: 'a vm_scheme)"
  by (auto simp: init_physical_memory_def Let_def bind_Some_iff dest!: init_pages_more)

lemma setup_page_tables_more: "setup_page_tables va pa fl s = Some s' \<Longrightarrow> vm.more s' = vm.more s"
  by (auto simp: setup_page_tables_def map_from_def bind_Some_iff next_table_more kwrite_def)

lemma map_physical_more: "map_physical pf va pa s = Some s' \<Longrightarrow> vm.more s' = vm.more s"
proof (rule map_physical.raw_induct [where P = "\<lambda>pf va pa s s'. vm.more s' = vm.more s"])
  show "vm.more s' = vm.more s"
    if "\<And>pf va pa s s'. f pf va pa s = Some s' \<Longrightarrow> vm.more s' = vm.more s"
      "(if pa < pf + get_free_pages_count s * PAGE_SIZE
        then Option.bind (setup_page_tables va pa PAGING_KERNEL_R_W_FLAGS s) (f pf (va + PAGE_SIZE) (pa + PAGE_SIZE))
        else Some s) = Some s'" for f pf va pa s s'
    using that by (auto simp: bind_Some_iff dest: setup_page_tables_more split: if_splits)
qed

lemma init_paging_more: "init_paging v pb pf s = Some s' \<Longrightarrow> vm.more s' = vm.more s"
  by (auto simp: init_paging_def Let_def bind_Some_iff set_new_cr3_def
      dest!: get_free_page_more map_physical_more setup_page_tables_more)

subsection \<open>The memory managers\<close>

lemma start_memory_ok:
  fixes s :: "'a vm_scheme"
  assumes map: "memory_map m physfree = Some (base, len)"
    and pf: "physfree = frame_of pn" "0 < pn" "pn < M"
    and sz: "unat base + unat len < 2 ^ 64" "(unat base + unat len) div 4096 = M" "M \<le> MAX_PAGES"
    and boot: "pages_used s = 0" "\<And>i. pp_next (page_descriptor s i) = None"
    and zero: "\<forall>n. pn \<le> n \<longrightarrow> n < M \<longrightarrow> zero_page (mem s) (frame_of n)"
    and pb: "page_aligned physbase" "unat physbase \<le> unat physfree"
    and av: "pn + 3 * (M div 512 + 2) + 13 \<le> M"
  shows "\<exists>s'. start_memory m kernmem physbase physfree s = Some s' \<and> vm_inv s' \<and> vm.more s' = vm.more s \<and>
     kernel_virtual_base s' = kernmem - physbase \<and> set (free_pages s') \<subseteq> {pn..<M} \<and>
     M \<le> pn + length (free_pages s') + 3 * (M div 512 + 2) + 4 \<and>
     (\<forall>j. unat physbase + j * 4096 < unat physfree + length (free_pages s') * 4096 \<longrightarrow>
        walk_page_table (kernmem + of_nat j * PAGE_SIZE) s' = physbase + of_nat j * PAGE_SIZE)"
proof -
  from init_physical_memory_free_list [OF pf sz boot] obtain s1 where
    s1: "init_physical_memory physfree base len s = Some s1" "phys_inv s1" "free_pages s1 = [pn..<M]"
      "mem s1 = (\<lambda>x. if unat (x - physfree) < (M - pn) * 512 then 0 else mem s x)" by blast
  have z: "\<forall>f \<in> set (free_frames s1). zero_page (mem s1) f"
    using zero by (auto simp: free_frames_def s1(3,4) zero_page_def)
  have M: "unat physfree = pn * 4096" using pf sz(3) by (simp add: unat_frame_of MAX_PAGES_def)
  have "unat physfree + (length (free_pages s1) - 1) * 4096 \<le> unat physbase + M * 4096"
    using M pf(3) s1(3) by simp
  moreover have "unat physbase + M * 4096 < 2 ^ 48" using M pb(2) pf(3) sz(3) by (simp add: MAX_PAGES_def)
  moreover have "3 * (M div 512 + 2) + 13 \<le> length (free_pages s1)" using av s1(3) by simp
  ultimately obtain s2 K n where s2: "init_paging kernmem physbase physfree s1 = Some s2" "vm_inv s2"
      "kernel_virtual_base s2 = kernmem - physbase" "free_pages s2 = drop n (free_pages s1)" "n < length (free_pages s1)"
      "n \<le> 3 * (M div 512 + 2) + 4" "unat physfree + length (free_pages s2) * 4096 \<le> unat physbase + K * 4096"
      "\<forall>j < K. pt_view s2 (boot_va kernmem j) = boot_va physbase j OR 3"
    using init_paging_ok [OF s1(2) z pb(1), of physfree M kernmem] by blast
  have "vm.more s2 = vm.more s" using init_physical_memory_more [OF s1(1)] init_paging_more [OF s2(1)] by simp
  moreover have "walk_page_table (kernmem + of_nat j * PAGE_SIZE) s2 = physbase + of_nat j * PAGE_SIZE"
    if "unat physbase + j * 4096 < unat physfree + length (free_pages s2) * 4096" for j
  proof -
    have "j < K" using that s2(7) by simp
    moreover have "page_aligned (boot_va physbase j)" using pb(1) GET_FLAGS_page [of physbase j] by (simp add: page_aligned_def boot_va_def)
    ultimately show ?thesis using s2(8) by (simp add: walk_view or_page boot_va_def)
  qed
  moreover have "set (free_pages s2) \<subseteq> {pn..<M}" using s2(4) by (auto simp: s1(3) dest: in_set_dropD)
  moreover have "M \<le> pn + length (free_pages s2) + 3 * (M div 512 + 2) + 4" using s2(4,6) s1(3) by simp
  ultimately show ?thesis using s1(1) s2(1-3) by (auto simp: start_memory_def map)
qed

lemma init_idle_process_ok:
  fixes k :: "'a kernel_scheme"
  assumes h: "heap_ok k" and av: "62 \<le> length (free_frames k)" and std: "stdin_fo k = 0" "stdout_fo k = 0"
    and ps: "length (processes k) = MAX_P" "processes k ! 1 = 0"
  shows "\<exists>idle k'. init_idle_process sch k = Some (idle, k') \<and> heap_ok k' \<and> has_stdout k' \<and> sched_ok k' [idle] \<and>
     current_process k' = idle \<and> idle \<noteq> 0 \<and> get_process_pid k' = Some 1 \<and> con k' = con k"
proof -
  have b: "pages_of 33096 = 9" by (simp add: pages_of_def)
  obtain a k1 where k1: "kmalloc 33096 k = Some (a, k1)" "heap_ok k1" "vm.more k1 = vm.more k" "a \<noteq> 0"
    "a \<notin> dom (threads k) \<union> dom (mms k) \<union> dom (vmas k) \<union> dom (fos k) \<union> dom (dirs k)"
    "length (free_frames k) \<le> length (free_frames k1) + 4 * pages_of 33096"
    "\<forall>g \<in> set (free_frames k1). a \<noteq> kernel_virtual_base k1 + g"
    by (rule kmalloc_heap_pages [OF h, of 33096]) (use av b in auto)
  note m1 = kernel_more [OF k1(3)]
  have s1: "stdin_fo k1 = 0" "stdout_fo k1 = 0" using std k1(3) by (cases k; cases k1; simp)+
  have f: "find (\<lambda>i. processes k ! i = 0) [1..<MAX_P] = Some 1"
    using ps(2) upt_conv_Cons [of 1 MAX_P] by (simp add: MAX_P_def del: upt_rec_numeral)
  let ?t = "kthread_zero\<lparr>pid := 1, ppid := 0, process_mm := 0, t_cr3 := get_cr3 k1, rip := sch, t_next := a, num_child := 0\<rparr>"
  define k2 where "k2 = k1\<lparr>processes := (processes k)[1 := 1], threads := (threads k)(a \<mapsto> ?t), current_process := a\<rparr>"
  have h2: "heap_ok k2" "17 \<le> length (free_frames k2)" using k1(2,6,7) av m1 by (auto simp: k2_def heap_ok_def b)
  obtain i out k3 where k3: "set_std_fds a k2 = Some k3" "heap_ok k3" "i \<noteq> 0" "out \<noteq> 0"
    "threads k3 = (threads k2)(a \<mapsto> ?t\<lparr>fds := (fds ?t)[0 := i, 1 := out, 2 := out]\<rparr>)"
    "map_option fo_impl (fos k3 out) = Some (Some TERMINAL_FS)" "current_process k3 = current_process k2"
    "processes k3 = processes k2" "con k3 = con k2"
    by (rule set_std_fds_ok [OF h2, of a ?t]) (auto simp: k2_def s1 kthread_zero_def NUM_FDS_def)
  let ?k = "k3\<lparr>threads := (threads k3)(a \<mapsto> ?t\<lparr>fds := (fds ?t)[0 := i, 1 := out, 2 := out], p_state := RUNNING\<rparr>)\<rparr>"
  have "init_idle_process sch k = Some (a, ?k)"
    using k1(1) k3(1,5) by (simp add: init_idle_process_def alloc_thread_def getPID_def m1 f [simplified] upd_thread_def k2_def get_cr3_def)
  moreover have "heap_ok ?k" using k3(2,5) by (auto simp: heap_ok_def)
  moreover have "has_stdout ?k" using k3 by (auto simp: has_stdout_def k2_def kthread_zero_def NUM_FDS_def)
  moreover have "sched_ok ?k [a]" using k3(7) by (simp add: sched_ok_def ring_def k2_def)
  moreover have "current_process ?k = a" "con ?k = con k" "get_process_pid ?k = Some 1" using k3(7,9) m1 by (simp_all add: k2_def get_process_pid_def)
  ultimately show ?thesis using k1(4) by blast
qed

subsection \<open>Properties\<close>

text \<open>Starting the kernel, up to the creation of the first process.\<close>

lemma start_establishes:
  fixes k :: "'a kernel_scheme"
  assumes "memory_map m physfree = Some (base, len)"
    and "physfree = frame_of pn" "0 < pn" "unat base + unat len < 2 ^ 64" "(unat base + unat len) div 4096 = M" "M \<le> MAX_PAGES"
    and "pages_used k = 0" "\<forall>i. pp_next (page_descriptor k i) = None"
    and "\<forall>n. pn \<le> n \<longrightarrow> n < M \<longrightarrow> zero_page (mem k) (frame_of n) \<and> kernmem - physbase + frame_of n \<noteq> 0"
    and "page_aligned physbase" "unat physbase \<le> unat physfree" "pn + 3 * (M div 512 + 2) + 66 \<le> M"
    and "threads k = Map.empty" "mms k = Map.empty" "vmas k = Map.empty" "fos k = Map.empty" "dirs k = Map.empty"
    and "stdin_fo k = 0" "stdout_fo k = 0" "length (processes k) = MAX_P"
  shows "\<exists>idle k'. start sch m kernmem physbase physfree k =
       map_option (\<lambda>(new, k). (idle, k)) (create_process (''bin/init'' @ [NUL]) k') \<and>
     heap_ok k' \<and> has_stdout k' \<and> sched_ok k' [idle] \<and> get_process_pid k' = Some 1 \<and> con k' = con k"
proof -
  have "pn < M" "pn + 3 * (M div 512 + 2) + 13 \<le> M" using assms(12) by simp_all
  with start_memory_ok [OF assms(1-3) _ assms(4-7), of physbase kernmem] assms(8-11) obtain k1 where
    k1: "start_memory m kernmem physbase physfree k = Some k1" "vm_inv k1" "vm.more k1 = vm.more k"
      "kernel_virtual_base k1 = kernmem - physbase" "set (free_pages k1) \<subseteq> {pn..<M}"
      "M \<le> pn + length (free_pages k1) + 3 * (M div 512 + 2) + 4" by blast
  let ?k = "init_processes k1"
  note m = kernel_more [OF k1(3)]
  have p: "fold (\<lambda>i ps. ps[i := 0]) xs ps = map (\<lambda>i. if i \<in> set xs then 0 else ps ! i) [0..<length ps]" for xs and ps :: "int list"
    by (induction xs arbitrary: ps) (auto simp: map_nth nth_list_update intro!: nth_equalityI)
  have ff: "free_frames ?k = map frame_of (free_pages k1)" by (simp add: init_processes_def) (simp add: free_frames_def)
  have "heap_ok ?k" unfolding heap_ok_def ff using k1(2,4,5) assms(9,13-17) m by (auto simp: init_processes_def)
  moreover have "62 \<le> length (free_frames ?k)" unfolding ff using k1(6) assms(12) by simp
  moreover have "stdin_fo ?k = 0" "stdout_fo ?k = 0" using assms(18,19) k1(3) by (cases k; cases k1; simp add: init_processes_def)+
  moreover have "length (processes ?k) = MAX_P" "processes ?k ! 1 = 0"
    using assms(20) m by (simp_all add: init_processes_def p) (simp add: MAX_P_def)
  ultimately obtain idle k2 where
    "init_idle_process sch ?k = Some (idle, k2)" "heap_ok k2" "has_stdout k2" "sched_ok k2 [idle]"
    "get_process_pid k2 = Some 1" "con k2 = con ?k"
    using init_idle_process_ok [of ?k sch] by blast
  then show ?thesis using k1(1) m
    by (intro exI [of _ idle] exI [of _ k2])
      (cases "create_process (''bin/init'' @ [NUL]) k2"; auto simp: start_def init_processes_def)
qed

definition loader_small :: "u32 list" where
  "loader_small = [7, 1, 0, 0x9001, 20, 0, 0, 0x64000, 0, 1]"

lemma loader_small_map: "memory_map loader_small (frame_of 2) = Some (0, 0x64000)"
proof -
  have "find_smap loader_small 3 = Some 3" by (subst find_smap.simps) (simp add: loader_small_def word_at_def)
  then have "find_smap loader_small (Suc (Suc (Suc 0))) = Some 3" by (simp add: numeral_3_eq_3)
  then have "find_smap loader_small 0 = Some 3" by (subst find_smap.simps) (simp add: loader_small_def word_at_def)
  then show ?thesis
    by (simp add: memory_map_def) (simp add: loader_small_def word_at_def smap_at_def choose_region_def frame_of_def PAGE_SIZE_def word_less_nat_alt word_le_nat_alt)
qed

definition kernel_boot :: kernel where
  "kernel_boot = vm.extend (phys.extend phys_boot (vm.fields 0 0 0)) (kernel.fields kbd_boot [] (replicate 1000 0)
     Map.empty Map.empty Map.empty Map.empty Map.empty 0 0 0 0 0 0 0)"

end
