(* ===== verification/Ports.thy ===== *)
theory Ports
  imports Boot Timer Isr Descriptors
begin

text \<open>
  Port input and output (\<^verbatim>\<open>sys/io.c\<close>), the devices it programs (\<^verbatim>\<open>sys/pit.c\<close>, \<^verbatim>\<open>sys/pic.c\<close>), the
  interrupt handlers with their acknowledgement, and \<open>boot\<close> of \<^verbatim>\<open>sys/main.c\<close>. A bus is the sequence of
  writes to ports; what a device answers to a read is an argument.
\<close>

subsection \<open>Ports\<close>

datatype port_write = Out_b u16 u8 | Out_l u16 u32

type_synonym bus = "port_write list"

definition output_b :: "u16 \<Rightarrow> u8 \<Rightarrow> bus \<Rightarrow> bus" where "output_b p v b = b @ [Out_b p v]"

definition input_b :: "(u16 \<Rightarrow> u8) \<Rightarrow> u16 \<Rightarrow> u8" where "input_b device p = device p"

definition output_l :: "u16 \<Rightarrow> u32 \<Rightarrow> bus \<Rightarrow> bus" where "output_l p v b = b @ [Out_l p v]"

definition input_l :: "(u16 \<Rightarrow> u32) \<Rightarrow> u16 \<Rightarrow> u32" where "input_l device p = device p"

definition PIT_0 :: u16 where "PIT_0 = 0x40"

definition PIT_CR :: u16 where "PIT_CR = PIT_0 + 3"

definition PIC_M_CR :: u16 where "PIC_M_CR = 0x20"

definition PIC_EOI :: u8 where "PIC_EOI = 0x20"

definition KB_CNTRL_ADDRESS :: u16 where "KB_CNTRL_ADDRESS = 0x60"

subsection \<open>Devices\<close>

definition init_pit :: "bus \<Rightarrow> bus" where
  "init_pit b =
     (let command_register = 0x36;
          b = output_b PIT_CR command_register b;
          f = word_of_int (1193182 div 100) :: u16;
          p1 = ucast (f AND 0x00FF);
          b = output_b PIT_0 p1 b;
          p2 = ucast (drop_bit 8 f AND 0x00FF)
      in output_b PIT_0 p2 b)"

definition init_pic :: "bus \<Rightarrow> bus" where "init_pic b = b"

definition init_keyboard :: "bus \<Rightarrow> bus" where "init_keyboard b = b"

definition getScancode :: "(u16 \<Rightarrow> u8) \<Rightarrow> u8" where "getScancode device = input_b device KB_CNTRL_ADDRESS"

text \<open>The handlers as the entry points call them, with the kernel's part of \<open>Timer\<close> and \<open>Terminal\<close>.\<close>

definition pit_handler :: "('a kernel_scheme \<times> bus) c_function" where
  "pit_handler args s = do {
     k \<leftarrow> pit_intr_handler (fst s);
     Some (0, (k, output_b PIC_M_CR PIC_EOI (snd s)))
   }"

definition keyboard_handler :: "(u16 \<Rightarrow> u8) \<Rightarrow> ('a kernel_scheme \<times> bus) c_function" where
  "keyboard_handler device args s = do {
     k \<leftarrow> on_con (keyboard_intr_handler (getScancode device)) (fst s);
     Some (0, (k, output_b PIC_M_CR PIC_EOI (snd s)))
   }"

subsection \<open>Boot\<close>

text \<open>\<open>boot\<close>, from the stack the loader left: its fourth word is the physical address of the modules, \<open>modules\<close> the
  words found there through the kernel's mapping, its fifth the first free address. \<open>isrs\<close> are the
  addresses of the entry points of timer, keyboard, system calls and page faults.\<close>

definition boot ::
    "u64 \<Rightarrow> u64 \<Rightarrow> u64 \<times> u64 \<times> u64 \<times> u64 \<Rightarrow> u64 \<Rightarrow> (u64 \<Rightarrow> u32 list) \<Rightarrow> u32 list \<Rightarrow> u64 \<Rightarrow> u64 \<Rightarrow> 'a kernel_scheme \<times> bus \<Rightarrow>
     (u64 \<times> u64 list \<times> (idtr_struct \<times> idt_struct list) \<times> 'a kernel_scheme \<times> bus) option" where
  "boot tss idt_addr isrs init_scheduler modules loader_stack kernmem physbase s =
     (let (timer, keyboard, sys, fault) = isrs;
          (k, b) = s;
          table = init_gdt tss gdt;
          idt = init_idt timer keyboard sys fault idt_addr;
          b = init_pit b;
          b = init_pic b;
          k = k\<lparr>con := resetVideoMemory (CHR '' '') (CHR 0x07) (con k)\<rparr>;
          b = init_keyboard b
      in map_option (\<lambda>(idle, k). (idle, table, idt, k, b))
           (start init_scheduler (modules (ucast (loader_stack ! 3) + kernmem - physbase)) kernmem physbase (ucast (loader_stack ! 4)) k))"

subsection \<open>Properties\<close>

text \<open>The timer chip as documented: a command that selects channel 0, low and high byte, is followed by the two
  bytes of the reload value.\<close>

fun pit_reload :: "bus \<Rightarrow> u16 option" where
  "pit_reload [Out_b c v, Out_b p lo, Out_b q hi] =
     (if c = PIT_CR \<and> v AND 0xF0 = 0x30 \<and> p = PIT_0 \<and> q = PIT_0 then Some (push_bit 8 (ucast hi) OR ucast lo) else None)"
| "pit_reload _ = None"

lemma init_pit_writes: "init_pit b = b @ [Out_b PIT_CR 0x36, Out_b PIT_0 0x9B, Out_b PIT_0 0x2E]"
  by (simp add: init_pit_def output_b_def)

lemma init_pit_reload: "pit_reload (init_pit []) = Some 11931" by (simp add: init_pit_writes)


text \<open>A tick: the timer's interrupt advances the clock by one, is acknowledged once, and leaves the interrupted
  code as it was.\<close>

lemma timer_tick:
  assumes "pit_intr_handler (fst (world m)) = Some k" "176 \<le> unat (interrupt_stack m)" "interrupt_stack m \<le> stack_end j"
  shows "resumes j (regs m) (k, snd (world m) @ [Out_b PIC_M_CR PIC_EOI]) m (interrupt j [] (timer_isr pit_handler) m)"
    and "time_since_boot k = time_since_boot (fst (world m)) + 1"
proof -
  show "resumes j (regs m) (k, snd (world m) @ [Out_b PIC_M_CR PIC_EOI]) m (interrupt j [] (timer_isr pit_handler) m)"
    by (rule isr_resumes(1) [where x = 0]) (use assms in \<open>simp_all add: pit_handler_def output_b_def\<close>)
  show "time_since_boot k = time_since_boot (fst (world m)) + 1"
    using assms(1) by (auto simp: pit_intr_handler_def on_con_def bind_Some_iff on_second_tick_def Let_def)
qed



end
