(* ===== verification/Spec2Isabelle.thy ===== *)
theory Spec2Isabelle
  imports Page_Fault User_Memory Programs Init Kernel_Types Ring3 Traps Layout Ports
begin

text \<open>
  A verification library for the snow-os kernel and its user library.

  \<^bold>\<open>The program.\<close> The kernel boots on physical memory described by the loader
  (\<^verbatim>\<open>sys/main.c\<close>), builds a free list of pages (\<^verbatim>\<open>sys/physical_memory.c\<close>), page tables and a
  heap of whole pages (\<^verbatim>\<open>sys/paging.c\<close>), and runs processes from an archive linked into it
  (\<^verbatim>\<open>sys/tarfs.c\<close>, \<^verbatim>\<open>sys/elf64.c\<close>, \<^verbatim>\<open>sys/process.c\<close>) with a text console, keyboard and
  terminal (\<^verbatim>\<open>sys/kprintf.c\<close>, \<^verbatim>\<open>sys/keyboard.c\<close>, \<^verbatim>\<open>sys/terminal.c\<close>). Programs use the library
  under \<^verbatim>\<open>libc\<close>.

  \<^bold>\<open>Modelling.\<close> Stateful code is explicit state passing over extensible records; a call with
  no defined continuation in C (a wild pointer, an access outside an object, a loop that does not end)
  is \<^const>\<open>None\<close>. Machine integers are words. The two chains of records are
  \<open>phys\<close>, \<open>vm\<close>, \<open>kernel\<close> and \<open>console\<close>, \<open>tty\<close>, \<open>kbd\<close>; the kernel's state holds the device
  state in its field \<open>con\<close>.

  \<^bold>\<open>Theories.\<close>
  \<^item> \<open>Snow_Prelude\<close>: words, pages, little-endian memory and the counting loop \<open>foldM\<close>.
  \<^item> \<open>Phys_Mem\<close>: the page allocator. Its invariant ties the free list, the counters and the
    reference counts; initialisation establishes it, allocation hands out distinct frames, and a page
    given back is the next one handed out. The locale \<open>frame_allocator\<close> is its interface.
  \<^item> \<open>Page_Table\<close>: four-level tables in memory as trees, and how stores change them.
  \<^item> \<open>Paging\<close>: mapping, walking and unmapping a page, and new address spaces. The locale
    \<open>address_space\<close> extends the allocator's interface by the laws of mapping.
  \<^item> \<open>Kernel_Heap\<close>: \<open>kmalloc\<close>, \<open>kfree\<close>, the direct map of \<open>init_paging\<close> and the clean-up of
    page tables.
  \<^item> \<open>Cow\<close>: the copy-on-write duplication of page tables that \<open>fork\<close> uses (definitions).
  \<^item> \<open>C_String\<close>: \<^verbatim>\<open>sys/string.c\<close> on character buffers, with round trips and bounds.
  \<^item> \<open>Console\<close>: video memory, cursor and \<open>kprintf\<close>. The locale \<open>text_sink\<close> is the interface
    between the format loop and a device; it is interpreted on the console and, in \<open>Libc\<close>, on a
    program's standard output.
  \<^item> \<open>Terminal\<close>: scan codes, modifier keys, the input buffer, reading and writing lines.
  \<^item> \<open>Libc\<close>: \<^verbatim>\<open>libc/string.c\<close> and \<^verbatim>\<open>libc/printf.c\<close>, proved to agree with the kernel's own
    routines.
  \<^item> \<open>Tarfs\<close>: the archive file system on the archive's bytes.
  \<^item> \<open>Kernel_State\<close>: the structures the kernel allocates, in one typed heap each, and the terminal's
    file objects (\<^verbatim>\<open>sys/vfs.c\<close>).
  \<^item> \<open>Elf\<close>: the loader.
  \<^item> \<open>Process\<close>: identifiers, creation, fork, the scheduler, user memory, waiting and killing. On a
    ring of threads the scheduler refines a round robin, under which every waiting process runs.
  \<^item> \<open>Exec\<close>: replacing the program of a process.
  \<^item> \<open>Page_Fault\<close>: the page-fault handler. A write to a shared page gives the writer a private copy.
  \<^item> \<open>Timer\<close>: ticks and sleeping.
  \<^item> \<open>Syscalls\<close>: open directories and the system call dispatcher.
  \<^item> \<open>User_Memory\<close>: the pages that \<open>user_malloc\<close> gives to a program.
  \<^item> \<open>User_Lib\<close>: the stubs of the user library, over an arbitrary trap into the kernel.
    The locales \<open>stdout_calls\<close> and \<open>file_calls\<close> state what programs expect of the kernel, and the
    dispatcher is shown to provide it.
  \<^item> \<open>Programs\<close>, \<open>Shell\<close> and \<open>Init\<close>: the programs under \<^verbatim>\<open>bin\<close>. \<open>cat\<close> prints the file it is
    given and \<open>echo\<close> its arguments, through the system calls; the shell splits a line into its tokens.
  \<^item> \<open>Kernel_Types\<close>: every system call keeps the kernel's structures well typed.
  \<^item> \<open>Descriptors\<close>: interrupt gates and segment descriptors.
  \<^item> \<open>Machine\<close>: registers, words of memory and the instructions the assembly uses; a sequence of
    instructions is run on them, and interrupts are delivered as the processor does.
  \<^item> \<open>Isr\<close>: the entry points of interrupts and system calls (\<^verbatim>\<open>sys/pit_isr.s\<close>, \<^verbatim>\<open>keyboard_isr.s\<close>,
    \<^verbatim>\<open>page_fault_isr.s\<close>, \<^verbatim>\<open>syscalls.s\<close>) and the traps of \<^verbatim>\<open>libc/syscall_wrapper.c\<close>. The interrupted code
    continues as if nothing had happened, whatever the handler leaves in registers, flags and memory
    outside its callers' frames.
  \<^item> \<open>Traps\<close>: on registers, every stub reaches the dispatcher of \<open>Syscalls\<close> with its code and arguments.
  \<^item> \<open>Context\<close>: \<^verbatim>\<open>sys/kthread.s\<close> and the stacks of new and forked threads. \<open>switch_to\<close> exchanges suspended
    contexts and leaves every other thread's alone; \<open>fork\<close> returns once in the parent and once in the child.
  \<^item> \<open>Ring3\<close>: the ways into user mode, and the interrupt flag (\<^verbatim>\<open>sys/interrupt.s\<close>).
  \<^item> \<open>Layout\<close>: sizes and offsets of the declared structures, those of \<^verbatim>\<open>include/sys/ahci.h\<close> included.
  \<^item> \<open>Boot\<close>: \<open>start\<close> of \<^verbatim>\<open>sys/main.c\<close>, which establishes the invariants the other theories use.
  \<^item> \<open>Ports\<close>: port input and output (\<^verbatim>\<open>sys/io.c\<close>), the set-up of timer and keyboard, the interrupt
    handlers with their acknowledgement, and \<open>boot\<close> of \<^verbatim>\<open>sys/main.c\<close>.

  \<^bold>\<open>Loops.\<close> Counting loops are \<open>foldM\<close> over their index range, loops that shrink their
  argument are total functions, and loops that follow pointers are \<open>partial_function (option)\<close>: on a
  well-formed ring or list they are proved to return. The prompt loop of the shell, which never ends, is
  run for a given number of rounds; no other loop is bounded.

  \<^bold>\<open>Environment.\<close> What happens while a system call waits is an argument, the record \<open>world\<close>: keys
  typed, seconds passing, and the steps of the other processes. Programs are functions of the trap into
  the kernel; a program that has handed the processor to another for good has no result.

  \<^bold>\<open>Two levels.\<close> The kernel's C code works on the record \<open>kernel\<close>, where the context switch is the change
  of \<open>current_process\<close>; its assembly works on the record \<open>cpu\<close>, where a C function is an argument of
  the instruction that calls it. \<open>Context\<close> shows for the stacks what \<open>Process\<close> assumes of the switch, and
  \<open>Traps\<close> connects the two levels for system calls. Memory of \<open>cpu\<close> is one space of words, so that the
  copies of stacks are seen but not the change of page tables between them.

  \<^bold>\<open>Not modelled.\<close> \<^verbatim>\<open>sys/gdt.s\<close> and \<^verbatim>\<open>sys/idt.s\<close> only load table registers that no other code reads.
  \<^verbatim>\<open>sys/kthread.c\<close> is commented out, and \<^verbatim>\<open>sys/ring3.s\<close> is called from there only; \<open>test_syscall\<close> of
  \<^verbatim>\<open>sys/syscalls.s\<close> and the constants of \<^verbatim>\<open>include/sys/ahci.h\<close> are not used. \<open>memcpy\<close> and \<open>memset\<close> of
  \<^verbatim>\<open>libc/string.c\<close> repeat the kernel's.
\<close>

end
